(* ===== verification/Prelude.thy ===== *)
theory Prelude
  imports Main "HOL-Library.Word" "HOL-Library.Multiset"
begin

text \<open>
  Shared vocabulary of the development.

  Every operation of the program that can raise is a function into a sum type
  \<^theory_text>\<open>'e + 'a\<close>: \<^theory_text>\<open>Inl\<close> carries the exception, \<^theory_text>\<open>Inr\<close> the value
  returned. This theory holds the plumbing for such results (sequencing, guards and the
  traversal of a list that stops at the first exception), Python's slices, byte strings read
  as big-endian integers, and the list facts several components need.
  The collection \<^theory_text>\<open>res_simps\<close> inverts successful and failing results.
\<close>

named_theorems res_simps

section \<open>Results\<close>

definition bind_res :: "'e + 'a \<Rightarrow> ('a \<Rightarrow> 'e + 'b) \<Rightarrow> 'e + 'b" where
  "bind_res m f = (case m of Inl e \<Rightarrow> Inl e | Inr x \<Rightarrow> f x)"

definition raise_if :: "bool \<Rightarrow> 'e \<Rightarrow> 'e + 'a \<Rightarrow> 'e + 'a" where
  "raise_if b e k = (if b then Inl e else k)"

definition map_error :: "('e \<Rightarrow> 'f) \<Rightarrow> 'e + 'a \<Rightarrow> 'f + 'a" where
  "map_error g m = (case m of Inl e \<Rightarrow> Inl (g e) | Inr x \<Rightarrow> Inr x)"

fun map_res :: "('a \<Rightarrow> 'e + 'b) \<Rightarrow> 'a list \<Rightarrow> 'e + 'b list" where
  "map_res f [] = Inr []"
| "map_res f (x # xs) =
     (case f x of
        Inl e \<Rightarrow> Inl e
      | Inr y \<Rightarrow> (case map_res f xs of Inl e \<Rightarrow> Inl e | Inr ys \<Rightarrow> Inr (y # ys)))"

fun fold_res :: "('a \<Rightarrow> 's \<Rightarrow> 'e + 's) \<Rightarrow> 'a list \<Rightarrow> 's \<Rightarrow> 'e + 's" where
  "fold_res f [] s = Inr s"
| "fold_res f (x # xs) s =
     (case f x s of Inl e \<Rightarrow> Inl e | Inr s' \<Rightarrow> fold_res f xs s')"

lemma bind_res_Inl [simp]: "bind_res (Inl e) f = Inl e"
  by (simp add: bind_res_def)

lemma bind_res_Inr [simp]: "bind_res (Inr x) f = f x"
  by (simp add: bind_res_def)

lemma bind_res_eq_Inr [res_simps]:
  "bind_res m f = Inr y \<longleftrightarrow> (\<exists>x. m = Inr x \<and> f x = Inr y)"
  by (cases m) auto

lemma bind_res_eq_Inl [res_simps]:
  "bind_res m f = Inl e \<longleftrightarrow> m = Inl e \<or> (\<exists>x. m = Inr x \<and> f x = Inl e)"
  by (cases m) auto

lemma raise_if_True [simp]: "raise_if True e k = Inl e"
  by (simp add: raise_if_def)

lemma raise_if_False [simp]: "raise_if False e k = k"
  by (simp add: raise_if_def)

lemma raise_if_eq_Inr [res_simps]: "raise_if b e k = Inr y \<longleftrightarrow> \<not> b \<and> k = Inr y"
  by (simp add: raise_if_def)

lemma raise_if_eq_Inl [res_simps]:
  "raise_if b e k = Inl e' \<longleftrightarrow> (if b then e = e' else k = Inl e')"
  by (simp add: raise_if_def)

lemma map_error_Inr [simp]: "map_error g (Inr x) = Inr x"
  by (simp add: map_error_def)

lemma map_error_Inl [simp]: "map_error g (Inl e) = Inl (g e)"
  by (simp add: map_error_def)

lemma map_error_eq_Inr [res_simps]: "map_error g m = Inr x \<longleftrightarrow> m = Inr x"
  by (cases m) auto

lemma map_error_eq_Inl [res_simps]: "map_error g m = Inl e \<longleftrightarrow> (\<exists>e'. m = Inl e' \<and> e = g e')"
  by (cases m) auto

lemma map_res_eq_Inr [res_simps]:
  "map_res f xs = Inr ys \<longleftrightarrow> list_all2 (\<lambda>x y. f x = Inr y) xs ys"
proof (induction xs arbitrary: ys)
  case Nil
  then show ?case by auto
next
  case (Cons a xs)
  show ?case
  proof (cases "map_res f xs")
    case (Inl e)
    then show ?thesis using Cons.IH by (cases ys) (auto split: sum.splits)
  next
    case (Inr zs)
    then have "list_all2 (\<lambda>x y. f x = Inr y) xs us \<longleftrightarrow> us = zs" for us
      using Cons.IH [of us] by auto
    with Inr show ?thesis by (cases ys) (auto split: sum.splits)
  qed
qed

lemma map_res_Inr_map: "(\<And>x. x \<in> set xs \<Longrightarrow> f x = Inr (g x)) \<Longrightarrow> map_res f xs = Inr (map g xs)"
  by (induction xs) auto

lemma map_res_eq_Inl:
  "map_res f xs = Inl e \<longleftrightarrow>
     (\<exists>us x vs. xs = us @ x # vs \<and> (\<forall>u \<in> set us. \<exists>y. f u = Inr y) \<and> f x = Inl e)"
  (is "_ \<longleftrightarrow> ?first xs")
proof (induction xs)
  case Nil
  then show ?case by simp
next
  case (Cons a xs)
  show ?case
  proof (cases "f a")
    case (Inl e')
    have "?first (a # xs) \<longleftrightarrow> e' = e"
    proof
      assume "?first (a # xs)"
      then obtain us x vs where "a # xs = us @ x # vs"
        and "\<forall>u \<in> set us. \<exists>y. f u = Inr y" and "f x = Inl e"
        by blast
      with Inl show "e' = e" by (cases us) auto
    next
      assume "e' = e"
      with Inl show "?first (a # xs)"
        by (intro exI [of _ "[]"] exI [of _ a] exI [of _ xs]) simp
    qed
    with Inl show ?thesis by simp
  next
    case (Inr y)
    have "?first (a # xs) \<longleftrightarrow> ?first xs"
    proof
      assume "?first (a # xs)"
      then obtain us x vs where *: "a # xs = us @ x # vs"
        "\<forall>u \<in> set us. \<exists>y. f u = Inr y" "f x = Inl e"
        by blast
      with Inr obtain us' where "us = a # us'" by (cases us) auto
      with * show "?first xs"
        by (intro exI [of _ us'] exI [of _ x] exI [of _ vs]) simp
    next
      assume "?first xs"
      then obtain us x vs where "xs = us @ x # vs"
        "\<forall>u \<in> set us. \<exists>y. f u = Inr y" "f x = Inl e"
        by blast
      with Inr show "?first (a # xs)"
        by (intro exI [of _ "a # us"] exI [of _ x] exI [of _ vs]) simp
    qed
    moreover have "map_res f (a # xs) = Inl e \<longleftrightarrow> map_res f xs = Inl e"
      using Inr by (simp split: sum.splits)
    ultimately show ?thesis using Cons.IH by simp
  qed
qed

lemma fold_res_append:
  "fold_res f (xs @ ys) s = bind_res (fold_res f xs s) (fold_res f ys)"
  by (induction xs arbitrary: s) (auto split: sum.splits)

text \<open>A loop invariant of a traversal: it holds afterwards if every step keeps it.\<close>

lemma fold_res_invariant:
  assumes "fold_res f xs s = Inr t" and "P s"
    and "\<And>x s s'. x \<in> set xs \<Longrightarrow> P s \<Longrightarrow> f x s = Inr s' \<Longrightarrow> P s'"
  shows "P t"
  using assms
proof (induction xs arbitrary: s)
  case Nil
  then show ?case by simp
next
  case (Cons a xs)
  then obtain s' where s': "f a s = Inr s'" and rest: "fold_res f xs s' = Inr t"
    by (auto split: sum.splits)
  have "P s'" by (rule Cons.prems(3) [OF _ Cons.prems(2) s']) simp
  then show ?case
    by (rule Cons.IH [OF rest]) (rule Cons.prems(3), auto)
qed

section \<open>Slices and byte strings\<close>

text \<open>Python's \<open>xs[i:j]\<close> for non-negative \<open>i\<close> and \<open>j\<close>: out-of-range bounds are clipped.\<close>

definition py_slice :: "'a list \<Rightarrow> nat \<Rightarrow> nat \<Rightarrow> 'a list" where
  "py_slice xs i j = take (j - i) (drop i xs)"

lemma length_py_slice [simp]: "length (py_slice xs i j) = min (j - i) (length xs - i)"
  by (simp add: py_slice_def min.commute)

lemma py_slice_append_left: "j \<le> length xs \<Longrightarrow> py_slice (xs @ ys) i j = py_slice xs i j"
  by (simp add: py_slice_def)

lemma py_slice_append_right:
  "length xs \<le> i \<Longrightarrow> py_slice (xs @ ys) i j = py_slice ys (i - length xs) (j - length xs)"
  by (simp add: py_slice_def)

lemma py_slice_full [simp]: "py_slice xs 0 (length xs) = xs"
  by (simp add: py_slice_def)

lemma py_slice_split:
  assumes "i \<le> j" and "j \<le> k"
  shows "py_slice xs i j @ py_slice xs j k = py_slice xs i k"
proof -
  have "k - i = (j - i) + (k - j)" using assms by simp
  moreover have "drop (j - i) (drop i xs) = drop j xs" using assms by simp
  ultimately show ?thesis by (simp only: py_slice_def take_add)
qed

lemma take_py_slice_drop:
  "i \<le> j \<Longrightarrow> take i xs @ py_slice xs i j @ drop j xs = xs"
  by (simp add: py_slice_def)
    (metis append_take_drop_id drop_drop le_add_diff_inverse2)

type_synonym byte = "8 word"

text \<open>\<open>int.from_bytes(bs, "big")\<close> and its inverse of a fixed width.\<close>

definition from_bytes_be :: "byte list \<Rightarrow> int" where
  "from_bytes_be bs = foldl (\<lambda>a b. a * 256 + uint b) 0 bs"

fun to_bytes_be :: "nat \<Rightarrow> int \<Rightarrow> byte list" where
  "to_bytes_be 0 v = []"
| "to_bytes_be (Suc n) v = to_bytes_be n (v div 256) @ [word_of_int (v mod 256)]"

lemma length_to_bytes_be [simp]: "length (to_bytes_be n v) = n"
  by (induction n arbitrary: v) auto

lemma from_bytes_be_Nil [simp]: "from_bytes_be [] = 0"
  by (simp add: from_bytes_be_def)

lemma from_bytes_be_snoc [simp]: "from_bytes_be (bs @ [b]) = from_bytes_be bs * 256 + uint b"
  by (simp add: from_bytes_be_def)

lemma byte_bounds: "0 \<le> uint (b :: byte)" "uint (b :: byte) < 256"
  using uint_bounded [of b] by simp_all

lemma from_bytes_be_bounds: "0 \<le> from_bytes_be bs" "from_bytes_be bs < 256 ^ length bs"
proof (induction bs rule: rev_induct)
  case Nil
  case 1 show ?case by simp
next
  case Nil
  case 2 show ?case by simp
next
  case (snoc b bs)
  case 1
  then show ?case using snoc byte_bounds(1) [of b] by simp
next
  case (snoc b bs)
  case 2
  then show ?case using snoc byte_bounds(2) [of b] by simp
qed

lemma from_to_bytes_be:
  "0 \<le> v \<Longrightarrow> v < 256 ^ n \<Longrightarrow> from_bytes_be (to_bytes_be n v) = v"
proof (induction n arbitrary: v)
  case 0
  then show ?case by simp
next
  case (Suc n)
  then have "v div 256 < 256 ^ n" by (simp add: int_div_less_self div_less_iff_less_mult mult.commute)
  with Suc have "from_bytes_be (to_bytes_be n (v div 256)) = v div 256"
    by (simp add: pos_imp_zdiv_nonneg_iff)
  moreover have "uint (word_of_int (v mod 256) :: byte) = v mod 256"
    by (simp add: uint_word_of_int)
  ultimately show ?case by simp
qed

lemma to_from_bytes_be: "length bs = n \<Longrightarrow> to_bytes_be n (from_bytes_be bs) = bs"
proof (induction bs arbitrary: n rule: rev_induct)
  case Nil
  then show ?case by simp
next
  case (snoc b bs)
  then obtain m where n: "n = Suc m" and m: "length bs = m" by auto
  have "(from_bytes_be bs * 256 + uint b) div 256 = from_bytes_be bs"
    using byte_bounds [of b] by simp
  moreover have "(from_bytes_be bs * 256 + uint b) mod 256 = uint b"
    using byte_bounds [of b] by simp
  ultimately show ?case using snoc.IH [OF m] n by simp
qed

text \<open>A property of every byte is decided by trying all 256 values.\<close>

lemma byte_cases_all:
  fixes P :: "byte \<Rightarrow> bool"
  assumes "list_all (\<lambda>n. P (word_of_int n)) [0..255]"
  shows "P w"
proof -
  have "uint w \<in> set [0..255]"
    using byte_bounds [of w] by simp
  with assms have "P (word_of_int (uint w))" by (simp only: list_all_iff)
  then show ?thesis by simp
qed

section \<open>Splitting and joining\<close>

text \<open>\<open>s.split(sep)\<close> and \<open>sep.join(parts)\<close> for a separator of one character.\<close>

fun split_on :: "'a \<Rightarrow> 'a list \<Rightarrow> 'a list list" where
  "split_on sep [] = [[]]"
| "split_on sep (c # cs) =
     (if c = sep then [] # split_on sep cs
      else case split_on sep cs of
        [] \<Rightarrow> [[c]]
      | part # parts \<Rightarrow> (c # part) # parts)"

fun join_on :: "'a \<Rightarrow> 'a list list \<Rightarrow> 'a list" where
  "join_on sep [] = []"
| "join_on sep [p] = p"
| "join_on sep (p # ps) = p @ sep # join_on sep ps"

lemma split_on_not_Nil [simp]: "split_on sep s \<noteq> []"
  by (induction s) (auto split: list.splits)

lemma join_split_on [simp]: "join_on sep (split_on sep s) = s"
proof (induction s)
  case (Cons c s)
  obtain p ps where "split_on sep s = p # ps" by (cases "split_on sep s") auto
  with Cons show ?case by (cases ps) auto
qed simp

lemma split_on_single: "sep \<notin> set p \<Longrightarrow> split_on sep p = [p]"
  by (induction p) auto

lemma split_on_append: "sep \<notin> set p \<Longrightarrow> split_on sep (p @ sep # r) = p # split_on sep r"
  by (induction p) auto

lemma split_join_on:
  "ps \<noteq> [] \<Longrightarrow> \<forall>p \<in> set ps. sep \<notin> set p \<Longrightarrow> split_on sep (join_on sep ps) = ps"
  by (induction sep ps rule: join_on.induct) (simp_all add: split_on_single split_on_append)

lemma set_split_on: "(\<Union>p \<in> set (split_on sep s). set p) = set s - {sep}"
proof (induction s)
  case (Cons c s)
  obtain p ps where "split_on sep s = p # ps" by (cases "split_on sep s") auto
  with Cons show ?case by auto
qed simp

lemma set_join_on: "set (join_on sep ps) \<subseteq> insert sep (\<Union>p \<in> set ps. set p)"
  by (induction sep ps rule: join_on.induct) auto

lemma join_on_eq_Nil: "join_on sep ps = [] \<longleftrightarrow> ps = [] \<or> ps = [[]]"
  by (cases "(sep, ps)" rule: join_on.cases) auto

section \<open>Lists\<close>

lemma enumerate_append:
  "List.enumerate n (xs @ ys) = List.enumerate n xs @ List.enumerate (n + length xs) ys"
  by (induction xs arbitrary: n) auto

lemma in_set_enumerate0:
  "(i, x) \<in> set (List.enumerate 0 xs) \<longleftrightarrow> i < length xs \<and> x = xs ! i"
  by (auto simp: in_set_enumerate_eq)

lemma list_all2_set2: "list_all2 P xs ys \<Longrightarrow> y \<in> set ys \<Longrightarrow> \<exists>x \<in> set xs. P x y"
  by (induction rule: list_all2_induct) auto

lemma list_all2_set1: "list_all2 P xs ys \<Longrightarrow> x \<in> set xs \<Longrightarrow> \<exists>y \<in> set ys. P x y"
  by (induction rule: list_all2_induct) auto

end
