(* ===== verification/Rtp.thy ===== *)
theory Rtp
  imports Prelude
begin

unbundle bit_operations_syntax

text \<open>
  \<^verbatim>\<open>src/sds200/rtp.py\<close>: the RTP datagram parser and the two continuity trackers of the
  audio path. A datagram is a list of bytes, the integers read from it are Python ints.
  The parser is the sequence of the source's stages (fixed header, CSRC list, extension,
  padding), each with the source's checks in its order.
\<close>

section \<open>RTP packets\<close>

datatype rtp_error =
    RtpTooShort nat
  | RtpUnsupportedVersion int
  | RtpUnsupportedPayloadType int int
  | RtpTruncatedCsrc
  | RtpTruncatedExtensionHeader
  | RtpTruncatedExtensionData
  | RtpZeroPadding
  | RtpPaddingTooLong
  | RtpInvalidBoundary

record rtp_packet =
  rtp_marker :: bool
  rtp_payload_type :: int
  rtp_sequence :: int
  rtp_timestamp :: int
  rtp_ssrc :: int
  rtp_csrc :: "int list"
  rtp_extension_profile :: "int option"
  rtp_extension_data :: "byte list option"
  rtp_payload :: "byte list"
  rtp_padding_size :: int

text \<open>The CSRC list: its values and the offset after it.\<close>

definition rtp_parse_csrc :: "byte list \<Rightarrow> nat \<Rightarrow> nat \<Rightarrow> rtp_error + int list \<times> nat" where
  "rtp_parse_csrc data offset csrc_count =
     (let csrc_size = csrc_count * 4 in
      raise_if (length data < offset + csrc_size) RtpTruncatedCsrc
        (Inr (map (\<lambda>k. from_bytes_be (py_slice data (offset + 4 * k) (offset + 4 * k + 4)))
                [0..<csrc_count],
              offset + csrc_size)))"

definition rtp_parse_extension ::
  "byte list \<Rightarrow> nat \<Rightarrow> bool \<Rightarrow> rtp_error + int option \<times> byte list option \<times> nat" where
  "rtp_parse_extension data offset has_extension =
     (if \<not> has_extension then Inr (None, None, offset)
      else raise_if (length data < offset + 4) RtpTruncatedExtensionHeader
        (let profile = from_bytes_be (py_slice data offset (offset + 2));
             extension_words = from_bytes_be (py_slice data (offset + 2) (offset + 4));
             offset' = offset + 4;
             extension_size = nat extension_words * 4
         in raise_if (length data < offset' + extension_size) RtpTruncatedExtensionData
              (Inr (Some profile, Some (py_slice data offset' (offset' + extension_size)),
                    offset' + extension_size))))"

text \<open>The padding length and the end of the payload.\<close>

definition rtp_parse_padding :: "byte list \<Rightarrow> nat \<Rightarrow> bool \<Rightarrow> rtp_error + int \<times> int" where
  "rtp_parse_padding data offset has_padding =
     (let payload_end = int (length data) in
      if \<not> has_padding then Inr (0, payload_end)
      else
        let padding_size = uint (last data) in
        raise_if (padding_size = 0) RtpZeroPadding
          (raise_if (padding_size > int (length data) - int offset) RtpPaddingTooLong
            (Inr (padding_size, payload_end - padding_size))))"

definition rtp_parse :: "byte list \<Rightarrow> int option \<Rightarrow> rtp_error + rtp_packet" where
  "rtp_parse data expected_payload_type =
     raise_if (length data < 12) (RtpTooShort (length data))
       (let first = data ! 0;
            second = data ! 1;
            version = uint (drop_bit 6 first)
        in raise_if (version \<noteq> 2) (RtpUnsupportedVersion version)
         (let has_padding = first AND 0x20 \<noteq> 0;
              has_extension = first AND 0x10 \<noteq> 0;
              csrc_count = unat (first AND 0x0F);
              marker = second AND 0x80 \<noteq> 0;
              payload_type = uint (second AND 0x7F)
          in raise_if
               (case expected_payload_type of None \<Rightarrow> False | Some e \<Rightarrow> payload_type \<noteq> e)
               (RtpUnsupportedPayloadType payload_type (the expected_payload_type))
            (bind_res (rtp_parse_csrc data 12 csrc_count) (\<lambda>(csrc, offset1).
             bind_res (rtp_parse_extension data offset1 has_extension)
               (\<lambda>(extension_profile, extension_data, offset2).
             bind_res (rtp_parse_padding data offset2 has_padding)
               (\<lambda>(padding_size, payload_end).
             raise_if (payload_end < int offset2) RtpInvalidBoundary
               (Inr \<lparr>rtp_marker = marker,
                     rtp_payload_type = payload_type,
                     rtp_sequence = from_bytes_be (py_slice data 2 4),
                     rtp_timestamp = from_bytes_be (py_slice data 4 8),
                     rtp_ssrc = from_bytes_be (py_slice data 8 12),
                     rtp_csrc = csrc,
                     rtp_extension_profile = extension_profile,
                     rtp_extension_data = extension_data,
                     rtp_payload = py_slice data offset2 (nat payload_end),
                     rtp_padding_size = padding_size\<rparr>)))))))"

subsection \<open>The packet layout of RFC 3550, as the specification of the parser\<close>

definition rtp_first_byte :: "bool \<Rightarrow> bool \<Rightarrow> nat \<Rightarrow> byte" where
  "rtp_first_byte padding extension cc =
     word_of_nat (128 + (if padding then 32 else 0) + (if extension then 16 else 0) + cc)"

definition rtp_second_byte :: "bool \<Rightarrow> int \<Rightarrow> byte" where
  "rtp_second_byte marker pt = word_of_int ((if marker then 128 else 0) + pt)"

definition rtp_wf :: "rtp_packet \<Rightarrow> bool" where
  "rtp_wf p \<longleftrightarrow>
     0 \<le> rtp_payload_type p \<and> rtp_payload_type p < 128 \<and>
     0 \<le> rtp_sequence p \<and> rtp_sequence p < 2 ^ 16 \<and>
     0 \<le> rtp_timestamp p \<and> rtp_timestamp p < 2 ^ 32 \<and>
     0 \<le> rtp_ssrc p \<and> rtp_ssrc p < 2 ^ 32 \<and>
     length (rtp_csrc p) < 16 \<and> (\<forall>c \<in> set (rtp_csrc p). 0 \<le> c \<and> c < 2 ^ 32) \<and>
     (case (rtp_extension_profile p, rtp_extension_data p) of
        (None, None) \<Rightarrow> True
      | (Some pr, Some d) \<Rightarrow>
          0 \<le> pr \<and> pr < 2 ^ 16 \<and> 4 dvd length d \<and> length d div 4 < 2 ^ 16
      | _ \<Rightarrow> False) \<and>
     0 \<le> rtp_padding_size p \<and> rtp_padding_size p < 256"

definition rtp_build_extension :: "rtp_packet \<Rightarrow> byte list" where
  "rtp_build_extension p =
     (case (rtp_extension_profile p, rtp_extension_data p) of
        (Some pr, Some d) \<Rightarrow> to_bytes_be 2 pr @ to_bytes_be 2 (int (length d div 4)) @ d
      | _ \<Rightarrow> [])"

text \<open>\<open>fill\<close> is the content of the padding before its last byte, which RTP leaves open.\<close>

definition rtp_build :: "rtp_packet \<Rightarrow> byte list \<Rightarrow> byte list" where
  "rtp_build p fill =
     [rtp_first_byte (rtp_padding_size p \<noteq> 0) (rtp_extension_profile p \<noteq> None)
        (length (rtp_csrc p)),
      rtp_second_byte (rtp_marker p) (rtp_payload_type p)] @
     to_bytes_be 2 (rtp_sequence p) @ to_bytes_be 4 (rtp_timestamp p) @
     to_bytes_be 4 (rtp_ssrc p) @ concat (map (to_bytes_be 4) (rtp_csrc p)) @
     rtp_build_extension p @ rtp_payload p @
     (if rtp_padding_size p = 0 then [] else fill @ [word_of_int (rtp_padding_size p)])"

definition rtp_fill_ok :: "rtp_packet \<Rightarrow> byte list \<Rightarrow> bool" where
  "rtp_fill_ok p fill \<longleftrightarrow>
     (if rtp_padding_size p = 0 then fill = [] else int (length fill) = rtp_padding_size p - 1)"

lemma rtp_first_byte_fields:
  assumes "cc < 16"
  shows "drop_bit 6 (rtp_first_byte b e cc) = 2"
    and "rtp_first_byte b e cc AND 0x20 \<noteq> 0 \<longleftrightarrow> b"
    and "rtp_first_byte b e cc AND 0x10 \<noteq> 0 \<longleftrightarrow> e"
    and "unat (rtp_first_byte b e cc AND 0x0F) = cc"
proof -
  have "list_all (\<lambda>cc. list_all (\<lambda>b. list_all (\<lambda>e.
      drop_bit 6 (rtp_first_byte b e cc) = 2 \<and>
      (rtp_first_byte b e cc AND 0x20 \<noteq> 0 \<longleftrightarrow> b) \<and>
      (rtp_first_byte b e cc AND 0x10 \<noteq> 0 \<longleftrightarrow> e) \<and>
      unat (rtp_first_byte b e cc AND 0x0F) = cc) [True, False]) [True, False]) [0..<16]"
    by code_simp
  with assms show "drop_bit 6 (rtp_first_byte b e cc) = 2"
    "rtp_first_byte b e cc AND 0x20 \<noteq> 0 \<longleftrightarrow> b"
    "rtp_first_byte b e cc AND 0x10 \<noteq> 0 \<longleftrightarrow> e"
    "unat (rtp_first_byte b e cc AND 0x0F) = cc"
    by (cases b; cases e; simp only: list_all_iff; fastforce)+
qed

lemma rtp_first_byte_split:
  fixes w :: byte
  shows "drop_bit 6 w = 2 \<Longrightarrow>
    w = rtp_first_byte (w AND 0x20 \<noteq> 0) (w AND 0x10 \<noteq> 0) (unat (w AND 0x0F))"
  by (rule byte_cases_all [where P = "\<lambda>w. drop_bit 6 w = 2 \<longrightarrow>
    w = rtp_first_byte (w AND 0x20 \<noteq> 0) (w AND 0x10 \<noteq> 0) (unat (w AND 0x0F))", THEN mp])
    code_simp

lemma rtp_second_byte_split:
  "w = rtp_second_byte (w AND 0x80 \<noteq> 0) (uint (w AND 0x7F))"
  by (rule byte_cases_all) code_simp

lemma rtp_second_byte_fields:
  assumes "0 \<le> pt" and "pt < 128"
  shows "rtp_second_byte m pt AND 0x80 \<noteq> 0 \<longleftrightarrow> m"
    and "uint (rtp_second_byte m pt AND 0x7F) = pt"
proof -
  have "list_all (\<lambda>n. list_all (\<lambda>m. (rtp_second_byte m n AND 0x80 \<noteq> 0 \<longleftrightarrow> m) \<and>
      uint (rtp_second_byte m n AND 0x7F) = n) [True, False]) [0..127]"
    by code_simp
  moreover have "pt \<in> set [0..127]" using assms by auto
  ultimately have "(rtp_second_byte m pt AND 0x80 \<noteq> 0 \<longleftrightarrow> m) \<and>
      uint (rtp_second_byte m pt AND 0x7F) = pt" for m
    by (cases m) (auto simp only: list_all_iff, force+)
  then show "rtp_second_byte m pt AND 0x80 \<noteq> 0 \<longleftrightarrow> m"
    "uint (rtp_second_byte m pt AND 0x7F) = pt" by blast+
qed

lemma byte_low_bits:
  fixes w :: byte
  shows "unat (w AND 0x0F) < 16" and "0 \<le> uint (w AND 0x7F)" and "uint (w AND 0x7F) < 128"
proof -
  show "unat (w AND 0x0F) < 16" by (rule byte_cases_all) code_simp
  show "0 \<le> uint (w AND 0x7F)" by simp
  show "uint (w AND 0x7F) < 128" by (rule byte_cases_all) code_simp
qed


subsection \<open>The stages against the layout\<close>

lemma length_concat_words [simp]: "length (concat (map (to_bytes_be n) cs)) = n * length cs"
  by (induction cs) auto

lemma slice_concat_words:
  "k < length cs \<Longrightarrow>
   py_slice (concat (map (to_bytes_be 4) cs) @ rest) (4 * k) (4 * k + 4) = to_bytes_be 4 (cs ! k)"
proof (induction cs arbitrary: k)
  case Nil
  then show ?case by simp
next
  case (Cons c cs)
  then show ?case
    by (cases k) (simp_all add: py_slice_def)
qed

lemma concat_slices:
  "off + 4 * n \<le> length data \<Longrightarrow>
   concat (map (\<lambda>k. py_slice data (off + 4 * k) (off + 4 * k + 4)) [0..<n]) =
   py_slice data off (off + 4 * n)"
proof (induction n)
  case 0
  then show ?case by (simp add: py_slice_def)
next
  case (Suc n)
  then show ?case
    using py_slice_split [of off "off + 4 * n" "off + 4 * n + 4" data] by (simp add: add.commute add.left_commute)
qed

lemma rtp_parse_csrc_build:
  assumes "\<forall>c \<in> set cs. 0 \<le> c \<and> c < 2 ^ 32" and "length h = off"
  shows "rtp_parse_csrc (h @ concat (map (to_bytes_be 4) cs) @ rest) off (length cs) =
    Inr (cs, off + length cs * 4)"
proof -
  have "from_bytes_be (py_slice (h @ concat (map (to_bytes_be 4) cs) @ rest) (off + 4 * k) (off + 4 * k + 4))
      = cs ! k" if "k < length cs" for k
    using assms that slice_concat_words [OF that, of rest] nth_mem [OF that]
    by (simp add: py_slice_append_right from_to_bytes_be)
  then have "map (\<lambda>k. from_bytes_be (py_slice (h @ concat (map (to_bytes_be 4) cs) @ rest)
      (off + 4 * k) (off + 4 * k + 4))) [0..<length cs] = cs"
    by (intro nth_equalityI) simp_all
  then show ?thesis
    using assms(2) by (simp add: rtp_parse_csrc_def Let_def)
qed

lemma rtp_parse_csrc_Inr:
  assumes "rtp_parse_csrc data off n = Inr (cs, off')"
  shows "off' = off + 4 * n" and "off' \<le> length data" and "length cs = n"
    and "concat (map (to_bytes_be 4) cs) = py_slice data off off'"
    and "\<forall>c \<in> set cs. 0 \<le> c \<and> c < 2 ^ 32"
proof -
  from assms have cs: "cs = map (\<lambda>k. from_bytes_be (py_slice data (off + 4 * k) (off + 4 * k + 4))) [0..<n]"
    and off: "off' = off + 4 * n" and len: "off + 4 * n \<le> length data"
    by (auto simp: rtp_parse_csrc_def Let_def res_simps)
  have slen: "length (py_slice data (off + 4 * k) (off + 4 * k + 4)) = 4" if "k < n" for k
    using that len by simp
  show "off' = off + 4 * n" "off' \<le> length data" "length cs = n"
    using off len cs by simp_all
  have "map (to_bytes_be 4) cs = map (\<lambda>k. py_slice data (off + 4 * k) (off + 4 * k + 4)) [0..<n]"
    using slen by (simp add: cs to_from_bytes_be)
  then show "concat (map (to_bytes_be 4) cs) = py_slice data off off'"
    using concat_slices [OF len] off by simp
  show "\<forall>c \<in> set cs. 0 \<le> c \<and> c < 2 ^ 32"
  proof
    fix c assume "c \<in> set cs"
    then obtain k where "k < n"
      and "c = from_bytes_be (py_slice data (off + 4 * k) (off + 4 * k + 4))"
      by (auto simp: cs)
    then show "0 \<le> c \<and> c < 2 ^ 32"
      using from_bytes_be_bounds [of "py_slice data (off + 4 * k) (off + 4 * k + 4)"] slen [of k]
      by simp
  qed
qed

definition rtp_extension_wf :: "int option \<Rightarrow> byte list option \<Rightarrow> bool" where
  "rtp_extension_wf profile content \<longleftrightarrow>
     (case (profile, content) of
        (None, None) \<Rightarrow> True
      | (Some pr, Some d) \<Rightarrow>
          0 \<le> pr \<and> pr < 2 ^ 16 \<and> 4 dvd length d \<and> length d div 4 < 2 ^ 16
      | _ \<Rightarrow> False)"

lemma rtp_parse_extension_build:
  assumes "rtp_extension_wf (rtp_extension_profile p) (rtp_extension_data p)" and "length h = off"
  shows "rtp_parse_extension (h @ rtp_build_extension p @ rest) off (rtp_extension_profile p \<noteq> None) =
    Inr (rtp_extension_profile p, rtp_extension_data p, off + length (rtp_build_extension p))"
proof (cases "rtp_extension_profile p")
  case None
  with assms show ?thesis
    by (auto simp: rtp_parse_extension_def rtp_build_extension_def rtp_extension_wf_def
        split: option.splits)
next
  case (Some pr)
  with assms(1) obtain d where d: "rtp_extension_data p = Some d"
    and pr: "0 \<le> pr" "pr < 2 ^ 16" and dvd: "4 dvd length d" and dl: "length d div 4 < 2 ^ 16"
    by (auto simp: rtp_extension_wf_def split: option.splits)
  have e: "rtp_build_extension p = to_bytes_be 2 pr @ to_bytes_be 2 (int (length d div 4)) @ d"
    using Some d by (simp add: rtp_build_extension_def)
  let ?data = "h @ rtp_build_extension p @ rest"
  have "py_slice ?data off (off + 2) = to_bytes_be 2 pr"
    using assms(2) by (simp add: e py_slice_append_right) (simp add: py_slice_def)
  then have 1: "from_bytes_be (py_slice ?data off (off + 2)) = pr"
    using pr by (simp add: from_to_bytes_be)
  have "py_slice ?data (off + 2) (off + 4) = to_bytes_be 2 (int (length d div 4))"
    using assms(2) by (simp add: e py_slice_append_right) (simp add: py_slice_def)
  then have 2: "from_bytes_be (py_slice ?data (off + 2) (off + 4)) = int (length d div 4)"
    using dl by (simp add: from_to_bytes_be)
  have 3: "nat (int (length d div 4)) * 4 = length d" using dvd by simp
  have "py_slice ?data (off + 4) (off + 4 + length d) = d"
    using assms(2) by (simp add: e py_slice_append_right) (simp add: py_slice_def)
  with 1 2 3 show ?thesis
    using assms(2) Some d by (simp add: rtp_parse_extension_def Let_def e)
qed

lemma rtp_parse_extension_Inr:
  assumes "rtp_parse_extension data off has_ext = Inr (pr, d, off')" and "off \<le> length data"
  shows "off \<le> off'" and "off' \<le> length data" and "has_ext \<longleftrightarrow> pr \<noteq> None"
    and "rtp_extension_wf pr d"
    and "(case (pr, d) of (Some pr, Some d) \<Rightarrow>
            to_bytes_be 2 pr @ to_bytes_be 2 (int (length d div 4)) @ d | _ \<Rightarrow> []) =
         py_slice data off off'"
proof -
  have "off \<le> off' \<and> off' \<le> length data \<and> (has_ext \<longleftrightarrow> pr \<noteq> None) \<and> rtp_extension_wf pr d \<and>
    (case (pr, d) of (Some pr, Some d) \<Rightarrow>
        to_bytes_be 2 pr @ to_bytes_be 2 (int (length d div 4)) @ d | _ \<Rightarrow> []) = py_slice data off off'"
  proof (cases has_ext)
    case False
    with assms show ?thesis
      by (auto simp: rtp_parse_extension_def rtp_extension_wf_def py_slice_def)
  next
    case True
    let ?words = "from_bytes_be (py_slice data (off + 2) (off + 4))"
    from True assms(1) have l4: "off + 4 \<le> length data"
      and pr: "pr = Some (from_bytes_be (py_slice data off (off + 2)))"
      and d: "d = Some (py_slice data (off + 4) off')"
      and off': "off' = off + 4 + nat ?words * 4" and len: "off' \<le> length data"
      by (auto simp: rtp_parse_extension_def Let_def res_simps)
    define P W D where "P = py_slice data off (off + 2)"
      and "W = py_slice data (off + 2) (off + 4)" and "D = py_slice data (off + 4) off'"
    have lens: "length P = 2" "length W = 2" using l4 by (simp_all add: P_def W_def)
    have w: "0 \<le> from_bytes_be W" "from_bytes_be W < 65536"
      and p: "0 \<le> from_bytes_be P" "from_bytes_be P < 65536"
      using from_bytes_be_bounds [of W] from_bytes_be_bounds [of P] lens by simp_all
    have dlen: "length D = nat (from_bytes_be W) * 4"
      using off' len by (simp add: D_def W_def)
    have bytes: "to_bytes_be 2 (from_bytes_be W) = W" "to_bytes_be 2 (from_bytes_be P) = P"
      using lens by (simp_all only: to_from_bytes_be)
    have "P @ W @ D = py_slice data off off'"
      using off' py_slice_split [of off "off + 2" "off + 4" data]
        py_slice_split [of off "off + 4" off' data]
      by (simp add: P_def W_def D_def) (metis append.assoc)
    moreover have pd: "pr = Some (from_bytes_be P)" "d = Some D"
      by (simp_all add: pr d P_def D_def)
    moreover have "rtp_extension_wf pr d"
      using w p dlen by (simp add: pd rtp_extension_wf_def nat_less_iff)
    ultimately show ?thesis
      using True w dlen bytes off' len by simp
  qed
  then show "off \<le> off'" "off' \<le> length data" "has_ext \<longleftrightarrow> pr \<noteq> None" "rtp_extension_wf pr d"
    "(case (pr, d) of (Some pr, Some d) \<Rightarrow>
        to_bytes_be 2 pr @ to_bytes_be 2 (int (length d div 4)) @ d | _ \<Rightarrow> []) = py_slice data off off'"
    by blast+
qed

lemma rtp_parse_padding_Inr:
  assumes "rtp_parse_padding data off has_pad = Inr (ps, pe)" and "off \<le> length data"
  shows "int off \<le> pe" and "pe = int (length data) - ps" and "0 \<le> ps" and "ps < 256"
    and "has_pad \<longleftrightarrow> ps \<noteq> 0"
    and "ps \<noteq> 0 \<Longrightarrow> last data = word_of_int ps"
  using assms byte_bounds [of "last data"]
  by (auto simp: rtp_parse_padding_def Let_def res_simps split: if_splits)

lemma rtp_parse_padding_build:
  assumes "0 \<le> rtp_padding_size p" "rtp_padding_size p < 256" "rtp_fill_ok p fill"
    and "length h = off"
  shows "rtp_parse_padding (h @ rtp_payload p @
      (if rtp_padding_size p = 0 then [] else fill @ [word_of_int (rtp_padding_size p)])) off
      (rtp_padding_size p \<noteq> 0) =
    Inr (rtp_padding_size p, int off + int (length (rtp_payload p)))"
proof (cases "rtp_padding_size p = 0")
  case True
  with assms(4) show ?thesis by (simp add: rtp_parse_padding_def)
next
  case False
  with assms(1,2) have "uint (word_of_int (rtp_padding_size p) :: byte) = rtp_padding_size p"
    by (simp add: uint_word_of_int)
  with False assms show ?thesis
    by (simp add: rtp_parse_padding_def rtp_fill_ok_def Let_def)
qed

text \<open>
  The boundary check after the padding stage can never fail: the padding stage has already
  bounded the padding by what is left of the datagram.
\<close>

lemma rtp_parse_Inr_iff:
  "rtp_parse data e = Inr p \<longleftrightarrow>
     12 \<le> length data \<and> drop_bit 6 (data ! 0) = 2 \<and>
     (case e of None \<Rightarrow> True | Some e \<Rightarrow> uint (data ! 1 AND 0x7F) = e) \<and>
     (\<exists>off1 off2 pe.
        rtp_parse_csrc data 12 (unat (data ! 0 AND 0x0F)) = Inr (rtp_csrc p, off1) \<and>
        rtp_parse_extension data off1 (data ! 0 AND 0x10 \<noteq> 0) =
          Inr (rtp_extension_profile p, rtp_extension_data p, off2) \<and>
        rtp_parse_padding data off2 (data ! 0 AND 0x20 \<noteq> 0) = Inr (rtp_padding_size p, pe) \<and>
        int off2 \<le> pe \<and> rtp_payload p = py_slice data off2 (nat pe)) \<and>
     rtp_marker p = (data ! 1 AND 0x80 \<noteq> 0) \<and>
     rtp_payload_type p = uint (data ! 1 AND 0x7F) \<and>
     rtp_sequence p = from_bytes_be (py_slice data 2 4) \<and>
     rtp_timestamp p = from_bytes_be (py_slice data 4 8) \<and>
     rtp_ssrc p = from_bytes_be (py_slice data 8 12)"
proof -
  have v: "uint (drop_bit 6 (data ! 0)) = 2 \<longleftrightarrow> drop_bit 6 (data ! 0) = 2"
    by (simp add: word_uint_eq_iff)
  show ?thesis
    by (cases p)
      (auto simp: rtp_parse_def Let_def res_simps v not_less split: option.splits prod.splits)
qed

lemma rtp_wf_alt:
  "rtp_wf p \<longleftrightarrow>
     0 \<le> rtp_payload_type p \<and> rtp_payload_type p < 128 \<and>
     0 \<le> rtp_sequence p \<and> rtp_sequence p < 2 ^ 16 \<and>
     0 \<le> rtp_timestamp p \<and> rtp_timestamp p < 2 ^ 32 \<and>
     0 \<le> rtp_ssrc p \<and> rtp_ssrc p < 2 ^ 32 \<and>
     length (rtp_csrc p) < 16 \<and> (\<forall>c \<in> set (rtp_csrc p). 0 \<le> c \<and> c < 2 ^ 32) \<and>
     rtp_extension_wf (rtp_extension_profile p) (rtp_extension_data p) \<and>
     0 \<le> rtp_padding_size p \<and> rtp_padding_size p < 256"
  by (simp only: rtp_wf_def rtp_extension_wf_def)

lemma rtp_parse_build:
  assumes wf: "rtp_wf p" and fill: "rtp_fill_ok p fill"
    and e: "e = None \<or> e = Some (rtp_payload_type p)"
  shows "rtp_parse (rtp_build p fill) e = Inr p"
proof -
  let ?h = "[rtp_first_byte (rtp_padding_size p \<noteq> 0) (rtp_extension_profile p \<noteq> None)
        (length (rtp_csrc p)), rtp_second_byte (rtp_marker p) (rtp_payload_type p)] @
      to_bytes_be 2 (rtp_sequence p) @ to_bytes_be 4 (rtp_timestamp p) @ to_bytes_be 4 (rtp_ssrc p)"
  let ?cs = "concat (map (to_bytes_be 4) (rtp_csrc p))"
  let ?pad = "if rtp_padding_size p = 0 then [] else fill @ [word_of_int (rtp_padding_size p)]"
  let ?data = "rtp_build p fill"
  note w = wf [unfolded rtp_wf_alt]
  have d: "?data = ?h @ ?cs @ rtp_build_extension p @ rtp_payload p @ ?pad"
    by (simp add: rtp_build_def)
  have h12: "length ?h = 12" by simp
  have b0: "?data ! 0 = rtp_first_byte (rtp_padding_size p \<noteq> 0) (rtp_extension_profile p \<noteq> None)
      (length (rtp_csrc p))"
    and b1: "?data ! 1 = rtp_second_byte (rtp_marker p) (rtp_payload_type p)"
    by (simp_all add: rtp_build_def)
  have f2: "py_slice ?data 2 4 = to_bytes_be 2 (rtp_sequence p)"
    and f4: "py_slice ?data 4 8 = to_bytes_be 4 (rtp_timestamp p)"
    and f8: "py_slice ?data 8 12 = to_bytes_be 4 (rtp_ssrc p)"
    by (simp_all add: rtp_build_def py_slice_def)
  let ?o1 = "12 + length (rtp_csrc p) * 4"
  let ?o2 = "?o1 + length (rtp_build_extension p)"
  let ?pe = "int ?o2 + int (length (rtp_payload p))"
  have c1: "rtp_parse_csrc ?data 12 (length (rtp_csrc p)) = Inr (rtp_csrc p, ?o1)"
    unfolding d using w h12 by (intro rtp_parse_csrc_build) simp_all
  have c2: "rtp_parse_extension ?data ?o1 (rtp_extension_profile p \<noteq> None) =
      Inr (rtp_extension_profile p, rtp_extension_data p, ?o2)"
    using rtp_parse_extension_build [of p "?h @ ?cs" ?o1 "rtp_payload p @ ?pad"] w h12
    unfolding d by simp
  have c3: "rtp_parse_padding ?data ?o2 (rtp_padding_size p \<noteq> 0) = Inr (rtp_padding_size p, ?pe)"
    using rtp_parse_padding_build [OF _ _ fill, of "?h @ ?cs @ rtp_build_extension p" ?o2] w h12
    unfolding d by simp
  have pl: "rtp_payload p = py_slice ?data ?o2 (nat ?pe)"
  proof -
    have "nat ?pe = ?o2 + length (rtp_payload p)" by simp
    moreover have "length (?h @ ?cs @ rtp_build_extension p) = ?o2" using h12 by simp
    ultimately show ?thesis
      using py_slice_append_right [of "?h @ ?cs @ rtp_build_extension p" ?o2 "rtp_payload p @ ?pad" "nat ?pe"]
      unfolding d by (simp add: py_slice_def del: length_append)
  qed
  have "12 \<le> length ?data" unfolding d by simp
  then show ?thesis
    unfolding rtp_parse_Inr_iff b0 b1 f2 f4 f8
    using w e c1 c2 c3 pl
    by (auto simp: rtp_first_byte_fields rtp_second_byte_fields from_to_bytes_be
        intro!: exI [of _ ?o1] exI [of _ ?o2] exI [of _ ?pe])
qed

lemma rtp_parse_is_build:
  assumes "rtp_parse data e = Inr p"
  shows "rtp_wf p" and "\<exists>fill. rtp_fill_ok p fill \<and> data = rtp_build p fill"
proof -
  from assms [unfolded rtp_parse_Inr_iff] obtain off1 off2 pe
    where len: "12 \<le> length data" and ver: "drop_bit 6 (data ! 0) = 2"
      and cs: "rtp_parse_csrc data 12 (unat (data ! 0 AND 0x0F)) = Inr (rtp_csrc p, off1)"
      and ex: "rtp_parse_extension data off1 (data ! 0 AND 0x10 \<noteq> 0) =
          Inr (rtp_extension_profile p, rtp_extension_data p, off2)"
      and pd: "rtp_parse_padding data off2 (data ! 0 AND 0x20 \<noteq> 0) = Inr (rtp_padding_size p, pe)"
      and pe: "int off2 \<le> pe" and pl: "rtp_payload p = py_slice data off2 (nat pe)"
      and f: "rtp_marker p = (data ! 1 AND 0x80 \<noteq> 0)" "rtp_payload_type p = uint (data ! 1 AND 0x7F)"
        "rtp_sequence p = from_bytes_be (py_slice data 2 4)"
        "rtp_timestamp p = from_bytes_be (py_slice data 4 8)"
        "rtp_ssrc p = from_bytes_be (py_slice data 8 12)"
    by blast
  note cs' = rtp_parse_csrc_Inr [OF cs]
  note ex' = rtp_parse_extension_Inr [OF ex cs'(2)]
  note pd' = rtp_parse_padding_Inr [OF pd ex'(2)]
  have sl: "length (py_slice data 2 4) = 2" "length (py_slice data 4 8) = 4"
    "length (py_slice data 8 12) = 4"
    using len by simp_all
  have bounds: "0 \<le> rtp_sequence p" "rtp_sequence p < 2 ^ 16" "0 \<le> rtp_timestamp p"
    "rtp_timestamp p < 2 ^ 32" "0 \<le> rtp_ssrc p" "rtp_ssrc p < 2 ^ 32"
    using from_bytes_be_bounds [of "py_slice data 2 4"] from_bytes_be_bounds [of "py_slice data 4 8"]
      from_bytes_be_bounds [of "py_slice data 8 12"] sl
    by (simp_all add: f)
  show "rtp_wf p"
    unfolding rtp_wf_alt
    using bounds cs' ex'(4) pd'(3,4) byte_low_bits [of "data ! 0"] byte_low_bits [of "data ! 1"]
    by (simp add: f)
  let ?tail = "drop (nat pe) data"
  let ?fill = "butlast ?tail"
  have npe: "int (nat pe) = pe" "nat pe \<le> length data" "off2 \<le> nat pe"
    using pe pd'(2,3) by simp_all
  have tl: "int (length ?tail) = rtp_padding_size p" using npe pd'(2) by simp
  have tail: "?tail = (if rtp_padding_size p = 0 then [] else ?fill @ [word_of_int (rtp_padding_size p)])"
  proof (cases "rtp_padding_size p = 0")
    case True
    then show ?thesis using tl by simp
  next
    case False
    then have "?tail \<noteq> []" using tl by auto
    moreover then have "last ?tail = last data" by (simp add: last_drop)
    ultimately show ?thesis using pd'(6) [OF False] False
      by (metis append_butlast_last_id)
  qed
  have fok: "rtp_fill_ok p ?fill"
    using tl by (auto simp: rtp_fill_ok_def)
  have head: "[data ! 0, data ! 1] = py_slice data 0 2"
  proof -
    obtain a b r where "data = a # b # r"
      using len by (cases data; cases "tl data") auto
    then show ?thesis by (simp add: py_slice_def)
  qed
  have d12: "[data ! 0, data ! 1] @ to_bytes_be 2 (rtp_sequence p) @ to_bytes_be 4 (rtp_timestamp p) @
      to_bytes_be 4 (rtp_ssrc p) = py_slice data 0 12"
  proof -
    have "[data ! 0, data ! 1] @ to_bytes_be 2 (rtp_sequence p) @ to_bytes_be 4 (rtp_timestamp p) @
        to_bytes_be 4 (rtp_ssrc p) =
        py_slice data 0 2 @ py_slice data 2 4 @ py_slice data 4 8 @ py_slice data 8 12"
      by (simp only: f to_from_bytes_be [OF sl(1)] to_from_bytes_be [OF sl(2)]
          to_from_bytes_be [OF sl(3)] head)
    then show ?thesis by (simp add: py_slice_split)
  qed
  have b0: "data ! 0 = rtp_first_byte (rtp_padding_size p \<noteq> 0) (rtp_extension_profile p \<noteq> None)
      (length (rtp_csrc p))"
    using rtp_first_byte_split [OF ver] pd'(5) ex'(3) cs'(3) by simp
  have b1: "data ! 1 = rtp_second_byte (rtp_marker p) (rtp_payload_type p)"
    unfolding f by (rule rtp_second_byte_split)
  have "rtp_build p ?fill = py_slice data 0 12 @ py_slice data 12 off1 @ py_slice data off1 off2 @
      py_slice data off2 (nat pe) @ ?tail"
    unfolding rtp_build_def rtp_build_extension_def cs'(4) ex'(5) pl [symmetric] tail [symmetric]
      b0 [symmetric] b1 [symmetric] d12 [symmetric] by (simp only: append_assoc)
  also have "\<dots> = py_slice data 0 (nat pe) @ ?tail"
    using cs'(1) ex'(1) npe(3) by (simp add: py_slice_split append_assoc [symmetric] del: append_assoc)
  also have "\<dots> = data" by (simp add: py_slice_def)
  finally show "\<exists>fill. rtp_fill_ok p fill \<and> data = rtp_build p fill" using fok by metis
qed

section \<open>Properties\<close>

text \<open>
  C4: The parser accepts exactly the RTP version 2 datagrams. A datagram parses to a packet if
  and only if it is the RFC 3550 layout of that packet (fixed header, CSRC list, optional
  extension of whole words, payload, padding that ends in its own length) and the packet's fields
  are within their wire ranges; the bytes of the padding before the last are the only freedom.
  Every other datagram is rejected, and with an expected payload type every other type is.
\<close>

theorem rtp_parse_exact:
  "rtp_parse data e = Inr p \<longleftrightarrow>
     rtp_wf p \<and> (e = None \<or> e = Some (rtp_payload_type p)) \<and>
     (\<exists>fill. rtp_fill_ok p fill \<and> data = rtp_build p fill)"
proof
  assume parsed: "rtp_parse data e = Inr p"
  moreover from parsed have "e = None \<or> e = Some (rtp_payload_type p)"
    by (auto simp: rtp_parse_Inr_iff split: option.splits)
  ultimately show "rtp_wf p \<and> (e = None \<or> e = Some (rtp_payload_type p)) \<and>
      (\<exists>fill. rtp_fill_ok p fill \<and> data = rtp_build p fill)"
    using rtp_parse_is_build by blast
qed (auto intro: rtp_parse_build)

end
