(* ===== verification/Rtp_Trackers.thy ===== *)
theory Rtp_Trackers
  imports Rtp
begin

text \<open>
  \<^verbatim>\<open>src/sds200/rtp.py\<close>: \<open>RtpSequenceTracker\<close> and \<open>RtpTimestampTracker\<close>. A tracker is a
  record; \<open>observe\<close> returns the observation and the new tracker, or the \<open>ValueError\<close>. The deque
  of remembered sequence numbers is a list (oldest first) and the set beside it a set.
\<close>

datatype tracker_error =
    BadHistorySize
  | BadSequence int
  | BadTimestamp int
  | BadSampleCount int

section \<open>The sequence tracker\<close>

record seq_observation =
  so_sequence :: int
  so_expected :: "int option"
  so_missing :: int
  so_duplicate :: bool
  so_out_of_order :: bool

record seq_tracker =
  st_history_size :: int
  st_last :: "int option"
  st_recent :: "int list"
  st_seen :: "int set"

definition seq_init :: "int \<Rightarrow> tracker_error + seq_tracker" where
  "seq_init history_size =
     raise_if (history_size \<le> 0) BadHistorySize
       (Inr \<lparr>st_history_size = history_size, st_last = None, st_recent = [], st_seen = {}\<rparr>)"

definition seq_reset :: "seq_tracker \<Rightarrow> seq_tracker" where
  "seq_reset t = t\<lparr>st_last := None, st_recent := [], st_seen := {}\<rparr>"

text \<open>The loop that expires the oldest numbers.\<close>

fun seq_expire :: "int \<Rightarrow> int list \<Rightarrow> int set \<Rightarrow> int list \<times> int set" where
  "seq_expire h [] seen = ([], seen)"
| "seq_expire h (x # xs) seen =
     (if int (length (x # xs)) > h then seq_expire h xs (seen - {x}) else (x # xs, seen))"

definition seq_remember :: "int \<Rightarrow> seq_tracker \<Rightarrow> seq_tracker" where
  "seq_remember s t =
     (if s \<in> st_seen t then t
      else let (recent, seen) =
             seq_expire (st_history_size t) (st_recent t @ [s]) (insert s (st_seen t))
           in t\<lparr>st_recent := recent, st_seen := seen\<rparr>)"

definition seq_observe ::
  "int \<Rightarrow> seq_tracker \<Rightarrow> tracker_error + seq_observation \<times> seq_tracker" where
  "seq_observe s t =
     raise_if (\<not> (0 \<le> s \<and> s < 65536)) (BadSequence s)
       (case st_last t of
          None \<Rightarrow>
            Inr (\<lparr>so_sequence = s, so_expected = None, so_missing = 0,
                  so_duplicate = False, so_out_of_order = False\<rparr>,
                 seq_remember s (t\<lparr>st_last := Some s\<rparr>))
        | Some previous \<Rightarrow>
            (let expected = (previous + 1) AND 0xFFFF in
             if s \<in> st_seen t then
               Inr (\<lparr>so_sequence = s, so_expected = Some expected, so_missing = 0,
                     so_duplicate = True, so_out_of_order = False\<rparr>, t)
             else if s = expected then
               Inr (\<lparr>so_sequence = s, so_expected = Some expected, so_missing = 0,
                     so_duplicate = False, so_out_of_order = False\<rparr>,
                    seq_remember s (t\<lparr>st_last := Some s\<rparr>))
             else
               (let forward_distance = (s - expected) AND 0xFFFF in
                if forward_distance < 0x8000 then
                  Inr (\<lparr>so_sequence = s, so_expected = Some expected,
                        so_missing = forward_distance,
                        so_duplicate = False, so_out_of_order = False\<rparr>,
                       seq_remember s (t\<lparr>st_last := Some s\<rparr>))
                else
                  Inr (\<lparr>so_sequence = s, so_expected = Some expected, so_missing = 0,
                        so_duplicate = False, so_out_of_order = True\<rparr>,
                       seq_remember s t))))"

text \<open>Observing a whole stream, one packet after the other.\<close>

fun seq_observe_all ::
  "int list \<Rightarrow> seq_tracker \<Rightarrow> tracker_error + seq_observation list \<times> seq_tracker" where
  "seq_observe_all [] t = Inr ([], t)"
| "seq_observe_all (s # ss) t =
     bind_res (seq_observe s t) (\<lambda>(ob, t').
     bind_res (seq_observe_all ss t') (\<lambda>(obs, t''). Inr (ob # obs, t'')))"

lemma and_mask_mod [simp]:
  "(x::int) AND 65535 = x mod 65536" "(x::int) AND 4294967295 = x mod 4294967296"
proof -
  have "x AND mask 16 = x mod 2 ^ 16" "x AND mask 32 = x mod 2 ^ 32"
    by (simp_all only: take_bit_eq_mask [symmetric] take_bit_eq_mod)
  then show "x AND 65535 = x mod 65536" "x AND 4294967295 = x mod 4294967296"
    by (simp_all add: mask_eq_exp_minus_1)
qed

subsection \<open>The tracker's invariant\<close>

definition seq_inv :: "seq_tracker \<Rightarrow> bool" where
  "seq_inv t \<longleftrightarrow>
     0 < st_history_size t \<and> distinct (st_recent t) \<and> st_seen t = set (st_recent t) \<and>
     int (length (st_recent t)) \<le> st_history_size t \<and>
     (\<forall>s \<in> set (st_recent t). 0 \<le> s \<and> s < 65536) \<and>
     (case st_last t of None \<Rightarrow> st_recent t = [] | Some l \<Rightarrow> 0 \<le> l \<and> l < 65536)"

lemma seq_expire_drop:
  "distinct xs \<Longrightarrow> 0 \<le> h \<Longrightarrow>
   seq_expire h xs (set xs) = (drop (length xs - nat h) xs, set (drop (length xs - nat h) xs))"
proof (induction xs)
  case Nil
  then show ?case by simp
next
  case (Cons x xs)
  show ?case
  proof (cases "int (length (x # xs)) > h")
    case True
    then have "length (x # xs) - nat h = Suc (length xs - nat h)"
      using Cons.prems(2) by simp
    moreover have "set (x # xs) - {x} = set xs" using Cons.prems(1) by auto
    ultimately show ?thesis using Cons True by simp
  next
    case False
    then show ?thesis by simp
  qed
qed

definition last_n :: "nat \<Rightarrow> 'a list \<Rightarrow> 'a list" where
  "last_n n xs = drop (length xs - n) xs"

lemma length_last_n [simp]: "length (last_n n xs) = min n (length xs)"
  by (simp add: last_n_def)

lemma set_last_n: "set (last_n n xs) \<subseteq> set xs"
  by (simp add: last_n_def set_drop_subset)

lemma seq_remember_recent:
  assumes "distinct (st_recent t)" and "st_seen t = set (st_recent t)" and "0 \<le> st_history_size t"
    and "s \<notin> set (st_recent t)"
  shows "seq_remember s t =
    t\<lparr>st_recent := last_n (nat (st_history_size t)) (st_recent t @ [s]),
      st_seen := set (last_n (nat (st_history_size t)) (st_recent t @ [s]))\<rparr>"
proof -
  have "seq_expire (st_history_size t) (st_recent t @ [s]) (insert s (st_seen t)) =
      (last_n (nat (st_history_size t)) (st_recent t @ [s]),
       set (last_n (nat (st_history_size t)) (st_recent t @ [s])))"
    using assms seq_expire_drop [of "st_recent t @ [s]" "st_history_size t"]
    by (simp add: last_n_def)
  with assms show ?thesis by (simp add: seq_remember_def)
qed

lemma seq_init_inv: "seq_init h = Inr t \<Longrightarrow> seq_inv t"
  by (auto simp: seq_init_def seq_inv_def res_simps)

lemma seq_remember_inv:
  assumes "seq_inv t" and "0 \<le> s" and "s < 65536" and "st_last t \<noteq> None"
  shows "seq_inv (seq_remember s t)"
proof (cases "s \<in> st_seen t")
  case True
  with assms show ?thesis by (simp add: seq_remember_def)
next
  case False
  let ?xs = "last_n (nat (st_history_size t)) (st_recent t @ [s])"
  have "distinct (st_recent t @ [s])" using assms False by (simp add: seq_inv_def)
  then have d: "distinct ?xs" by (simp only: last_n_def distinct_drop)
  have "\<forall>x \<in> set ?xs. 0 \<le> x \<and> x < 65536"
    using assms set_last_n [of "nat (st_history_size t)" "st_recent t @ [s]"]
    by (fastforce simp: seq_inv_def)
  with d assms False show ?thesis
    by (auto simp: seq_remember_recent seq_inv_def split: option.splits)
qed

lemma seq_observe_inv:
  assumes "seq_inv t" and "seq_observe s t = Inr (ob, t')"
  shows "seq_inv t'" and "0 \<le> s" and "s < 65536"
proof -
  show s: "0 \<le> s" "s < 65536"
    using assms(2) by (auto simp: seq_observe_def res_simps)
  have upd: "seq_inv (seq_remember s (t\<lparr>st_last := Some s\<rparr>))"
  proof (cases "st_last t")
    case None
    with assms(1) s have "seq_inv (t\<lparr>st_last := Some s\<rparr>)" by (simp add: seq_inv_def)
    then show ?thesis using s by (intro seq_remember_inv) simp_all
  next
    case (Some l)
    with assms(1) s have "seq_inv (t\<lparr>st_last := Some s\<rparr>)" by (simp add: seq_inv_def)
    then show ?thesis using s by (intro seq_remember_inv) simp_all
  qed
  show "seq_inv t'"
    using assms upd s
    by (auto simp: seq_observe_def Let_def res_simps intro!: seq_remember_inv
        split: option.splits if_splits)
qed

lemma seq_observe_all_inv:
  "seq_inv t \<Longrightarrow> seq_observe_all ss t = Inr (obs, t') \<Longrightarrow> seq_inv t'"
  by (induction ss arbitrary: t obs) (auto simp: res_simps dest: seq_observe_inv(1))


subsection \<open>A stream without loss\<close>

definition seq_stream :: "int \<Rightarrow> nat \<Rightarrow> int list" where
  "seq_stream s0 n = map (\<lambda>i. (s0 + int i) mod 65536) [0..<n]"

definition so_clean :: "seq_observation \<Rightarrow> bool" where
  "so_clean ob \<longleftrightarrow> so_missing ob = 0 \<and> \<not> so_duplicate ob \<and> \<not> so_out_of_order ob"

lemma seq_observe_all_append:
  "seq_observe_all (xs @ ys) t =
     bind_res (seq_observe_all xs t) (\<lambda>(obs, t').
     bind_res (seq_observe_all ys t') (\<lambda>(obs', t''). Inr (obs @ obs', t'')))"
proof (induction xs arbitrary: t)
  case Nil
  then show ?case by (cases "seq_observe_all ys t") auto
next
  case (Cons x xs)
  then show ?case
    by (cases "seq_observe x t") (auto simp: bind_res_def split: sum.splits prod.splits)
qed

lemma mod_window_distinct:
  assumes "i < j" and "j < i + 65536"
  shows "(s0 + int i) mod 65536 \<noteq> (s0 + int j) mod (65536 :: int)"
proof
  assume "(s0 + int i) mod 65536 = (s0 + int j) mod 65536"
  then have "(65536 :: int) dvd int j - int i" by (simp add: mod_eq_dvd_iff dvd_diff_commute)
  moreover have "0 < int j - int i" "int j - int i < 65536" using assms by simp_all
  ultimately show False using zdvd_not_zless by blast
qed

lemma last_n_snoc_last_n:
  "last_n h (last_n h xs @ [x]) = last_n h (xs @ [x])"
proof (cases "length xs \<le> h")
  case True
  then show ?thesis by (simp add: last_n_def)
next
  case False
  then show ?thesis by (cases h) (auto simp: last_n_def Suc_diff_le Suc_diff_Suc)
qed

lemma seq_stream_Suc: "seq_stream s0 (Suc n) = seq_stream s0 n @ [(s0 + int n) mod 65536]"
  by (simp add: seq_stream_def)

lemma length_seq_stream [simp]: "length (seq_stream s0 n) = n"
  by (simp add: seq_stream_def)

lemma in_last_n_stream:
  assumes "s \<in> set (last_n h (seq_stream s0 n))"
  obtains i where "n \<le> i + h" and "i < n" and "s = (s0 + int i) mod 65536"
proof -
  from assms obtain k where "k < length (last_n h (seq_stream s0 n))"
    and "s = last_n h (seq_stream s0 n) ! k" by (metis in_set_conv_nth)
  then have "n - h + k < n" and "s = (s0 + int (n - h + k)) mod 65536"
    by (auto simp: last_n_def seq_stream_def min_def split: if_splits)
  then show thesis by (intro that [of "n - h + k"]) auto
qed

lemma seq_stream_fresh:
  assumes "h \<le> 65535"
  shows "(s0 + int n) mod 65536 \<notin> set (last_n h (seq_stream s0 n))"
proof
  assume "(s0 + int n) mod 65536 \<in> set (last_n h (seq_stream s0 n))"
  then obtain i where "n \<le> i + h" "i < n" "(s0 + int n) mod 65536 = (s0 + int i) mod 65536"
    by (rule in_last_n_stream)
  moreover have "n < i + 65536" using \<open>n \<le> i + h\<close> assms by simp
  ultimately show False using mod_window_distinct [of i n s0] by simp
qed

lemma seq_observe_stream:
  assumes "seq_init (int h) = Inr t0" and "h \<le> 65535"
  shows "\<exists>obs t. seq_observe_all (seq_stream s0 n) t0 = Inr (obs, t) \<and>
    (\<forall>ob \<in> set obs. so_clean ob) \<and> length obs = n \<and>
    st_history_size t = int h \<and> st_recent t = last_n h (seq_stream s0 n) \<and>
    st_seen t = set (st_recent t) \<and> distinct (st_recent t) \<and>
    st_last t = (if n = 0 then None else Some ((s0 + int n - 1) mod 65536))"
proof (induction n)
  case 0
  from assms show ?case
    by (auto simp: seq_init_def seq_stream_def last_n_def res_simps)
next
  case (Suc n)
  then obtain obs t where run: "seq_observe_all (seq_stream s0 n) t0 = Inr (obs, t)"
    and clean: "\<forall>ob \<in> set obs. so_clean ob" "length obs = n"
    and h: "st_history_size t = int h" and rec: "st_recent t = last_n h (seq_stream s0 n)"
    and seen: "st_seen t = set (st_recent t)" and dist: "distinct (st_recent t)"
    and last: "st_last t = (if n = 0 then None else Some ((s0 + int n - 1) mod 65536))"
    by blast
  let ?s = "(s0 + int n) mod 65536"
  have fresh: "?s \<notin> set (st_recent t)"
    unfolding rec by (rule seq_stream_fresh [OF assms(2)])
  have next_expected: "((s0 + int n - 1) mod 65536 + 1) mod 65536 = ?s"
    by (simp add: mod_add_left_eq)
  let ?t' = "seq_remember ?s (t\<lparr>st_last := Some ?s\<rparr>)"
  have t': "?t' = t\<lparr>st_last := Some ?s,
      st_recent := last_n h (seq_stream s0 (Suc n)), st_seen := set (last_n h (seq_stream s0 (Suc n)))\<rparr>"
    using fresh seen dist h
    by (simp add: seq_remember_recent rec last_n_snoc_last_n seq_stream_Suc)
  have step: "\<exists>ob. seq_observe ?s t = Inr (ob, ?t') \<and> so_clean ob"
    using fresh seen last next_expected
    by (auto simp: seq_observe_def so_clean_def Let_def)
  then obtain ob where ob: "seq_observe ?s t = Inr (ob, ?t')" "so_clean ob" by blast
  have "distinct (last_n h (seq_stream s0 n) @ [?s])" using dist fresh by (simp add: rec)
  then have "distinct (last_n h (seq_stream s0 (Suc n)))"
    by (metis distinct_drop last_n_def last_n_snoc_last_n seq_stream_Suc)
  with run ob clean h t' show ?case
    by (simp add: seq_stream_Suc seq_observe_all_append)
qed


subsection \<open>Loss accounting\<close>

text \<open>
  A packet is accepted when it is neither a duplicate nor late: exactly then the transport
  delivers it and counts \<open>so_missing\<close> lost packets before it.
\<close>

definition so_accepted :: "seq_observation \<Rightarrow> bool" where
  "so_accepted ob \<longleftrightarrow> \<not> so_duplicate ob \<and> \<not> so_out_of_order ob"

definition so_advance :: "seq_observation list \<Rightarrow> int" where
  "so_advance obs = (\<Sum>ob \<leftarrow> filter so_accepted obs. so_missing ob + 1)"

lemma st_last_remember [simp]: "st_last (seq_remember s t) = st_last t"
  by (simp add: seq_remember_def Let_def split: prod.splits)

lemma st_history_remember [simp]: "st_history_size (seq_remember s t) = st_history_size t"
  by (simp add: seq_remember_def Let_def split: prod.splits)

lemma seq_observe_Some:
  assumes "st_last t = Some l" and "seq_observe s t = Inr (ob, t')"
  shows "0 \<le> so_missing ob" and "so_missing ob < 32768"
    and "so_sequence ob = s" and "so_expected ob = Some ((l + 1) mod 65536)"
    and "\<not> so_accepted ob \<Longrightarrow> so_missing ob = 0 \<and> st_last t' = Some l"
    and "so_accepted ob \<Longrightarrow> st_last t' = Some s \<and> s = (l + so_missing ob + 1) mod 65536"
proof -
  from assms(2) have s: "0 \<le> s" "s < 65536" by (auto simp: seq_observe_def res_simps)
  define e where "e = (l + 1) mod 65536"
  define d where "d = (s - e) mod 65536"
  have d0: "0 \<le> d" by (simp add: d_def)
  have e0: "0 \<le> e" "e < 65536" by (simp_all add: e_def)
  have "(e + d) mod 65536 = s" using s by (simp add: d_def mod_simps)
  then have fwd: "(l + d + 1) mod 65536 = s" by (simp add: e_def mod_simps ac_simps)
  have d_e: "s = e \<Longrightarrow> (l + 1) mod 65536 = s" by (simp add: e_def)
  consider
    (dup) "so_missing ob = 0" "\<not> so_accepted ob" "t' = t"
  | (exact) "s = e" "so_missing ob = 0" "so_accepted ob" "st_last t' = Some s"
  | (gap) "d < 32768" "so_missing ob = d" "so_accepted ob" "st_last t' = Some s"
  | (late) "so_missing ob = 0" "\<not> so_accepted ob" "st_last t' = st_last t"
    using assms(2) [unfolded seq_observe_def assms(1) option.case Let_def and_mask_mod,
        folded e_def, folded d_def] s
    by (auto simp: so_accepted_def split: if_splits)
  then show "0 \<le> so_missing ob" "so_missing ob < 32768"
    "\<not> so_accepted ob \<Longrightarrow> so_missing ob = 0 \<and> st_last t' = Some l"
    "so_accepted ob \<Longrightarrow> st_last t' = Some s \<and> s = (l + so_missing ob + 1) mod 65536"
    by (cases; simp add: d0 assms(1) fwd d_e)+
  show "so_sequence ob = s" "so_expected ob = Some ((l + 1) mod 65536)"
    using assms(2) [unfolded seq_observe_def assms(1) option.case Let_def and_mask_mod,
        folded e_def, folded d_def] s
    unfolding e_def [symmetric] by (auto split: if_splits)
qed

lemma seq_observe_all_advance:
  "st_last t = Some l \<Longrightarrow> 0 \<le> l \<Longrightarrow> l < 65536 \<Longrightarrow> seq_observe_all ss t = Inr (obs, t') \<Longrightarrow>
   \<exists>l'. st_last t' = Some l' \<and> l' = (l + so_advance obs) mod 65536"
proof (induction ss arbitrary: t l obs)
  case Nil
  then show ?case by (auto simp: so_advance_def)
next
  case (Cons s ss)
  then obtain ob t1 obs1 where ob: "seq_observe s t = Inr (ob, t1)"
    and rest: "seq_observe_all ss t1 = Inr (obs1, t')" and obs: "obs = ob # obs1"
    by (auto simp: res_simps)
  from ob have s: "0 \<le> s" "s < 65536" by (auto simp: seq_observe_def res_simps)
  show ?case
  proof (cases "so_accepted ob")
    case True
    with seq_observe_Some(6) [OF Cons.prems(1) ob]
    have "st_last t1 = Some s" and l: "s = (l + so_missing ob + 1) mod 65536" by blast+
    from Cons.IH [OF this(1) s rest] True show ?thesis
      by (simp add: obs so_advance_def l mod_simps algebra_simps)
  next
    case False
    with seq_observe_Some(5) [OF Cons.prems(1) ob] have "st_last t1 = Some l" by blast
    from Cons.IH [OF this Cons.prems(2,3) rest] False show ?thesis
      by (simp add: obs so_advance_def)
  qed
qed

subsection \<open>How long a sequence number is remembered\<close>

lemma seq_remember_keeps:
  assumes "seq_inv t" and "st_recent t = us @ s # vs" and "int (length vs) + 2 \<le> st_history_size t"
  shows "\<exists>us' vs'. st_recent (seq_remember x t) = us' @ s # vs' \<and> length vs' \<le> length vs + 1"
proof (cases "x \<in> st_seen t")
  case True
  then show ?thesis using assms(2) by (force simp: seq_remember_def)
next
  case False
  let ?h = "nat (st_history_size t)"
  from False assms have "st_recent (seq_remember x t) = last_n ?h (us @ s # vs @ [x])"
    by (simp add: seq_remember_recent seq_inv_def)
  moreover have "length us + Suc (length vs + 1) - ?h \<le> length us" using assms(3) by simp
  then have "last_n ?h (us @ s # vs @ [x]) =
      drop (length us + Suc (length vs + 1) - ?h) us @ s # (vs @ [x])"
    by (simp add: last_n_def)
  ultimately show ?thesis by (metis length_append_singleton Suc_eq_plus1 order_refl)
qed

lemma seq_observe_keeps:
  assumes "seq_inv t" and "st_recent t = us @ s # vs" and "int (length vs) + 2 \<le> st_history_size t"
    and "seq_observe x t = Inr (ob, t')"
  shows "\<exists>us' vs'. st_recent t' = us' @ s # vs' \<and> length vs' \<le> length vs + 1"
    and "st_history_size t' = st_history_size t"
proof -
  from assms(1,2) obtain l where l: "st_last t = Some l" and b: "0 \<le> l" "l < 65536"
    by (auto simp: seq_inv_def split: option.splits)
  from assms(4) have x: "0 \<le> x" "x < 65536" by (auto simp: seq_observe_def res_simps)
  have inv': "seq_inv (t\<lparr>st_last := Some x\<rparr>)"
    using assms(1) x l by (simp add: seq_inv_def)
  have cases: "t' = t \<or> t' = seq_remember x t \<or> t' = seq_remember x (t\<lparr>st_last := Some x\<rparr>)"
    using assms(4) l by (auto simp: seq_observe_def Let_def res_simps split: if_splits)
  then show "st_history_size t' = st_history_size t" by auto
  have "\<exists>us' vs'. st_recent t = us' @ s # vs' \<and> length vs' \<le> length vs + 1"
    using assms(2) by force
  moreover note seq_remember_keeps [OF assms(1-3), of x]
  moreover have "\<exists>us' vs'. st_recent (seq_remember x (t\<lparr>st_last := Some x\<rparr>)) = us' @ s # vs' \<and>
      length vs' \<le> length vs + 1"
    using assms(2,3) by (intro seq_remember_keeps [OF inv']) simp_all
  ultimately show "\<exists>us' vs'. st_recent t' = us' @ s # vs' \<and> length vs' \<le> length vs + 1"
    using cases by blast
qed

lemma seq_observe_all_keeps:
  "seq_inv t \<Longrightarrow> st_recent t = us @ s # vs \<Longrightarrow>
   int (length vs + length xs) + 1 \<le> st_history_size t \<Longrightarrow>
   seq_observe_all xs t = Inr (obs, t') \<Longrightarrow> s \<in> set (st_recent t')"
proof (induction xs arbitrary: t us vs obs)
  case Nil
  then show ?case by simp
next
  case (Cons x xs)
  then obtain ob t1 obs1 where ob: "seq_observe x t = Inr (ob, t1)"
    and rest: "seq_observe_all xs t1 = Inr (obs1, t')"
    by (auto simp: res_simps)
  have "int (length vs) + 2 \<le> st_history_size t" using Cons.prems(3) by simp
  from seq_observe_keeps [OF Cons.prems(1,2) this ob] obtain us' vs'
    where "st_recent t1 = us' @ s # vs'" "length vs' \<le> length vs + 1"
      "st_history_size t1 = st_history_size t" by blast
  with Cons.prems(3) show ?case
    by (intro Cons.IH [OF seq_observe_inv(1) [OF Cons.prems(1) ob] _ _ rest]) auto
qed

lemma seq_observe_remembers:
  assumes "seq_inv t" and "seq_observe s t = Inr (ob, t')" and "\<not> so_duplicate ob"
  shows "\<exists>us. st_recent t' = us @ [s]"
proof -
  from assms(1) have h: "0 < st_history_size t" by (simp add: seq_inv_def)
  have fresh: "s \<notin> set (st_recent t)"
    using assms by (auto simp: seq_observe_def seq_inv_def Let_def res_simps split: option.splits if_splits)
  have snoc: "\<exists>us. last_n (nat (st_history_size t)) (st_recent t @ [s]) = us @ [s]"
    using h by (simp add: last_n_def Suc_diff_le)
  have "st_recent t' = last_n (nat (st_history_size t)) (st_recent t @ [s])"
    using assms fresh
    by (auto simp: seq_observe_def seq_remember_recent seq_inv_def Let_def res_simps
        split: option.splits if_splits)
  with snoc show ?thesis by simp
qed

lemma seq_duplicate_window:
  assumes inv: "seq_inv t" and first: "seq_observe s t = Inr (ob, t1)"
    and new: "\<not> so_duplicate ob" and mid: "seq_observe_all xs t1 = Inr (obs, t2)"
    and few: "int (length xs) < st_history_size t"
    and again: "seq_observe s t2 = Inr (ob', t3)"
  shows "so_duplicate ob' \<and> t3 = t2"
proof -
  note inv1 = seq_observe_inv(1) [OF inv first]
  from seq_observe_remembers [OF inv first new] obtain us where us: "st_recent t1 = us @ s # []"
    by auto
  have "st_history_size t1 = st_history_size t"
    using first by (auto simp: seq_observe_def Let_def res_simps split: option.splits if_splits)
  then have "s \<in> set (st_recent t2)"
    using few by (intro seq_observe_all_keeps [OF inv1 us _ mid]) simp
  moreover have "seq_inv t2" by (rule seq_observe_all_inv [OF inv1 mid])
  ultimately show ?thesis
    using again
    by (auto simp: seq_inv_def seq_observe_def Let_def res_simps split: option.splits)
qed

section \<open>The timestamp tracker\<close>

record ts_observation =
  to_timestamp :: int
  to_expected :: "int option"
  to_missing_samples :: int
  to_backwards :: bool

record ts_tracker =
  tt_last :: "int option"
  tt_samples :: int

definition ts_init :: ts_tracker where
  "ts_init = \<lparr>tt_last = None, tt_samples = 0\<rparr>"

definition ts_reset :: "ts_tracker \<Rightarrow> ts_tracker" where
  "ts_reset t = t\<lparr>tt_last := None, tt_samples := 0\<rparr>"

definition ts_observe ::
  "int \<Rightarrow> int \<Rightarrow> ts_tracker \<Rightarrow> tracker_error + ts_observation \<times> ts_tracker" where
  "ts_observe timestamp sample_count t =
     raise_if (\<not> (0 \<le> timestamp \<and> timestamp < 4294967296)) (BadTimestamp timestamp)
       (raise_if (sample_count < 0) (BadSampleCount sample_count)
         (let t' = t\<lparr>tt_last := Some timestamp, tt_samples := sample_count\<rparr> in
          case tt_last t of
            None \<Rightarrow>
              Inr (\<lparr>to_timestamp = timestamp, to_expected = None,
                    to_missing_samples = 0, to_backwards = False\<rparr>, t')
          | Some previous \<Rightarrow>
              (let expected = (previous + tt_samples t) AND 0xFFFFFFFF;
                   delta = (timestamp - expected) AND 0xFFFFFFFF;
                   backwards = delta \<ge> 0x80000000;
                   missing_samples = (if delta = 0 \<or> backwards then 0 else delta)
               in Inr (\<lparr>to_timestamp = timestamp, to_expected = Some expected,
                        to_missing_samples = missing_samples, to_backwards = backwards\<rparr>, t'))))"

lemma ts_observe_bounds:
  assumes "ts_observe ts n t = Inr (ob, t')"
  shows "0 \<le> to_missing_samples ob" and "to_missing_samples ob < 2147483648"
    and "to_backwards ob \<Longrightarrow> to_missing_samples ob = 0"
    and "to_missing_samples ob \<noteq> 0 \<or> to_backwards ob \<Longrightarrow> to_expected ob \<noteq> None"
    and "to_expected ob = Some e \<Longrightarrow> 0 \<le> e \<and> e < 4294967296"
    and "0 \<le> ts" and "ts < 4294967296" and "0 \<le> n"
  using assms
  by (auto simp: ts_observe_def Let_def res_simps split: option.splits if_splits)

text \<open>
  The sample clock: what the tracker expects next is the last timestamp advanced by the samples
  of its packet. A distance of \<open>2 ^ 31\<close> or more ahead of it counts as backward movement.
\<close>

lemma ts_observe_clock:
  assumes "ts_observe ts n t = Inr (ob, t')" and "tt_last t = Some l"
  shows "\<not> to_backwards ob \<Longrightarrow> ts = (l + tt_samples t + to_missing_samples ob) mod 4294967296"
    and "tt_last t' = Some ts" and "tt_samples t' = n"
    and "ts = (l + tt_samples t) mod 4294967296 \<longleftrightarrow> to_missing_samples ob = 0 \<and> \<not> to_backwards ob"
proof -
  from assms have b: "0 \<le> ts" "ts < 4294967296" by (auto simp: ts_observe_def res_simps)
  define e where "e = (l + tt_samples t) mod 4294967296"
  define d where "d = (ts - e) mod 4294967296"
  have ob: "to_backwards ob \<longleftrightarrow> d \<ge> 2147483648"
    "to_missing_samples ob = (if d = 0 \<or> to_backwards ob then 0 else d)"
    using assms by (auto simp: ts_observe_def Let_def res_simps e_def d_def)
  have ed: "(e + d) mod 4294967296 = ts"
    using b by (simp add: d_def mod_simps)
  have d: "d = 0 \<longleftrightarrow> ts = e"
  proof
    assume "d = 0"
    with ed show "ts = e" by (simp add: e_def)
  qed (simp add: d_def)
  show "\<not> to_backwards ob \<Longrightarrow> ts = (l + tt_samples t + to_missing_samples ob) mod 4294967296"
    using ed ob(2) by (simp add: e_def mod_simps split: if_splits)
  show "tt_last t' = Some ts" "tt_samples t' = n"
    using assms by (auto simp: ts_observe_def Let_def res_simps)
  show "ts = (l + tt_samples t) mod 4294967296 \<longleftrightarrow> to_missing_samples ob = 0 \<and> \<not> to_backwards ob"
    using d ob unfolding e_def [symmetric] by auto
qed

section \<open>Properties\<close>

text \<open>
  C36: A stream that loses nothing is reported clean for ever. However many packets arrive in
  order, through any number of wrap-arounds of the 16-bit sequence number, no observation reports
  a gap, a duplicate or a late packet, for every history size up to 65535 (the code's default is 128).
\<close>

theorem seq_in_order_clean:
  assumes "seq_init (int h) = Inr t" and "h \<le> 65535"
  shows "\<exists>obs t'. seq_observe_all (seq_stream s0 n) t = Inr (obs, t') \<and> length obs = n \<and>
    list_all so_clean obs"
  using seq_observe_stream [OF assms, of s0 n] by (auto simp: list_all_iff)

theorem seq_in_order_clean_witness:
  "\<exists>obs t'. seq_observe_all (seq_stream 65530 100000) 
      \<lparr>st_history_size = 128, st_last = None, st_recent = [], st_seen = {}\<rparr> = Inr (obs, t') \<and>
    length obs = 100000 \<and> list_all so_clean obs"
proof -
  have "seq_init (int 128) =
      Inr \<lparr>st_history_size = 128, st_last = None, st_recent = [], st_seen = {}\<rparr>"
    by (simp add: seq_init_def)
  then show ?thesis by (rule seq_in_order_clean) simp
qed

text \<open>
  C25: Loss accounting. Over any stream of packets (gaps, duplicates, late packets and
  wrap-arounds included) the last accepted sequence number is the first one advanced by one for
  every further accepted packet and by every packet counted missing, modulo 65536: no loss the
  tracker can see goes uncounted, and none is counted twice.
\<close>

theorem seq_loss_accounting:
  assumes "seq_init h = Inr t0" and "seq_observe_all (s # ss) t0 = Inr (ob # obs, t)"
  shows "\<exists>l. st_last t = Some l \<and> l = (s + so_advance obs) mod 65536"
proof -
  from assms(1) have init: "st_last t0 = None" by (auto simp: seq_init_def res_simps)
  from assms(2) obtain t1 where first: "seq_observe s t0 = Inr (ob, t1)"
    and rest: "seq_observe_all ss t1 = Inr (obs, t)" by (auto simp: res_simps)
  from first have "0 \<le> s" "s < 65536" by (auto simp: seq_observe_def res_simps)
  moreover have "st_last t1 = Some s"
    using first init by (auto simp: seq_observe_def res_simps)
  ultimately show ?thesis using seq_observe_all_advance [OF _ _ _ rest] by blast
qed

theorem seq_loss_accounting_witness:
  "\<exists>t obs. seq_observe_all [65534, 65535, 2, 2, 65533, 3]
      \<lparr>st_history_size = 128, st_last = None, st_recent = [], st_seen = {}\<rparr> = Inr (obs, t) \<and>
    so_advance (tl obs) = 5 \<and> st_last t = Some 3"
proof -
  let ?t0 = "\<lparr>st_history_size = 128, st_last = None, st_recent = [], st_seen = {}\<rparr>"
  have init: "seq_init 128 = Inr ?t0" by (simp add: seq_init_def)
  obtain ob obs t where run: "seq_observe_all [65534, 65535, 2, 2, 65533, 3] ?t0 = Inr (ob # obs, t)"
    and adv: "so_advance obs = 5"
    by (simp add: seq_observe_def seq_remember_def so_advance_def so_accepted_def Let_def)
  from seq_loss_accounting [OF init run] adv have "st_last t = Some 3" by auto
  with run adv show ?thesis by auto
qed

text \<open>
  C35: Duplicate suppression has a guaranteed window. Once a sequence number has been taken in, a
  repetition of it is reported as a duplicate, and leaves the tracker unchanged, for as long as
  fewer further packets than the history size have been observed.
\<close>

theorem seq_duplicates_within_history:
  assumes "seq_inv t" and "seq_observe s t = Inr (ob, t1)" and "\<not> so_duplicate ob"
    and "seq_observe_all xs t1 = Inr (obs, t2)" and "int (length xs) < st_history_size t"
    and "seq_observe s t2 = Inr (ob', t3)"
  shows "so_duplicate ob' \<and> t3 = t2"
  using assms by (rule seq_duplicate_window)

theorem seq_duplicates_within_history_witness:
  "\<exists>ob t2. seq_observe 7 t2 = Inr (ob, t2) \<and> so_duplicate ob"
proof -
  let ?t = "\<lparr>st_history_size = 3, st_last = Some 6, st_recent = [6], st_seen = {6}\<rparr>"
  let ?t1 = "\<lparr>st_history_size = 3, st_last = Some 7, st_recent = [6, 7], st_seen = {6, 7}\<rparr>"
  let ?t2 = "\<lparr>st_history_size = 3, st_last = Some 9, st_recent = [7, 8, 9], st_seen = {7, 8, 9}\<rparr>"
  obtain ob where 1: "seq_observe 7 ?t = Inr (ob, ?t1)" and new: "\<not> so_duplicate ob"
    by (simp add: seq_observe_def seq_remember_def Let_def insert_commute)
  obtain obs where 2: "seq_observe_all [8, 9] ?t1 = Inr (obs, ?t2)"
    by (simp add: seq_observe_def seq_remember_def Let_def insert_commute)
  obtain ob' t3 where 3: "seq_observe 7 ?t2 = Inr (ob', t3)"
    by (simp add: seq_observe_def)
  have "so_duplicate ob' \<and> t3 = ?t2"
    by (rule seq_duplicates_within_history [OF _ 1 new 2 _ 3]) (simp_all add: seq_inv_def)
  with 3 show ?thesis by blast
qed

end
