(* ===== verification/Py_Text.thy ===== *)
theory Py_Text
  imports Prelude
begin

text \<open>
  What the program uses of Python's \<open>str\<close>: a string is the list of its code points, with
  \<open>isspace\<close>, \<open>strip\<close>, and the strict UTF-8 codec (\<open>str.encode("utf-8")\<close>, which fails on a
  surrogate, and \<open>bytes.decode("utf-8")\<close>, which accepts the shortest form of each code point
  only). The codec is shown to be a bijection between the encodable strings and the byte strings
  it accepts.
\<close>

type_synonym pystr = "nat list"

definition py_isspace :: "nat \<Rightarrow> bool" where
  "py_isspace c \<longleftrightarrow>
     9 \<le> c \<and> c \<le> 13 \<or> 28 \<le> c \<and> c \<le> 32 \<or> c = 0x85 \<or> c = 0xA0 \<or> c = 0x1680 \<or>
     0x2000 \<le> c \<and> c \<le> 0x200A \<or> c = 0x2028 \<or> c = 0x2029 \<or> c = 0x202F \<or> c = 0x205F \<or> c = 0x3000"

definition py_strip :: "pystr \<Rightarrow> pystr" where
  "py_strip s = rev (dropWhile py_isspace (rev (dropWhile py_isspace s)))"

lemma py_strip_eq_Nil: "py_strip s = [] \<longleftrightarrow> (\<forall>c \<in> set s. py_isspace c)"
  by (auto simp: py_strip_def dropWhile_eq_Nil_conv dest: set_dropWhileD)
    (metis dropWhile_eq_Nil_conv hd_dropWhile list.set_sel(1))

text \<open>\<open>str(n)\<close> of a non-negative integer.\<close>

fun py_decimal :: "nat \<Rightarrow> pystr" where
  "py_decimal n = (if n < 10 then [48 + n] else py_decimal (n div 10) @ [48 + n mod 10])"

declare py_decimal.simps [simp del]

section \<open>UTF-8 over code units\<close>

definition utf8_valid :: "nat \<Rightarrow> bool" where
  "utf8_valid c \<longleftrightarrow> c < 0xD800 \<or> 0xE000 \<le> c \<and> c < 0x110000"

definition utf8_units :: "nat \<Rightarrow> nat list" where
  "utf8_units c =
     (if c < 0x80 then [c]
      else if c < 0x800 then [0xC0 + c div 64, 0x80 + c mod 64]
      else if c < 0x10000 then
        [0xE0 + c div 4096, 0x80 + c div 64 mod 64, 0x80 + c mod 64]
      else
        [0xF0 + c div 262144, 0x80 + c div 4096 mod 64, 0x80 + c div 64 mod 64, 0x80 + c mod 64])"

definition utf8_cont :: "nat \<Rightarrow> bool" where
  "utf8_cont b \<longleftrightarrow> 0x80 \<le> b \<and> b < 0xC0"

fun utf8_next :: "nat list \<Rightarrow> (nat \<times> nat list) option" where
  "utf8_next [] = None"
| "utf8_next (a # bs) =
     (if a < 0x80 then Some (a, bs)
      else if a < 0xE0 then
        (case bs of
           b # bs' \<Rightarrow>
             let c = (a - 0xC0) * 64 + (b - 0x80) in
             if 0xC2 \<le> a \<and> utf8_cont b then Some (c, bs') else None
         | [] \<Rightarrow> None)
      else if a < 0xF0 then
        (case bs of
           b # b' # bs' \<Rightarrow>
             let c = (a - 0xE0) * 4096 + (b - 0x80) * 64 + (b' - 0x80) in
             if utf8_cont b \<and> utf8_cont b' \<and> 0x800 \<le> c \<and> utf8_valid c then Some (c, bs') else None
         | _ \<Rightarrow> None)
      else
        (case bs of
           b # b' # b'' # bs' \<Rightarrow>
             let c = (a - 0xF0) * 262144 + (b - 0x80) * 4096 + (b' - 0x80) * 64 + (b'' - 0x80) in
             if utf8_cont b \<and> utf8_cont b' \<and> utf8_cont b'' \<and> 0x10000 \<le> c \<and> c < 0x110000
             then Some (c, bs') else None
         | _ \<Rightarrow> None))"

lemma utf8_next_length: "utf8_next bs = Some (c, rest) \<Longrightarrow> length rest < length bs"
  by (cases bs) (auto simp: Let_def split: if_splits list.splits)

function utf8_decode_units :: "nat list \<Rightarrow> nat list option" where
  "utf8_decode_units bs =
     (if bs = [] then Some []
      else case utf8_next bs of
        None \<Rightarrow> None
      | Some (c, rest) \<Rightarrow> map_option (Cons c) (utf8_decode_units rest))"
  by pat_completeness auto
termination
  by (relation "measure length") (auto dest: utf8_next_length)

declare utf8_decode_units.simps [simp del]

lemma base64_low:
  fixes m z :: nat
  assumes "z < 64"
  shows "(m * 64 + z) mod 64 = z" and "(m * 64 + z) div 64 = m"
  using assms by simp_all

lemma base64_digits:
  obtains d3 d2 d1 d0 :: nat
  where "c = ((d3 * 64 + d2) * 64 + d1) * 64 + d0" and "d2 < 64" "d1 < 64" "d0 < 64"
    and "c mod 64 = d0" "c div 64 = (d3 * 64 + d2) * 64 + d1" "c div 64 mod 64 = d1"
      "c div 4096 = d3 * 64 + d2" "c div 4096 mod 64 = d2" "c div 262144 = d3"
proof -
  have d: "c div 4096 = c div 64 div 64" "c div 262144 = c div 4096 div 64"
    using div_mult2_eq [of c 64 64] div_mult2_eq [of c 4096 64] by simp_all
  have e0: "c = c div 64 * 64 + c mod 64" by simp
  have e1: "c div 64 = c div 4096 * 64 + c div 64 mod 64" by (simp add: d)
  have e2: "c div 4096 = c div 262144 * 64 + c div 4096 mod 64" by (simp add: d)
  show thesis
    by (rule that [of "c div 262144" "c div 4096 mod 64" "c div 64 mod 64" "c mod 64"])
      (use e0 e1 e2 in \<open>linarith | simp\<close>)+
qed

lemma utf8_next_units:
  assumes "utf8_valid c"
  shows "utf8_next (utf8_units c @ bs) = Some (c, bs)"
proof -
  obtain d3 d2 d1 d0 where c: "c = ((d3 * 64 + d2) * 64 + d1) * 64 + d0"
    and d: "d2 < 64" "d1 < 64" "d0 < 64"
    and q: "c mod 64 = d0" "c div 64 = (d3 * 64 + d2) * 64 + d1" "c div 64 mod 64 = d1"
      "c div 4096 = d3 * 64 + d2" "c div 4096 mod 64 = d2" "c div 262144 = d3"
    by (rule base64_digits)
  have flat: "c = d3 * 262144 + d2 * 4096 + d1 * 64 + d0" using c by simp
  consider (one) "c < 0x80" | (two) "0x80 \<le> c" "c < 0x800" | (three) "0x800 \<le> c" "c < 0x10000"
    | (four) "0x10000 \<le> c" "c < 0x110000"
    using assms unfolding utf8_valid_def by linarith
  then show ?thesis
  proof cases
    case one
    then show ?thesis by (simp add: utf8_units_def)
  next
    case two
    then have "c < 4096" by simp
    then have "\<not> 0 < d3" "\<not> 0 < d2" using flat by linarith+
    then have z0: "d3 = 0" "d2 = 0" by simp_all
    have z1: "2 \<le> d1" "d1 < 32" using flat d z0 two by linarith+
    note z = z0 z1
    have "utf8_units c = [0xC0 + d1, 0x80 + d0]"
      using two q(1,2) z by (simp add: utf8_units_def)
    then show ?thesis using z d c by (simp add: utf8_cont_def)
  next
    case three
    then have z: "d3 = 0" "d2 < 16" using flat d by linarith+
    have "utf8_units c = [0xE0 + d2, 0x80 + d1, 0x80 + d0]"
      using three q(1,3,4) z by (simp add: utf8_units_def)
    moreover have "d2 * 4096 + d1 * 64 + d0 = c" using c z by simp
    ultimately show ?thesis using z d three assms by (simp add: utf8_cont_def Let_def)
  next
    case four
    then have z: "d3 < 5" using flat d by linarith
    have "utf8_units c = [0xF0 + d3, 0x80 + d2, 0x80 + d1, 0x80 + d0]"
      using four q(1,3,5,6) by (simp add: utf8_units_def)
    moreover have "d3 * 262144 + d2 * 4096 + d1 * 64 + d0 = c" using c by simp
    ultimately show ?thesis using z d four by (simp add: utf8_cont_def Let_def)
  qed
qed

lemma utf8_next_Some:
  assumes "utf8_next bs = Some (c, rest)"
  shows "utf8_valid c" and "bs = utf8_units c @ rest"
proof -
  from assms obtain a bs1 where bs: "bs = a # bs1" by (cases bs) auto
  consider (one) "a < 0x80" | (two) "0x80 \<le> a" "a < 0xE0" | (three) "0xE0 \<le> a" "a < 0xF0" | (four) "0xF0 \<le> a"
    by linarith
  then have "utf8_valid c \<and> bs = utf8_units c @ rest"
  proof cases
    case one
    with assms bs show ?thesis by (auto simp: utf8_valid_def utf8_units_def)
  next
    case two
    with assms bs obtain b where bs1: "bs1 = b # rest" and c: "c = (a - 0xC0) * 64 + (b - 0x80)"
      and r: "0xC2 \<le> a" "0x80 \<le> b" "b < 0xC0"
      by (auto simp: Let_def utf8_cont_def split: list.splits if_splits)
    define x y where "x = a - 0xC0" and "y = b - 0x80"
    have "a = 0xC0 + x" "b = 0x80 + y" "y < 64" "2 \<le> x" "x < 32" "c = x * 64 + y"
      using r two c by (simp_all add: x_def y_def)
    then show ?thesis using bs bs1 by (simp add: utf8_valid_def utf8_units_def)
  next
    case three
    with assms bs obtain b b' where bs1: "bs1 = b # b' # rest"
      and c: "c = (a - 0xE0) * 4096 + (b - 0x80) * 64 + (b' - 0x80)"
      and r: "0x80 \<le> b" "b < 0xC0" "0x80 \<le> b'" "b' < 0xC0" and v: "0x800 \<le> c" "utf8_valid c"
      by (auto simp: Let_def utf8_cont_def split: list.splits if_splits)
    define x y z where "x = a - 0xE0" and "y = b - 0x80" and "z = b' - 0x80"
    have e: "a = 0xE0 + x" "b = 0x80 + y" "b' = 0x80 + z" "z < 64" "y < 64" "x < 16"
      and c: "c = (x * 64 + y) * 64 + z"
      using r three c by (simp_all add: x_def y_def z_def)
    have q: "c mod 64 = z" "c div 64 = x * 64 + y" using base64_low [OF e(4), of "x * 64 + y"] by (simp_all only: c)
    then have "c div 4096 = x" using div_mult2_eq [of c 64 64] e by simp
    moreover have "x * 4096 + y * 64 + z < 0x10000" using e(4-6) by linarith
    then have "c < 0x10000" using c by simp
    ultimately show ?thesis using bs bs1 v q e by (simp add: utf8_units_def)
  next
    case four
    with assms bs obtain b b' b'' where bs1: "bs1 = b # b' # b'' # rest"
      and c: "c = (a - 0xF0) * 262144 + (b - 0x80) * 4096 + (b' - 0x80) * 64 + (b'' - 0x80)"
      and r: "0x80 \<le> b" "b < 0xC0" "0x80 \<le> b'" "b' < 0xC0" "0x80 \<le> b''" "b'' < 0xC0"
      and v: "0x10000 \<le> c" "c < 0x110000"
      by (auto simp: Let_def utf8_cont_def split: list.splits if_splits)
    define x y z u where "x = a - 0xF0" and "y = b - 0x80" and "z = b' - 0x80" and "u = b'' - 0x80"
    have e: "a = 0xF0 + x" "b = 0x80 + y" "b' = 0x80 + z" "b'' = 0x80 + u" "u < 64" "z < 64" "y < 64"
      using r four by (simp_all add: x_def y_def z_def u_def)
    have "c = x * 262144 + y * 4096 + z * 64 + u"
      unfolding x_def y_def z_def u_def by (rule c)
    then have c: "c = ((x * 64 + y) * 64 + z) * 64 + u" by simp
    have q: "c mod 64 = u" "c div 64 = (x * 64 + y) * 64 + z" using base64_low [OF e(5), of "(x * 64 + y) * 64 + z"] by (simp_all only: c)
    then have q2: "c div 4096 = x * 64 + y" using div_mult2_eq [of c 64 64] e by simp
    have q3: "c div 64 mod 64 = z" using base64_low [OF e(6), of "x * 64 + y"] by (simp only: q(2))
    have "c div 262144 = x" using div_mult2_eq [of c 4096 64] q2 e by simp
    then show ?thesis using bs bs1 v q(1) q2 q3 e by (simp add: utf8_units_def utf8_valid_def)
  qed
  then show "utf8_valid c" "bs = utf8_units c @ rest" by blast+
qed

lemma utf8_units_nonempty [simp]: "utf8_units c \<noteq> []"
  by (simp add: utf8_units_def)

lemma utf8_decode_units_iff:
  "utf8_decode_units bs = Some cs \<longleftrightarrow> (\<forall>c \<in> set cs. utf8_valid c) \<and> bs = concat (map utf8_units cs)"
proof (induction bs arbitrary: cs rule: utf8_decode_units.induct)
  case (1 bs)
  show ?case
  proof (cases "utf8_next bs")
    case None
    then have "utf8_decode_units bs = Some cs \<longleftrightarrow> bs = [] \<and> cs = []"
      by (auto simp: utf8_decode_units.simps [of bs])
    moreover have "bs = concat (map utf8_units cs) \<Longrightarrow> \<forall>c \<in> set cs. utf8_valid c \<Longrightarrow> cs = []"
      using None utf8_next_units by (cases cs) auto
    ultimately show ?thesis by auto
  next
    case (Some r)
    then obtain c rest where n: "utf8_next bs = Some (c, rest)" by (cases r) auto
    then have ne: "bs \<noteq> []" by auto
    note c = utf8_next_Some [OF n]
    have dec: "utf8_decode_units bs = map_option (Cons c) (utf8_decode_units rest)"
      using n ne by (simp add: utf8_decode_units.simps [of bs])
    note IH = "1.IH" [OF ne n refl]
    show ?thesis
    proof
      assume "utf8_decode_units bs = Some cs"
      with dec IH c show "(\<forall>c \<in> set cs. utf8_valid c) \<and> bs = concat (map utf8_units cs)" by auto
    next
      assume r: "(\<forall>c \<in> set cs. utf8_valid c) \<and> bs = concat (map utf8_units cs)"
      with ne obtain c' cs' where cs: "cs = c' # cs'" by (cases cs) auto
      with r utf8_next_units [of c' "concat (map utf8_units cs')"] n
      have "c' = c" "rest = concat (map utf8_units cs')" by auto
      with r cs IH [of cs'] dec show "utf8_decode_units bs = Some cs" by simp
    qed
  qed
qed

lemma utf8_units_small: "utf8_valid c \<Longrightarrow> b \<in> set (utf8_units c) \<Longrightarrow> b < 256"
  by (auto simp: utf8_units_def utf8_valid_def split: if_splits)

section \<open>Encoding to bytes\<close>

definition utf8_encode :: "pystr \<Rightarrow> byte list option" where
  "utf8_encode s =
     (if list_all utf8_valid s then Some (map word_of_nat (concat (map utf8_units s))) else None)"

definition utf8_decode :: "byte list \<Rightarrow> pystr option" where
  "utf8_decode bs = utf8_decode_units (map unat bs)"

lemma unat_of_units:
  assumes "list_all utf8_valid s"
  shows "map unat (map word_of_nat (concat (map utf8_units s)) :: byte list) = concat (map utf8_units s)"
proof -
  have "unat (word_of_nat b :: byte) = b" if "b \<in> set (concat (map utf8_units s))" for b
  proof -
    have "b < 256" using that assms utf8_units_small by (auto simp: list_all_iff)
    then show ?thesis by (simp add: unat_of_nat take_bit_nat_eq_self_iff)
  qed
  then show ?thesis by (simp only: map_map comp_def) (rule map_idI, blast)
qed

lemma utf8_decode_iff: "utf8_decode bs = Some s \<longleftrightarrow> utf8_encode s = Some bs"
proof
  assume "utf8_decode bs = Some s"
  then have "list_all utf8_valid s" and eq: "map unat bs = concat (map utf8_units s)"
    by (auto simp: utf8_decode_def utf8_decode_units_iff list_all_iff)
  moreover have "map word_of_nat (map unat bs) = bs" by (simp add: comp_def)
  ultimately show "utf8_encode s = Some bs" by (simp add: utf8_encode_def flip: eq)
next
  assume "utf8_encode s = Some bs"
  then have v: "list_all utf8_valid s" and "bs = map word_of_nat (concat (map utf8_units s))"
    by (auto simp: utf8_encode_def split: if_splits)
  then show "utf8_decode bs = Some s"
    using unat_of_units [OF v] by (auto simp: utf8_decode_def utf8_decode_units_iff list_all_iff)
qed

end
