(* ===== verification/Pcmu.thy ===== *)
theory Pcmu
  imports Py_Text
begin

text \<open>
  \<^verbatim>\<open>src/sds200/pcmu.py\<close>: the accepted PCMU packet and the checks of its constructor. A packet is
  a record; \<^theory_text>\<open>pcmu_packet\<close> is the constructor, which returns the record or the exception
  of the first check that fails, in the source's order. The checks on the Python types of the
  fields hold by typing. An aware datetime is its instant in microseconds after the epoch, UTC.
\<close>

datatype py_datetime = Naive int | Aware int

definition datetime_ok :: "py_datetime \<Rightarrow> bool" where
  "datetime_ok d \<longleftrightarrow>
     (case d of Naive us \<Rightarrow> True
      | Aware us \<Rightarrow> -62135596800000000 \<le> us \<and> us < 253402300800000000)"

datatype pcmu_field =
    PacketSequence | PacketTimestamp | PacketSsrc | PacketExpectedSequence | PacketMissingPackets
  | PacketExpectedTimestamp | PacketMissingSamples | PublicationSequence | PublisherQueueCapacity
  | PublisherSubscriberLimit | PublisherMaxPayload

datatype pcmu_error =
    BelowMinimum pcmu_field int
  | AboveMaximum pcmu_field int
  | EmptyEndpoint
  | NaiveObservationTime
  | LossWithoutExpectedSequence
  | DiscontinuityWithoutExpectedTimestamp
  | LossAndBackwards

definition require_integer :: "pcmu_field \<Rightarrow> int \<Rightarrow> int option \<Rightarrow> int \<Rightarrow> pcmu_error + int" where
  "require_integer f minimum maximum v =
     raise_if (v < minimum) (BelowMinimum f minimum)
       (raise_if (case maximum of None \<Rightarrow> False | Some m \<Rightarrow> v > m) (AboveMaximum f (the maximum))
         (Inr v))"

definition require_optional_integer ::
  "pcmu_field \<Rightarrow> int \<Rightarrow> int \<Rightarrow> int option \<Rightarrow> pcmu_error + int option" where
  "require_optional_integer f minimum maximum v =
     (case v of None \<Rightarrow> Inr None
      | Some n \<Rightarrow> bind_res (require_integer f minimum (Some maximum) n) (\<lambda>n. Inr (Some n)))"

record pcmu_packet =
  pk_endpoint :: pystr
  pk_sequence :: int
  pk_timestamp :: int
  pk_ssrc :: int
  pk_payload :: "byte list"
  pk_observed_at :: py_datetime
  pk_marker :: bool
  pk_expected_sequence :: "int option"
  pk_missing_packets :: int
  pk_expected_timestamp :: "int option"
  pk_missing_samples :: int
  pk_timestamp_backwards :: bool

definition pcmu_packet :: "pcmu_packet \<Rightarrow> pcmu_error + pcmu_packet" where
  "pcmu_packet p =
     raise_if (py_strip (pk_endpoint p) = []) EmptyEndpoint
    (bind_res (require_integer PacketSequence 0 (Some 65535) (pk_sequence p)) (\<lambda>_.
     bind_res (require_integer PacketTimestamp 0 (Some 4294967295) (pk_timestamp p)) (\<lambda>_.
     bind_res (require_integer PacketSsrc 0 (Some 4294967295) (pk_ssrc p)) (\<lambda>_.
     raise_if (case pk_observed_at p of Naive _ \<Rightarrow> True | Aware _ \<Rightarrow> False) NaiveObservationTime
    (bind_res (require_optional_integer PacketExpectedSequence 0 65535 (pk_expected_sequence p))
       (\<lambda>expected_sequence.
     bind_res (require_integer PacketMissingPackets 0 None (pk_missing_packets p))
       (\<lambda>missing_packets.
     bind_res (require_optional_integer PacketExpectedTimestamp 0 4294967295
         (pk_expected_timestamp p)) (\<lambda>expected_timestamp.
     bind_res (require_integer PacketMissingSamples 0 None (pk_missing_samples p))
       (\<lambda>missing_samples.
     raise_if (missing_packets \<noteq> 0 \<and> expected_sequence = None) LossWithoutExpectedSequence
    (raise_if ((missing_samples \<noteq> 0 \<or> pk_timestamp_backwards p) \<and> expected_timestamp = None)
       DiscontinuityWithoutExpectedTimestamp
    (raise_if (missing_samples \<noteq> 0 \<and> pk_timestamp_backwards p) LossAndBackwards
       (Inr p))))))))))))"

definition pk_sample_count :: "pcmu_packet \<Rightarrow> nat" where
  "pk_sample_count p = length (pk_payload p)"

definition pk_sequence_discontinuity :: "pcmu_packet \<Rightarrow> bool" where
  "pk_sequence_discontinuity p \<longleftrightarrow> pk_missing_packets p > 0"

definition pk_timestamp_discontinuity :: "pcmu_packet \<Rightarrow> bool" where
  "pk_timestamp_discontinuity p \<longleftrightarrow> pk_missing_samples p > 0 \<or> pk_timestamp_backwards p"

definition pk_discontinuous :: "pcmu_packet \<Rightarrow> bool" where
  "pk_discontinuous p \<longleftrightarrow> pk_sequence_discontinuity p \<or> pk_timestamp_discontinuity p"

section \<open>What the constructor guarantees\<close>

definition pcmu_packet_ok :: "pcmu_packet \<Rightarrow> bool" where
  "pcmu_packet_ok p \<longleftrightarrow>
     (\<exists>c \<in> set (pk_endpoint p). \<not> py_isspace c) \<and>
     0 \<le> pk_sequence p \<and> pk_sequence p < 2 ^ 16 \<and>
     0 \<le> pk_timestamp p \<and> pk_timestamp p < 2 ^ 32 \<and>
     0 \<le> pk_ssrc p \<and> pk_ssrc p < 2 ^ 32 \<and>
     (\<exists>us. pk_observed_at p = Aware us) \<and>
     (\<forall>e. pk_expected_sequence p = Some e \<longrightarrow> 0 \<le> e \<and> e < 2 ^ 16) \<and>
     (\<forall>e. pk_expected_timestamp p = Some e \<longrightarrow> 0 \<le> e \<and> e < 2 ^ 32) \<and>
     0 \<le> pk_missing_packets p \<and> 0 \<le> pk_missing_samples p \<and>
     (pk_expected_sequence p = None \<longrightarrow> pk_missing_packets p = 0) \<and>
     (pk_expected_timestamp p = None \<longrightarrow> \<not> pk_timestamp_discontinuity p) \<and>
     (pk_timestamp_backwards p \<longrightarrow> pk_missing_samples p = 0)"

lemma require_integer_Inr [res_simps]:
  "require_integer f lo hi v = Inr w \<longleftrightarrow>
     w = v \<and> lo \<le> v \<and> (case hi of None \<Rightarrow> True | Some m \<Rightarrow> v \<le> m)"
  by (auto simp: require_integer_def res_simps split: option.splits)

lemma require_optional_integer_Inr [res_simps]:
  "require_optional_integer f lo hi v = Inr w \<longleftrightarrow>
     w = v \<and> (case v of None \<Rightarrow> True | Some n \<Rightarrow> lo \<le> n \<and> n \<le> hi)"
  by (auto simp: require_optional_integer_def res_simps split: option.splits)

lemma pcmu_packet_Inr_iff: "pcmu_packet p = Inr q \<longleftrightarrow> q = p \<and> pcmu_packet_ok p"
  by (auto simp: pcmu_packet_def pcmu_packet_ok_def py_strip_eq_Nil pk_timestamp_discontinuity_def
      res_simps split: option.splits py_datetime.splits)

end
