(* ===== verification/Network_Audio.thy ===== *)
theory Network_Audio
  imports Complex_Main Rtp_Trackers Pcmu
begin

text \<open>
  \<^verbatim>\<open>src/sds200/network_audio.py\<close>: the receiving side of the RTSP/RTP audio transport. A session
  is a record: the counters of \<open>_MutableNetworkAudioStatistics\<close>, both trackers, the negotiated
  source and SSRC. One pass of \<open>_receiver_loop\<close> is a step on what the socket returned; the steps
  of the loop's body are definitions of their own, in its order. What the step emits is its
  result: the accepted packet for the event bus and the chunk for the audio handler. Sockets, the
  RTSP client, the clock and the handler are not code of the repository's core: what each of them
  did is an input of the step.
\<close>

type_synonym net_source = "pystr \<times> int"

record net_statistics =
  ns_sessions_started :: int
  ns_datagrams_received :: int
  ns_bytes_received :: int
  ns_packets_delivered :: int
  ns_payload_bytes_delivered :: int
  ns_sequence_gaps :: int
  ns_packets_lost :: int
  ns_duplicate_packets :: int
  ns_late_packets :: int
  ns_malformed_packets :: int
  ns_unexpected_source_packets :: int
  ns_ssrc_mismatch_packets :: int
  ns_timestamp_discontinuities :: int
  ns_timestamp_samples_missing :: int
  ns_timestamp_backwards :: int
  ns_receive_errors :: int
  ns_callback_errors :: int
  ns_keepalives_sent :: int
  ns_keepalive_failures :: int
  ns_teardowns_sent :: int
  ns_first_sequence :: "int option"
  ns_last_sequence :: "int option"
  ns_last_timestamp :: "int option"
  ns_ssrc :: "int option"

definition net_statistics_init :: net_statistics where
  "net_statistics_init =
     \<lparr>ns_sessions_started = 0, ns_datagrams_received = 0, ns_bytes_received = 0,
      ns_packets_delivered = 0, ns_payload_bytes_delivered = 0, ns_sequence_gaps = 0,
      ns_packets_lost = 0, ns_duplicate_packets = 0, ns_late_packets = 0,
      ns_malformed_packets = 0, ns_unexpected_source_packets = 0, ns_ssrc_mismatch_packets = 0,
      ns_timestamp_discontinuities = 0, ns_timestamp_samples_missing = 0,
      ns_timestamp_backwards = 0, ns_receive_errors = 0, ns_callback_errors = 0,
      ns_keepalives_sent = 0, ns_keepalive_failures = 0, ns_teardowns_sent = 0,
      ns_first_sequence = None, ns_last_sequence = None, ns_last_timestamp = None,
      ns_ssrc = None\<rparr>"

record net_audio =
  na_endpoint :: pystr
  na_running :: bool
  na_receiving :: bool
  na_has_handler :: bool
  na_statistics :: net_statistics
  na_sequence_tracker :: seq_tracker
  na_timestamp_tracker :: ts_tracker
  na_expected_source :: "net_source option"
  na_expected_ssrc :: "int option"

text \<open>Under the statistics lock.\<close>

definition count :: "(net_statistics \<Rightarrow> net_statistics) \<Rightarrow> net_audio \<Rightarrow> net_audio" where
  "count f st = st\<lparr>na_statistics := f (na_statistics st)\<rparr>"

section \<open>Session lifecycle\<close>

text \<open>The endpoint \<open>rtsp://host[:port]path\<close>.\<close>

definition net_endpoint :: "pystr \<Rightarrow> int \<Rightarrow> pystr \<Rightarrow> pystr" where
  "net_endpoint host rtsp_port path =
     (let authority = (if rtsp_port = 554 then host else host @ [58] @ py_decimal (nat rtsp_port))
      in [114, 116, 115, 112, 58, 47, 47] @ authority @ path)"

datatype net_config_error =
    EmptyAudioHost
  | BadRtspPort
  | BadLocalPort
  | WildcardBindAddress
  | BadReadTimeout
  | BadRtspTimeout
  | BadKeepaliveInterval

text \<open>
  \<^verbatim>\<open>src/sds200/socket_utils.py\<close>. \<open>socket.inet_aton\<close> is a parameter: the packed address, or
  None where it raises \<open>OSError\<close>.
\<close>

definition normalize_bind_address ::
  "(pystr \<Rightarrow> byte list option) \<Rightarrow> pystr option \<Rightarrow> net_config_error + pystr option" where
  "normalize_bind_address inet_aton address =
     (case address of
        None \<Rightarrow> Inr None
      | Some a \<Rightarrow>
          (let normalized = py_strip a in
           if normalized = [] then Inr None
           else case inet_aton normalized of
             None \<Rightarrow> Inr (Some normalized)
           | Some packed \<Rightarrow>
               raise_if (packed = [0, 0, 0, 0]) WildcardBindAddress (Inr (Some normalized))))"

definition net_init ::
  "(pystr \<Rightarrow> byte list option) \<Rightarrow> pystr \<Rightarrow> int \<Rightarrow> pystr \<Rightarrow> pystr option \<Rightarrow> int \<Rightarrow> rat \<Rightarrow> rat \<Rightarrow> rat \<Rightarrow>
   net_config_error + net_audio" where
  "net_init inet_aton host rtsp_port path local_host local_port read_timeout rtsp_timeout
     keepalive_interval =
     raise_if (py_strip host = []) EmptyAudioHost
    (raise_if (\<not> (1 \<le> rtsp_port \<and> rtsp_port \<le> 65535)) BadRtspPort
    (raise_if (\<not> (0 \<le> local_port \<and> local_port \<le> 65535)) BadLocalPort
    (bind_res (normalize_bind_address inet_aton local_host) (\<lambda>_.
     raise_if (read_timeout \<le> 0) BadReadTimeout
    (raise_if (rtsp_timeout \<le> 0) BadRtspTimeout
    (raise_if (keepalive_interval \<le> 0) BadKeepaliveInterval
      (Inr \<lparr>na_endpoint = net_endpoint host rtsp_port path, na_running = False,
            na_receiving = False, na_has_handler = False, na_statistics = net_statistics_init,
            na_sequence_tracker =
              \<lparr>st_history_size = 128, st_last = None, st_recent = [], st_seen = {}\<rparr>,
            na_timestamp_tracker = ts_init, na_expected_source = None,
            na_expected_ssrc = None\<rparr>)))))))"

text \<open>What the RTSP client negotiated: sender address, server port and SSRC.\<close>

record rtp_transport_info =
  ti_source :: pystr
  ti_server_port :: int
  ti_ssrc :: "int option"

datatype net_start_error = CouldNotStart

text \<open>
  \<open>start\<close>: the outcome of opening and binding the datagram socket (the client port) and of the
  RTSP negotiation are inputs, None where they raised a connection error. A failed start has
  already reset the statistics and trackers and stored the handler.
\<close>

definition net_start ::
  "int option \<Rightarrow> rtp_transport_info option \<Rightarrow> net_audio \<Rightarrow> net_start_error option \<times> net_audio" where
  "net_start client_port negotiated st =
     (if na_running st then (None, st)
      else
        let st1 = st\<lparr>na_has_handler := True,
                     na_sequence_tracker := seq_reset (na_sequence_tracker st),
                     na_timestamp_tracker := ts_reset (na_timestamp_tracker st),
                     na_statistics := net_statistics_init\<rparr>
        in case client_port of
             None \<Rightarrow> (Some CouldNotStart, st1)
           | Some port \<Rightarrow>
               if \<not> (1 \<le> port \<and> port \<le> 65535) then (Some CouldNotStart, st1)
               else case negotiated of
                 None \<Rightarrow> (Some CouldNotStart, st1)
               | Some info \<Rightarrow>
                   (None,
                    count (ns_ssrc_update (\<lambda>_. ti_ssrc info) \<circ> ns_sessions_started_update ((+) 1))
                      (st1\<lparr>na_expected_source := Some (ti_source info, ti_server_port info),
                           na_expected_ssrc := ti_ssrc info,
                           na_running := True, na_receiving := True\<rparr>)))"

text \<open>\<open>stop\<close>, given whether the RTSP teardown returned.\<close>

definition net_stop :: "bool \<Rightarrow> net_audio \<Rightarrow> net_audio" where
  "net_stop torn_down st =
     (let st1 = (if na_running st \<and> torn_down
                 then count (ns_teardowns_sent_update ((+) 1)) st else st)
      in st1\<lparr>na_running := False, na_receiving := False, na_has_handler := False,
             na_sequence_tracker := seq_reset (na_sequence_tracker st1),
             na_timestamp_tracker := ts_reset (na_timestamp_tracker st1),
             na_expected_source := None, na_expected_ssrc := None\<rparr>)"

text \<open>One pass of \<open>_keepalive_loop\<close>: whether the request returned, and whether it goes on.\<close>

definition net_keepalive :: "bool \<Rightarrow> bool \<Rightarrow> net_audio \<Rightarrow> bool \<times> net_audio" where
  "net_keepalive answered stopping st =
     (if \<not> na_running st then (False, st)
      else if answered then (True, count (ns_keepalives_sent_update ((+) 1)) st)
      else (False, if stopping then st else count (ns_keepalive_failures_update ((+) 1)) st))"

section \<open>The receiver loop\<close>

datatype net_error = TrackerError tracker_error | PacketError pcmu_error

datatype handler_outcome = HandlerReturned | HandlerRaised

datatype socket_event =
    RecvTimeout
  | RecvError bool
  | RecvDatagram "byte list" net_source bool py_datetime handler_outcome

record audio_chunk =
  ac_data :: "byte list"
  ac_received_at :: py_datetime

text \<open>Source, syntax and SSRC of a datagram: the packet to go on with, or None for \<open>continue\<close>.\<close>

definition net_admit ::
  "byte list \<Rightarrow> net_source \<Rightarrow> net_audio \<Rightarrow> rtp_packet option \<times> net_audio" where
  "net_admit datagram source st0 =
     (let st = count (ns_bytes_received_update ((+) (int (length datagram))) \<circ>
                      ns_datagrams_received_update ((+) 1)) st0
      in if Some source \<noteq> na_expected_source st
         then (None, count (ns_unexpected_source_packets_update ((+) 1)) st)
         else case rtp_parse datagram (Some 0) of
           Inl _ \<Rightarrow> (None, count (ns_malformed_packets_update ((+) 1)) st)
         | Inr packet \<Rightarrow>
             (case na_expected_ssrc st of
                None \<Rightarrow>
                  (Some packet,
                   count (ns_ssrc_update (\<lambda>_. Some (rtp_ssrc packet)))
                     (st\<lparr>na_expected_ssrc := Some (rtp_ssrc packet)\<rparr>))
              | Some ssrc \<Rightarrow>
                  if rtp_ssrc packet \<noteq> ssrc
                  then (None, count (ns_ssrc_mismatch_packets_update ((+) 1)) st)
                  else (Some packet, st)))"

text \<open>The sequence number: the observation of an accepted packet.\<close>

definition net_sequence ::
  "rtp_packet \<Rightarrow> net_audio \<Rightarrow> net_error + seq_observation option \<times> net_audio" where
  "net_sequence packet st =
     bind_res (map_error TrackerError (seq_observe (rtp_sequence packet) (na_sequence_tracker st)))
       (\<lambda>(observation, tracker).
         let st1 = st\<lparr>na_sequence_tracker := tracker\<rparr> in
         Inr (if so_missing observation \<noteq> 0 then
                (Some observation,
                 count (ns_packets_lost_update ((+) (so_missing observation)) \<circ>
                        ns_sequence_gaps_update ((+) 1)) st1)
              else if so_duplicate observation then
                (None, count (ns_duplicate_packets_update ((+) 1)) st1)
              else if so_out_of_order observation then
                (None, count (ns_late_packets_update ((+) 1)) st1)
              else (Some observation, st1)))"

definition net_timestamp ::
  "rtp_packet \<Rightarrow> net_audio \<Rightarrow> net_error + ts_observation \<times> net_audio" where
  "net_timestamp packet st =
     bind_res (map_error TrackerError
         (ts_observe (rtp_timestamp packet) (int (length (rtp_payload packet)))
           (na_timestamp_tracker st)))
       (\<lambda>(observation, tracker).
         let st1 = st\<lparr>na_timestamp_tracker := tracker\<rparr> in
         Inr (observation,
              if to_missing_samples observation \<noteq> 0 then
                count (ns_timestamp_samples_missing_update ((+) (to_missing_samples observation)) \<circ>
                       ns_timestamp_discontinuities_update ((+) 1)) st1
              else if to_backwards observation then
                count (ns_timestamp_backwards_update ((+) 1) \<circ>
                       ns_timestamp_discontinuities_update ((+) 1)) st1
              else st1))"

definition net_deliver ::
  "rtp_packet \<Rightarrow> seq_observation \<Rightarrow> ts_observation \<Rightarrow> py_datetime \<Rightarrow> handler_outcome \<Rightarrow> net_audio \<Rightarrow>
   net_error + (pcmu_packet \<times> audio_chunk option) \<times> net_audio" where
  "net_deliver packet observation timestamp observed_at outcome st =
     (let st1 = count (\<lambda>s. s\<lparr>
            ns_packets_delivered := ns_packets_delivered s + 1,
            ns_payload_bytes_delivered :=
              ns_payload_bytes_delivered s + int (length (rtp_payload packet)),
            ns_first_sequence :=
              (case ns_first_sequence s of None \<Rightarrow> Some (rtp_sequence packet) | Some f \<Rightarrow> Some f),
            ns_last_sequence := Some (rtp_sequence packet),
            ns_last_timestamp := Some (rtp_timestamp packet)\<rparr>) st
      in bind_res (map_error PacketError (pcmu_packet
           \<lparr>pk_endpoint = na_endpoint st1, pk_sequence = rtp_sequence packet,
            pk_timestamp = rtp_timestamp packet, pk_ssrc = rtp_ssrc packet,
            pk_payload = rtp_payload packet, pk_observed_at = observed_at,
            pk_marker = rtp_marker packet, pk_expected_sequence = so_expected observation,
            pk_missing_packets = so_missing observation,
            pk_expected_timestamp = to_expected timestamp,
            pk_missing_samples = to_missing_samples timestamp,
            pk_timestamp_backwards = to_backwards timestamp\<rparr>))
         (\<lambda>pk.
           if na_has_handler st1 then
             Inr ((pk, Some \<lparr>ac_data = rtp_payload packet, ac_received_at = observed_at\<rparr>),
                  case outcome of
                    HandlerReturned \<Rightarrow> st1
                  | HandlerRaised \<Rightarrow> count (ns_callback_errors_update ((+) 1)) st1)
           else Inr ((pk, None), st1)))"

definition net_datagram ::
  "byte list \<Rightarrow> net_source \<Rightarrow> py_datetime \<Rightarrow> handler_outcome \<Rightarrow> net_audio \<Rightarrow>
   net_error + (pcmu_packet \<times> audio_chunk option) option \<times> net_audio" where
  "net_datagram datagram source observed_at outcome st =
     (case net_admit datagram source st of
        (None, st1) \<Rightarrow> Inr (None, st1)
      | (Some packet, st1) \<Rightarrow>
          bind_res (net_sequence packet st1) (\<lambda>(observed, st2).
            case observed of
              None \<Rightarrow> Inr (None, st2)
            | Some observation \<Rightarrow>
                bind_res (net_timestamp packet st2) (\<lambda>(timestamp, st3).
                bind_res (net_deliver packet observation timestamp observed_at outcome st3)
                  (\<lambda>(out, st4). Inr (Some out, st4)))))"

definition net_receive ::
  "socket_event \<Rightarrow> net_audio \<Rightarrow> net_error + (pcmu_packet \<times> audio_chunk option) option \<times> net_audio" where
  "net_receive ev st =
     (if \<not> na_receiving st then Inr (None, st)
      else case ev of
        RecvTimeout \<Rightarrow> Inr (None, st)
      | RecvError stopping \<Rightarrow>
          Inr (None, (if stopping then st else count (ns_receive_errors_update ((+) 1)) st)
            \<lparr>na_receiving := False\<rparr>)
      | RecvDatagram datagram source stopping observed_at outcome \<Rightarrow>
          if stopping \<or> datagram = [] then Inr (None, st)
          else net_datagram datagram source observed_at outcome st)"

fun net_run ::
  "socket_event list \<Rightarrow> net_audio \<Rightarrow> net_error + (pcmu_packet \<times> audio_chunk option) list \<times> net_audio" where
  "net_run [] st = Inr ([], st)"
| "net_run (ev # evs) st =
     bind_res (net_receive ev st) (\<lambda>(out, st1).
     bind_res (net_run evs st1) (\<lambda>(outs, st2).
     Inr ((case out of None \<Rightarrow> [] | Some o1 \<Rightarrow> [o1]) @ outs, st2)))"

section \<open>The session invariant\<close>

definition endpoint_ok :: "net_audio \<Rightarrow> bool" where
  "endpoint_ok st \<longleftrightarrow> (\<exists>c \<in> set (na_endpoint st). \<not> py_isspace c)"

definition net_idle :: "net_audio \<Rightarrow> bool" where
  "net_idle st \<longleftrightarrow> \<not> na_running st \<and> endpoint_ok st \<and> seq_inv (na_sequence_tracker st)"

text \<open>
  What a running session keeps: every datagram is counted in exactly one class, the sequence
  tracker and the statistics agree on the last packet, and the last sequence number is the first
  advanced by the packets delivered and lost.
\<close>

definition sequence_span :: "int option \<Rightarrow> int option \<Rightarrow> int \<Rightarrow> int \<Rightarrow> bool" where
  "sequence_span fst_seq lst_seq delivered lost \<longleftrightarrow>
     (case (fst_seq, lst_seq) of
        (None, None) \<Rightarrow> delivered = 0 \<and> lost = 0
      | (Some f, Some l) \<Rightarrow> 1 \<le> delivered \<and> l = (f + (delivered - 1) + lost) mod 65536
      | _ \<Rightarrow> False)"

definition net_inv :: "net_audio \<Rightarrow> bool" where
  "net_inv st \<longleftrightarrow>
     (let s = na_statistics st in
      endpoint_ok st \<and> seq_inv (na_sequence_tracker st) \<and>
      st_last (na_sequence_tracker st) = ns_last_sequence s \<and>
      tt_last (na_timestamp_tracker st) = ns_last_timestamp s \<and>
      na_expected_ssrc st = ns_ssrc s \<and>
      ns_datagrams_received s =
        ns_packets_delivered s + ns_duplicate_packets s + ns_late_packets s +
        ns_malformed_packets s + ns_unexpected_source_packets s + ns_ssrc_mismatch_packets s \<and>
      0 \<le> ns_packets_delivered s \<and> 0 \<le> ns_sequence_gaps s \<and>
      ns_sequence_gaps s \<le> ns_packets_lost s \<and>
      ns_payload_bytes_delivered s \<le> ns_bytes_received s \<and>
      0 \<le> ns_timestamp_backwards s \<and>
      ns_timestamp_backwards s \<le> ns_timestamp_discontinuities s \<and>
      sequence_span (ns_first_sequence s) (ns_last_sequence s) (ns_packets_delivered s)
        (ns_packets_lost s))"

lemma seq_observe_total:
  "seq_inv t \<Longrightarrow> 0 \<le> s \<Longrightarrow> s < 65536 \<Longrightarrow> \<exists>ob t'. seq_observe s t = Inr (ob, t')"
  by (auto simp: seq_observe_def Let_def split: option.splits)

lemma seq_observe_None:
  "st_last t = None \<Longrightarrow> seq_observe s t = Inr (ob, t') \<Longrightarrow>
     so_missing ob = 0 \<and> so_accepted ob \<and> so_expected ob = None \<and> st_last t' = Some s"
  by (auto simp: seq_observe_def so_accepted_def res_simps)

lemma seq_observe_flags:
  assumes "seq_inv t" and "seq_observe s t = Inr (ob, t')"
  shows "0 \<le> so_missing ob" and "so_missing ob \<noteq> 0 \<Longrightarrow> so_accepted ob \<and> so_expected ob \<noteq> None"
    and "so_expected ob = Some e \<Longrightarrow> 0 \<le> e \<and> e < 65536"
proof -
  have "0 \<le> so_missing ob \<and> (so_missing ob \<noteq> 0 \<longrightarrow> so_accepted ob \<and> so_expected ob \<noteq> None) \<and>
      (so_expected ob = Some e \<longrightarrow> 0 \<le> e \<and> e < 65536)" for e
  proof (cases "st_last t")
    case None
    then show ?thesis using seq_observe_None [OF _ assms(2)] by simp
  next
    case (Some l)
    show ?thesis using seq_observe_Some [OF Some assms(2)] by auto
  qed
  then show "0 \<le> so_missing ob" and "so_missing ob \<noteq> 0 \<Longrightarrow> so_accepted ob \<and> so_expected ob \<noteq> None"
    and "so_expected ob = Some e \<Longrightarrow> 0 \<le> e \<and> e < 65536" by blast+
qed

lemma ts_observe_total:
  "0 \<le> ts \<Longrightarrow> ts < 4294967296 \<Longrightarrow> 0 \<le> n \<Longrightarrow>
     \<exists>ob t'. ts_observe ts n t = Inr (ob, t') \<and> tt_last t' = Some ts"
  by (auto simp: ts_observe_def Let_def split: option.splits)

lemma rtp_parse_ranges:
  assumes "rtp_parse data e = Inr p"
  shows "0 \<le> rtp_sequence p" "rtp_sequence p < 65536" "0 \<le> rtp_timestamp p"
    "rtp_timestamp p < 4294967296" "0 \<le> rtp_ssrc p" "rtp_ssrc p < 4294967296"
    "length (rtp_payload p) \<le> length data"
proof -
  show "0 \<le> rtp_sequence p" "rtp_sequence p < 65536" "0 \<le> rtp_timestamp p"
    "rtp_timestamp p < 4294967296" "0 \<le> rtp_ssrc p" "rtp_ssrc p < 4294967296"
    using rtp_parse_is_build(1) [OF assms] by (simp_all add: rtp_wf_def)
  show "length (rtp_payload p) \<le> length data"
    using assms by (auto simp: rtp_parse_Inr_iff)
qed

subsection \<open>The stages of the loop body\<close>

definition same_output :: "net_audio \<Rightarrow> net_audio \<Rightarrow> bool" where
  "same_output st st1 \<longleftrightarrow>
     na_has_handler st1 = na_has_handler st \<and> na_endpoint st1 = na_endpoint st \<and>
     na_expected_source st1 = na_expected_source st \<and>
     ns_last_sequence (na_statistics st1) = ns_last_sequence (na_statistics st) \<and>
     ns_packets_delivered (na_statistics st1) = ns_packets_delivered (na_statistics st) \<and>
     ns_packets_lost (na_statistics st1) = ns_packets_lost (na_statistics st) \<and>
     ns_payload_bytes_delivered (na_statistics st1) = ns_payload_bytes_delivered (na_statistics st) \<and>
     (na_expected_ssrc st \<noteq> None \<longrightarrow> na_expected_ssrc st1 = na_expected_ssrc st)"

lemma net_inv_discard:
  assumes "net_inv st" and "f \<in> {ns_unexpected_source_packets_update ((+) 1),
      ns_malformed_packets_update ((+) 1), ns_ssrc_mismatch_packets_update ((+) 1),
      ns_duplicate_packets_update ((+) 1), ns_late_packets_update ((+) 1)}"
    and "seq_inv t" and "st_last t = st_last (na_sequence_tracker st)"
  shows "net_inv (count (f \<circ> ns_bytes_received_update ((+) (int n)) \<circ>
      ns_datagrams_received_update ((+) 1)) (st\<lparr>na_sequence_tracker := t\<rparr>))"
  using assms by (auto simp: net_inv_def Let_def count_def endpoint_ok_def)

lemma net_inv_ssrc:
  "net_inv st \<Longrightarrow> net_inv (count (ns_ssrc_update (\<lambda>_. ssrc)) (st\<lparr>na_expected_ssrc := ssrc\<rparr>))"
  by (simp add: net_inv_def Let_def count_def endpoint_ok_def)

lemma net_admit_None:
  assumes inv: "net_inv st" and adm: "net_admit datagram source st = (None, st1)"
  shows "net_inv st1 \<and> same_output st st1"
proof -
  have tr: "seq_inv (na_sequence_tracker st)" using inv by (simp add: net_inv_def Let_def)
  obtain f where "f \<in> {ns_unexpected_source_packets_update ((+) 1),
      ns_malformed_packets_update ((+) 1), ns_ssrc_mismatch_packets_update ((+) 1)}"
    and "st1 = count (f \<circ> ns_bytes_received_update ((+) (int (length datagram))) \<circ>
      ns_datagrams_received_update ((+) 1)) (st\<lparr>na_sequence_tracker := na_sequence_tracker st\<rparr>)"
    using adm by (auto simp: net_admit_def Let_def count_def split: option.splits if_splits sum.splits)
  then show ?thesis
    using net_inv_discard [OF inv _ tr] by (auto simp: same_output_def count_def)
qed

lemma net_admit_Some:
  assumes inv: "net_inv st" and adm: "net_admit datagram source st = (Some p, st1)"
  obtains "rtp_parse datagram (Some 0) = Inr p" and "Some source = na_expected_source st"
    and "na_expected_ssrc st \<in> {None, Some (rtp_ssrc p)}"
    and "st1 = count (ns_bytes_received_update ((+) (int (length datagram))) \<circ>
        ns_datagrams_received_update ((+) 1) \<circ> ns_ssrc_update (\<lambda>_. Some (rtp_ssrc p)))
      (st\<lparr>na_expected_ssrc := Some (rtp_ssrc p)\<rparr>)"
proof -
  have ssrc: "ns_ssrc (na_statistics st) = na_expected_ssrc st" using inv by (simp add: net_inv_def Let_def)
  have parse: "rtp_parse datagram (Some 0) = Inr p" "Some source = na_expected_source st"
    "na_expected_ssrc st \<in> {None, Some (rtp_ssrc p)}"
    using adm by (auto simp: net_admit_def Let_def count_def split: option.splits if_splits sum.splits)
  have "st1 = count (ns_bytes_received_update ((+) (int (length datagram))) \<circ>
        ns_datagrams_received_update ((+) 1) \<circ> ns_ssrc_update (\<lambda>_. Some (rtp_ssrc p)))
      (st\<lparr>na_expected_ssrc := Some (rtp_ssrc p)\<rparr>)"
    using adm parse ssrc by (auto simp: net_admit_def Let_def count_def split: if_splits)
  with parse show ?thesis by (rule that)
qed

lemma net_sequence_result:
  assumes inv: "seq_inv (na_sequence_tracker st)" and p: "0 \<le> rtp_sequence p" "rtp_sequence p < 65536"
  obtains (accepted) ob t where
      "seq_observe (rtp_sequence p) (na_sequence_tracker st) = Inr (ob, t)" and "so_accepted ob"
      and "net_sequence p st = Inr (Some ob,
        count (ns_packets_lost_update ((+) (so_missing ob)) \<circ>
          ns_sequence_gaps_update ((+) (if so_missing ob = 0 then 0 else 1)))
          (st\<lparr>na_sequence_tracker := t\<rparr>))"
  | (rejected) ob t f where
      "seq_observe (rtp_sequence p) (na_sequence_tracker st) = Inr (ob, t)" and "\<not> so_accepted ob"
      and "f \<in> {ns_duplicate_packets_update ((+) 1), ns_late_packets_update ((+) 1)}"
      and "net_sequence p st = Inr (None, count f (st\<lparr>na_sequence_tracker := t\<rparr>))"
proof -
  obtain ob t where obs: "seq_observe (rtp_sequence p) (na_sequence_tracker st) = Inr (ob, t)"
    using seq_observe_total [OF inv p] by blast
  note fl = seq_observe_flags [OF inv obs]
  show ?thesis
  proof (cases "so_accepted ob")
    case True
    have "net_sequence p st = Inr (Some ob,
        count (ns_packets_lost_update ((+) (so_missing ob)) \<circ>
          ns_sequence_gaps_update ((+) (if so_missing ob = 0 then 0 else 1)))
          (st\<lparr>na_sequence_tracker := t\<rparr>))"
      using True obs
      by (cases "na_statistics st") (auto simp: net_sequence_def Let_def so_accepted_def count_def)
    with obs True show ?thesis by (rule accepted)
  next
    case False
    have "\<exists>f \<in> {ns_duplicate_packets_update ((+) 1), ns_late_packets_update ((+) 1)}.
        net_sequence p st = Inr (None, count f (st\<lparr>na_sequence_tracker := t\<rparr>))"
      using False obs fl(2) by (auto simp: net_sequence_def Let_def so_accepted_def)
    then obtain f where "f \<in> {ns_duplicate_packets_update ((+) 1), ns_late_packets_update ((+) 1)}"
      and "net_sequence p st = Inr (None, count f (st\<lparr>na_sequence_tracker := t\<rparr>))" ..
    with obs False show ?thesis by (rule rejected)
  qed
qed

lemma net_timestamp_result:
  assumes "0 \<le> rtp_timestamp p" "rtp_timestamp p < 4294967296"
  obtains ob t b where
      "ts_observe (rtp_timestamp p) (int (length (rtp_payload p))) (na_timestamp_tracker st) = Inr (ob, t)"
      and "tt_last t = Some (rtp_timestamp p)" and "b \<in> {0, 1}"
      and "net_timestamp p st = Inr (ob,
        count (ns_timestamp_samples_missing_update ((+) (to_missing_samples ob)) \<circ>
          ns_timestamp_backwards_update ((+) b) \<circ>
          ns_timestamp_discontinuities_update ((+) (if to_missing_samples ob = 0 then b else 1)))
          (st\<lparr>na_timestamp_tracker := t\<rparr>))"
proof -
  obtain ob t where obs: "ts_observe (rtp_timestamp p) (int (length (rtp_payload p)))
      (na_timestamp_tracker st) = Inr (ob, t)" and last: "tt_last t = Some (rtp_timestamp p)"
    using ts_observe_total [OF assms, of "int (length (rtp_payload p))"] by fastforce
  define b :: int where "b = (if to_missing_samples ob = 0 \<and> to_backwards ob then 1 else 0)"
  have "net_timestamp p st = Inr (ob,
        count (ns_timestamp_samples_missing_update ((+) (to_missing_samples ob)) \<circ>
          ns_timestamp_backwards_update ((+) b) \<circ>
          ns_timestamp_discontinuities_update ((+) (if to_missing_samples ob = 0 then b else 1)))
          (st\<lparr>na_timestamp_tracker := t\<rparr>))"
    using obs by (cases "na_statistics st") (auto simp: net_timestamp_def Let_def count_def b_def)
  with obs last show ?thesis by (intro that [of ob t b]) (auto simp: b_def)
qed

lemma sequence_span_extend:
  assumes inv: "seq_inv t0" and obs: "seq_observe s t0 = Inr (ob, t)" and acc: "so_accepted ob"
    and span: "sequence_span fs (st_last t0) d n"
  shows "st_last t = Some s"
    and "sequence_span (case fs of None \<Rightarrow> Some s | Some f \<Rightarrow> Some f) (Some s) (d + 1) (so_missing ob + n)"
proof -
  have *: "st_last t = Some s \<and>
    sequence_span (case fs of None \<Rightarrow> Some s | Some f \<Rightarrow> Some f) (Some s) (d + 1) (so_missing ob + n)"
  proof (cases "st_last t0")
    case None
    with seq_observe_None [OF None obs] span seq_observe_inv(2,3) [OF inv obs] show ?thesis
      by (auto simp: sequence_span_def split: option.splits)
  next
    case (Some l)
    from span Some obtain f where f: "fs = Some f" "1 \<le> d" "l = (f + (d - 1) + n) mod 65536"
      by (auto simp: sequence_span_def split: option.splits)
    have "s = (l + so_missing ob + 1) mod 65536" "st_last t = Some s"
      using seq_observe_Some(6) [OF Some obs acc] by auto
    moreover from this f(3) have "s = ((f + (d - 1) + n) mod 65536 + (so_missing ob + 1)) mod 65536"
      by (simp only: add.assoc)
    then have "s = (f + (d - 1) + n + (so_missing ob + 1)) mod 65536"
      by (simp only: mod_add_left_eq)
    moreover have "f + (d - 1) + n + (so_missing ob + 1) = f + (d + 1 - 1) + (so_missing ob + n)"
      by simp
    ultimately have "s = (f + (d + 1 - 1) + (so_missing ob + n)) mod 65536" "st_last t = Some s"
      by simp_all
    then show ?thesis using f(1,2) by (simp add: sequence_span_def)
  qed
  then show "st_last t = Some s"
    and "sequence_span (case fs of None \<Rightarrow> Some s | Some f \<Rightarrow> Some f) (Some s) (d + 1) (so_missing ob + n)"
    by blast+
qed

text \<open>What one delivered packet adds to the session. Its sequence number follows the last
  delivered one after exactly the packets it reports missing.\<close>

definition follows :: "int option \<Rightarrow> pcmu_packet \<Rightarrow> bool" where
  "follows previous pk \<longleftrightarrow>
     (case previous of
        None \<Rightarrow> pk_missing_packets pk = 0
      | Some l \<Rightarrow> pk_sequence pk = (l + pk_missing_packets pk + 1) mod 65536)"

lemma follows_observed:
  assumes "seq_observe s t = Inr (ob, t')" and "so_accepted ob"
    and "pk_sequence pk = s" and "pk_missing_packets pk = so_missing ob"
  shows "follows (st_last t) pk"
proof (cases "st_last t")
  case None
  with seq_observe_None [OF None assms(1)] assms show ?thesis by (simp add: follows_def)
next
  case (Some l)
  with seq_observe_Some(6) [OF Some assms(1,2)] assms show ?thesis by (simp add: follows_def)
qed

definition delivered_as ::
  "net_audio \<Rightarrow> pcmu_packet \<times> audio_chunk option \<Rightarrow> net_audio \<Rightarrow> bool" where
  "delivered_as st out st1 \<longleftrightarrow>
     (case out of (pk, chunk) \<Rightarrow>
        pcmu_packet_ok pk \<and> pk_endpoint pk = na_endpoint st \<and>
        pk_missing_packets pk < 2 ^ 15 \<and> pk_missing_samples pk < 2 ^ 31 \<and>
        na_expected_ssrc st1 = Some (pk_ssrc pk) \<and>
        na_has_handler st1 = na_has_handler st \<and> na_endpoint st1 = na_endpoint st \<and>
        map_option ac_data chunk = (if na_has_handler st then Some (pk_payload pk) else None) \<and>
        ns_last_sequence (na_statistics st1) = Some (pk_sequence pk) \<and>
        follows (ns_last_sequence (na_statistics st)) pk \<and>
        ns_packets_delivered (na_statistics st1) = ns_packets_delivered (na_statistics st) + 1 \<and>
        ns_packets_lost (na_statistics st1) = ns_packets_lost (na_statistics st) + pk_missing_packets pk \<and>
        ns_payload_bytes_delivered (na_statistics st1) =
          ns_payload_bytes_delivered (na_statistics st) + int (length (pk_payload pk)) \<and>
        (na_expected_ssrc st \<noteq> None \<longrightarrow> na_expected_ssrc st1 = na_expected_ssrc st))"

lemma net_deliver_result:
  assumes ok: "pcmu_packet_ok \<lparr>pk_endpoint = na_endpoint st, pk_sequence = rtp_sequence p,
            pk_timestamp = rtp_timestamp p, pk_ssrc = rtp_ssrc p,
            pk_payload = rtp_payload p, pk_observed_at = observed_at,
            pk_marker = rtp_marker p, pk_expected_sequence = so_expected ob,
            pk_missing_packets = so_missing ob, pk_expected_timestamp = to_expected tob,
            pk_missing_samples = to_missing_samples tob,
            pk_timestamp_backwards = to_backwards tob\<rparr>"
  obtains pk chunk k where "net_deliver p ob tob observed_at outcome st = Inr ((pk, chunk),
        count (\<lambda>s. s\<lparr>
            ns_packets_delivered := ns_packets_delivered s + 1,
            ns_payload_bytes_delivered := ns_payload_bytes_delivered s + int (length (rtp_payload p)),
            ns_first_sequence :=
              (case ns_first_sequence s of None \<Rightarrow> Some (rtp_sequence p) | Some f \<Rightarrow> Some f),
            ns_last_sequence := Some (rtp_sequence p),
            ns_last_timestamp := Some (rtp_timestamp p),
            ns_callback_errors := ns_callback_errors s + k\<rparr>) st)"
    and "pcmu_packet_ok pk" and "pk_endpoint pk = na_endpoint st" and "pk_sequence pk = rtp_sequence p"
    and "pk_ssrc pk = rtp_ssrc p" and "pk_payload pk = rtp_payload p"
    and "pk_missing_packets pk = so_missing ob" and "pk_missing_samples pk = to_missing_samples tob"
    and "map_option ac_data chunk = (if na_has_handler st then Some (rtp_payload p) else None)"
proof -
  define pk where "pk = \<lparr>pk_endpoint = na_endpoint st, pk_sequence = rtp_sequence p,
            pk_timestamp = rtp_timestamp p, pk_ssrc = rtp_ssrc p,
            pk_payload = rtp_payload p, pk_observed_at = observed_at,
            pk_marker = rtp_marker p, pk_expected_sequence = so_expected ob,
            pk_missing_packets = so_missing ob, pk_expected_timestamp = to_expected tob,
            pk_missing_samples = to_missing_samples tob,
            pk_timestamp_backwards = to_backwards tob\<rparr>"
  have con: "pcmu_packet pk = Inr pk" using ok by (simp add: pcmu_packet_Inr_iff pk_def)
  define chunk where "chunk = (if na_has_handler st
    then Some \<lparr>ac_data = rtp_payload p, ac_received_at = observed_at\<rparr> else None)"
  define k :: int where "k = (if na_has_handler st \<and> outcome = HandlerRaised then 1 else 0)"
  show ?thesis
    by (rule that [of pk chunk k])
      (use con ok in \<open>auto simp: net_deliver_def Let_def count_def chunk_def k_def
          simp flip: pk_def split: handler_outcome.splits\<close>,
       simp_all add: pk_def)
qed

lemma seq_observe_missing:
  "seq_observe s t = Inr (ob, t') \<Longrightarrow> so_missing ob < 32768"
  by (auto simp: seq_observe_def Let_def res_simps split: option.splits if_splits)

lemma seq_observe_rejected:
  assumes "seq_observe s t = Inr (ob, t')" and "\<not> so_accepted ob"
  shows "st_last t' = st_last t"
proof (cases "st_last t")
  case None
  with seq_observe_None [OF None assms(1)] assms(2) show ?thesis by simp
next
  case (Some l)
  with seq_observe_Some(5) [OF Some assms] show ?thesis by simp
qed

lemma emitted_packet_ok:
  assumes "endpoint_ok st" and "rtp_parse datagram e = Inr p" and "seq_inv t"
    and "seq_observe (rtp_sequence p) t = Inr (ob, t')"
    and "ts_observe (rtp_timestamp p) n tt = Inr (tob, tt')"
  shows "pcmu_packet_ok \<lparr>pk_endpoint = na_endpoint st, pk_sequence = rtp_sequence p,
            pk_timestamp = rtp_timestamp p, pk_ssrc = rtp_ssrc p,
            pk_payload = rtp_payload p, pk_observed_at = Aware us,
            pk_marker = rtp_marker p, pk_expected_sequence = so_expected ob,
            pk_missing_packets = so_missing ob, pk_expected_timestamp = to_expected tob,
            pk_missing_samples = to_missing_samples tob,
            pk_timestamp_backwards = to_backwards tob\<rparr>"
proof -
  note pr = rtp_parse_ranges [OF assms(2)]
  note so = seq_observe_flags [OF assms(3,4)]
  note ts = ts_observe_bounds [OF assms(5)]
  have "so_expected ob = None \<Longrightarrow> so_missing ob = 0" using so(2) by blast
  moreover have "to_expected tob = None \<Longrightarrow> to_missing_samples tob = 0 \<and> \<not> to_backwards tob"
    using ts(4) by blast
  ultimately show ?thesis
    using assms(1) pr(1-6) so(1,3) ts(1,3,5)
    by (simp add: pcmu_packet_ok_def endpoint_ok_def pk_timestamp_discontinuity_def)
qed

text \<open>A packet that passes admission but not the sequence tracker.\<close>

lemma net_inv_rejected:
  assumes inv: "net_inv st" and obs: "seq_observe sq (na_sequence_tracker st) = Inr (ob, t)"
    and rej: "\<not> so_accepted ob"
    and f: "f \<in> {ns_duplicate_packets_update ((+) 1), ns_late_packets_update ((+) 1)}"
    and ssrc: "na_expected_ssrc st \<in> {None, Some r}"
    and st2: "st2 = count f ((count (ns_bytes_received_update ((+) (int n)) \<circ>
        ns_datagrams_received_update ((+) 1) \<circ> ns_ssrc_update (\<lambda>_. Some r))
        (st\<lparr>na_expected_ssrc := Some r\<rparr>))\<lparr>na_sequence_tracker := t\<rparr>)"
  shows "net_inv st2 \<and> same_output st st2"
proof -
  have tr: "seq_inv (na_sequence_tracker st)" using inv by (simp add: net_inv_def Let_def)
  have "net_inv (count (f \<circ> ns_bytes_received_update ((+) (int n)) \<circ>
      ns_datagrams_received_update ((+) 1)) (st\<lparr>na_sequence_tracker := t\<rparr>))"
    using f by (intro net_inv_discard [OF inv _ seq_observe_inv(1) [OF tr obs]
          seq_observe_rejected [OF obs rej]]) auto
  from net_inv_ssrc [OF this, of "Some r"] have "net_inv st2"
    using f by (auto simp: st2 count_def net_inv_def Let_def endpoint_ok_def)
  moreover have "same_output st st2" using f ssrc by (auto simp: st2 count_def same_output_def)
  ultimately show ?thesis ..
qed

text \<open>An accepted packet, with everything its delivery changes.\<close>

definition accepted_state ::
  "int \<Rightarrow> rtp_packet \<Rightarrow> int \<Rightarrow> int \<Rightarrow> int \<Rightarrow> int \<Rightarrow> int \<Rightarrow> int \<Rightarrow> seq_tracker \<Rightarrow> ts_tracker \<Rightarrow> net_audio \<Rightarrow> net_audio" where
  "accepted_state n p m g ms b td k t tt st =
     count (\<lambda>s. s\<lparr>
        ns_datagrams_received := 1 + ns_datagrams_received s,
        ns_bytes_received := n + ns_bytes_received s,
        ns_ssrc := Some (rtp_ssrc p),
        ns_packets_lost := m + ns_packets_lost s,
        ns_sequence_gaps := g + ns_sequence_gaps s,
        ns_timestamp_samples_missing := ms + ns_timestamp_samples_missing s,
        ns_timestamp_backwards := b + ns_timestamp_backwards s,
        ns_timestamp_discontinuities := td + ns_timestamp_discontinuities s,
        ns_packets_delivered := ns_packets_delivered s + 1,
        ns_payload_bytes_delivered := ns_payload_bytes_delivered s + int (length (rtp_payload p)),
        ns_first_sequence :=
          (case ns_first_sequence s of None \<Rightarrow> Some (rtp_sequence p) | Some f \<Rightarrow> Some f),
        ns_last_sequence := Some (rtp_sequence p),
        ns_last_timestamp := Some (rtp_timestamp p),
        ns_callback_errors := ns_callback_errors s + k\<rparr>)
      (st\<lparr>na_expected_ssrc := Some (rtp_ssrc p), na_sequence_tracker := t,
          na_timestamp_tracker := tt\<rparr>)"

lemma net_inv_accepted:
  assumes inv: "net_inv st" and obs: "seq_observe (rtp_sequence p) (na_sequence_tracker st) = Inr (ob, t)"
    and acc: "so_accepted ob" and tt: "tt_last tt = Some (rtp_timestamp p)"
    and n: "int (length (rtp_payload p)) \<le> n" and m: "m = so_missing ob"
    and g: "g = (if m = 0 then 0 else 1)" and b: "b \<in> {0, 1}" and td: "b \<le> td"
  shows "net_inv (accepted_state n p m g ms b td k t tt st)"
proof -
  have tr: "seq_inv (na_sequence_tracker st)" using inv by (simp add: net_inv_def Let_def)
  note span = sequence_span_extend [OF tr obs acc, of "ns_first_sequence (na_statistics st)"
      "ns_packets_delivered (na_statistics st)" "ns_packets_lost (na_statistics st)"]
  have "0 \<le> m" using seq_observe_flags(1) [OF tr obs] m by simp
  then have "0 \<le> g" "g \<le> m" using g by auto
  then show ?thesis
    using inv span tt n m b td seq_observe_inv(1) [OF tr obs]
    by (simp add: net_inv_def Let_def accepted_state_def count_def endpoint_ok_def) auto
qed

lemma net_datagram_step:
  assumes inv: "net_inv st"
  obtains out st1 where
      "net_datagram datagram source (Aware us) outcome st = Inr (out, st1)"
    and "net_inv st1"
    and "na_has_handler st1 = na_has_handler st" and "na_expected_source st1 = na_expected_source st"
    and "case out of None \<Rightarrow> same_output st st1
      | Some d \<Rightarrow> Some source = na_expected_source st \<and> delivered_as st d st1"
proof (cases "net_admit datagram source st")
  case (Pair r st1)
  show ?thesis
  proof (cases r)
    case None
    with Pair have adm: "net_admit datagram source st = (None, st1)" by simp
    with net_admit_None [OF inv adm] show ?thesis
      by (intro that [of None st1]) (auto simp: net_datagram_def same_output_def)
  next
    case (Some p)
    with Pair have adm: "net_admit datagram source st = (Some p, st1)" by simp
    from net_admit_Some [OF inv adm] have parse: "rtp_parse datagram (Some 0) = Inr p"
      and src: "Some source = na_expected_source st"
      and ssrc: "na_expected_ssrc st \<in> {None, Some (rtp_ssrc p)}"
      and st1: "st1 = count (ns_bytes_received_update ((+) (int (length datagram))) \<circ>
          ns_datagrams_received_update ((+) 1) \<circ> ns_ssrc_update (\<lambda>_. Some (rtp_ssrc p)))
        (st\<lparr>na_expected_ssrc := Some (rtp_ssrc p)\<rparr>)" by metis+
    note pr = rtp_parse_ranges [OF parse]
    have tr: "seq_inv (na_sequence_tracker st)" "na_sequence_tracker st1 = na_sequence_tracker st"
      using inv by (simp_all add: net_inv_def Let_def st1 count_def)
    have tr1: "seq_inv (na_sequence_tracker st1)" using tr by simp
    from tr1 pr(1,2) show ?thesis
    proof (cases rule: net_sequence_result)
      case (rejected ob t f)
      define st2 where "st2 = count f (st1\<lparr>na_sequence_tracker := t\<rparr>)"
      from net_inv_rejected [OF inv rejected(1) [unfolded tr(2)] rejected(2,3) ssrc, of st2]
      have "net_inv st2 \<and> same_output st st2" by (simp add: st2_def st1)
      with rejected(4) adm show ?thesis
        by (intro that [of None st2]) (auto simp: net_datagram_def st2_def same_output_def)
    next
      case (accepted ob t)
      define st2 where "st2 = count (ns_packets_lost_update ((+) (so_missing ob)) \<circ>
          ns_sequence_gaps_update ((+) (if so_missing ob = 0 then 0 else 1)))
          (st1\<lparr>na_sequence_tracker := t\<rparr>)"
      obtain tob tt b where tso: "ts_observe (rtp_timestamp p) (int (length (rtp_payload p)))
          (na_timestamp_tracker st2) = Inr (tob, tt)" "tt_last tt = Some (rtp_timestamp p)"
        and b: "b \<in> {0, 1}"
        and ts: "net_timestamp p st2 = Inr (tob,
          count (ns_timestamp_samples_missing_update ((+) (to_missing_samples tob)) \<circ>
            ns_timestamp_backwards_update ((+) b) \<circ>
            ns_timestamp_discontinuities_update ((+) (if to_missing_samples tob = 0 then b else 1)))
          (st2\<lparr>na_timestamp_tracker := tt\<rparr>))"
        using net_timestamp_result [OF pr(3,4)] by blast
      define st3 where "st3 = count (ns_timestamp_samples_missing_update ((+) (to_missing_samples tob)) \<circ>
            ns_timestamp_backwards_update ((+) b) \<circ>
            ns_timestamp_discontinuities_update ((+) (if to_missing_samples tob = 0 then b else 1)))
          (st2\<lparr>na_timestamp_tracker := tt\<rparr>)"
      have same3: "na_endpoint st3 = na_endpoint st" "na_has_handler st3 = na_has_handler st"
        by (simp_all add: st3_def st2_def st1 count_def)
      have "endpoint_ok st3" using inv same3 by (simp add: net_inv_def Let_def endpoint_ok_def)
      from net_deliver_result [OF emitted_packet_ok [OF this parse tr1 accepted(1) tso(1)]]
      obtain pk chunk k where del: "net_deliver p ob tob (Aware us) outcome st3 = Inr ((pk, chunk),
          count (\<lambda>s. s\<lparr>
            ns_packets_delivered := ns_packets_delivered s + 1,
            ns_payload_bytes_delivered := ns_payload_bytes_delivered s + int (length (rtp_payload p)),
            ns_first_sequence :=
              (case ns_first_sequence s of None \<Rightarrow> Some (rtp_sequence p) | Some f \<Rightarrow> Some f),
            ns_last_sequence := Some (rtp_sequence p),
            ns_last_timestamp := Some (rtp_timestamp p),
            ns_callback_errors := ns_callback_errors s + k\<rparr>) st3)"
        and pk: "pcmu_packet_ok pk" "pk_endpoint pk = na_endpoint st3" "pk_sequence pk = rtp_sequence p"
          "pk_ssrc pk = rtp_ssrc p" "pk_payload pk = rtp_payload p" "pk_missing_packets pk = so_missing ob"
          "pk_missing_samples pk = to_missing_samples tob"
          "map_option ac_data chunk = (if na_has_handler st3 then Some (rtp_payload p) else None)"
        by blast
      define st4 where "st4 = accepted_state (int (length datagram)) p (so_missing ob)
        (if so_missing ob = 0 then 0 else 1) (to_missing_samples tob) b
        (if to_missing_samples tob = 0 then b else 1) k t tt st"
      have run: "net_datagram datagram source (Aware us) outcome st = Inr (Some (pk, chunk), st4)"
        using adm accepted(3) ts del
        by (simp add: net_datagram_def st4_def accepted_state_def count_def st3_def st2_def st1)
      have "net_inv st4"
        unfolding st4_def
        using b pr(7) by (intro net_inv_accepted [OF inv accepted(1) [unfolded tr(2)] accepted(2) tso(2)]) auto
      moreover have "follows (ns_last_sequence (na_statistics st)) pk"
        using follows_observed [OF accepted(1) [unfolded tr(2)] accepted(2) pk(3,6)] inv
        by (simp add: net_inv_def Let_def)
      then have "delivered_as st (pk, chunk) st4"
        using pk same3 ssrc seq_observe_missing [OF accepted(1)] ts_observe_bounds(2) [OF tso(1)]
        by (auto simp: delivered_as_def st4_def accepted_state_def count_def)
      moreover have "na_has_handler st4 = na_has_handler st"
        "na_expected_source st4 = na_expected_source st"
        by (simp_all add: st4_def accepted_state_def count_def)
      ultimately show ?thesis
        using src by (intro that [OF run]) simp_all
    qed
  qed
qed

section \<open>Whole sessions\<close>

fun clock_ok :: "socket_event \<Rightarrow> bool" where
  "clock_ok (RecvDatagram datagram source stopping (Naive us) outcome) = False"
| "clock_ok _ = True"

fun continuous :: "int option \<Rightarrow> pcmu_packet list \<Rightarrow> bool" where
  "continuous previous [] = True"
| "continuous previous (pk # pks) = (follows previous pk \<and> continuous (Some (pk_sequence pk)) pks)"

text \<open>What a run from one state to another has emitted.\<close>

definition emitted ::
  "net_audio \<Rightarrow> (pcmu_packet \<times> audio_chunk option) list \<Rightarrow> net_audio \<Rightarrow> bool" where
  "emitted st outs st1 \<longleftrightarrow>
     (let s = na_statistics st; s1 = na_statistics st1; pks = map fst outs in
      na_has_handler st1 = na_has_handler st \<and> na_endpoint st1 = na_endpoint st \<and>
      ns_packets_delivered s1 = ns_packets_delivered s + int (length pks) \<and>
      ns_packets_lost s1 = ns_packets_lost s + (\<Sum>pk \<leftarrow> pks. pk_missing_packets pk) \<and>
      ns_payload_bytes_delivered s1 =
        ns_payload_bytes_delivered s + (\<Sum>pk \<leftarrow> pks. int (length (pk_payload pk))) \<and>
      continuous (ns_last_sequence s) pks \<and>
      (na_expected_ssrc st \<noteq> None \<longrightarrow> na_expected_ssrc st1 = na_expected_ssrc st) \<and>
      (\<forall>(pk, chunk) \<in> set outs. pcmu_packet_ok pk \<and> na_expected_ssrc st1 = Some (pk_ssrc pk) \<and>
         pk_endpoint pk = na_endpoint st \<and> pk_missing_packets pk < 2 ^ 15 \<and>
         pk_missing_samples pk < 2 ^ 31 \<and>
         map_option ac_data chunk = (if na_has_handler st then Some (pk_payload pk) else None)))"

lemma emitted_same_output: "same_output st st1 \<Longrightarrow> emitted st1 outs st2 \<Longrightarrow> emitted st outs st2"
  by (auto simp: same_output_def emitted_def Let_def)

lemma emitted_delivered:
  assumes "delivered_as st d st1" and "emitted st1 outs st2" shows "emitted st (d # outs) st2"
proof -
  obtain pk chunk where d: "d = (pk, chunk)" by (cases d)
  with assms show ?thesis
    by (auto simp: delivered_as_def emitted_def Let_def)
qed

lemma same_output_refl: "same_output st st"
  by (simp add: same_output_def)

lemma net_receive_step:
  assumes inv: "net_inv st" and clock: "clock_ok ev"
  obtains out st1 where "net_receive ev st = Inr (out, st1)" and "net_inv st1"
    and "case out of None \<Rightarrow> same_output st st1 | Some d \<Rightarrow> delivered_as st d st1"
proof (cases "\<exists>datagram source us outcome. ev = RecvDatagram datagram source False (Aware us) outcome \<and>
    datagram \<noteq> [] \<and> na_receiving st")
  case True
  then obtain datagram source us outcome
    where ev: "ev = RecvDatagram datagram source False (Aware us) outcome" "datagram \<noteq> []"
      "na_receiving st" by blast
  obtain out st1 where "net_datagram datagram source (Aware us) outcome st = Inr (out, st1)"
    "net_inv st1" "case out of None \<Rightarrow> same_output st st1
      | Some d \<Rightarrow> Some source = na_expected_source st \<and> delivered_as st d st1"
    using net_datagram_step [OF inv] by blast
  with ev show ?thesis
    by (intro that [of out st1]) (auto simp: net_receive_def split: option.splits)
next
  case False
  have "\<exists>st1. net_receive ev st = Inr (None, st1) \<and> net_inv st1 \<and> same_output st st1"
  proof (cases ev)
    case RecvTimeout
    then show ?thesis using inv by (simp add: net_receive_def same_output_refl)
  next
    case (RecvError stopping)
    then show ?thesis using inv
      by (auto simp: net_receive_def same_output_def count_def net_inv_def Let_def endpoint_ok_def)
  next
    case (RecvDatagram datagram source stopping time outcome)
    then show ?thesis using False clock inv
      by (cases time) (auto simp: net_receive_def same_output_refl)
  qed
  then show ?thesis using that [of None] by auto
qed

lemma net_run_step:
  assumes "net_inv st" and "list_all clock_ok evs"
  shows "\<exists>outs st1. net_run evs st = Inr (outs, st1) \<and> net_inv st1 \<and> emitted st outs st1"
  using assms
proof (induction evs arbitrary: st)
  case Nil
  then show ?case by (auto simp: emitted_def Let_def)
next
  case (Cons ev evs)
  obtain out st1 where 1: "net_receive ev st = Inr (out, st1)" "net_inv st1"
    "case out of None \<Rightarrow> same_output st st1 | Some d \<Rightarrow> delivered_as st d st1"
    using net_receive_step [OF Cons.prems(1)] Cons.prems(2) by auto
  obtain outs st2 where 2: "net_run evs st1 = Inr (outs, st2)" "net_inv st2" "emitted st1 outs st2"
    using Cons.IH [OF 1(2)] Cons.prems(2) by auto
  from 1 2 show ?case
    by (auto split: option.splits intro: emitted_same_output emitted_delivered)
qed

lemma net_start_inv:
  assumes "net_idle st" and "net_start (Some port) (Some info) st = (None, st0)"
  shows "net_inv st0" and "na_statistics st0 = net_statistics_init\<lparr>ns_sessions_started := 1,
      ns_ssrc := ti_ssrc info\<rparr>"
    and "na_has_handler st0" and "na_expected_ssrc st0 = ti_ssrc info"
    and "na_expected_source st0 = Some (ti_source info, ti_server_port info)"
  using assms
  by (auto simp: net_start_def net_idle_def Let_def count_def net_inv_def net_statistics_init_def
      endpoint_ok_def sequence_span_def seq_inv_def seq_reset_def ts_reset_def split: if_splits)

lemma net_init_idle:
  assumes "net_init inet_aton host port path local_host local_port t1 t2 t3 = Inr st"
  shows "net_idle st"
proof -
  have "\<not> py_isspace 114" by (simp add: py_isspace_def)
  with assms show ?thesis
    by (auto simp: net_init_def net_idle_def endpoint_ok_def net_endpoint_def Let_def res_simps seq_inv_def)
qed

lemma net_stop_idle: "net_inv st \<Longrightarrow> net_idle (net_stop torn_down st)"
  by (auto simp: net_stop_def net_idle_def net_inv_def endpoint_ok_def Let_def count_def seq_reset_def
      seq_inv_def)

section \<open>Properties\<close>

definition sample_datagram :: "byte \<Rightarrow> byte list" where
  "sample_datagram n = [0x80, 0, 0, n, 0, 0, 0, 0, 0, 0, 0, 9, 0xAA]"

definition sample_events :: "socket_event list" where
  "sample_events = [RecvTimeout,
     RecvDatagram (sample_datagram 1) ([49], 5) False (Aware 0) HandlerReturned,
     RecvDatagram (sample_datagram 1) ([49], 5) False (Aware 1) HandlerReturned,
     RecvDatagram (sample_datagram 4) ([49], 5) False (Aware 2) HandlerRaised,
     RecvDatagram [1, 2] ([50], 5) False (Aware 3) HandlerReturned,
     RecvDatagram [1, 2] ([49], 5) False (Aware 4) HandlerReturned]"

definition sample_session :: net_audio where
  "sample_session = \<lparr>na_endpoint = net_endpoint [49] 554 [47], na_running = False,
     na_receiving = False, na_has_handler = False, na_statistics = net_statistics_init,
     na_sequence_tracker = \<lparr>st_history_size = 128, st_last = None, st_recent = [], st_seen = {}\<rparr>,
     na_timestamp_tracker = ts_init, na_expected_source = None, na_expected_ssrc = None\<rparr>"

definition sample_info :: rtp_transport_info where
  "sample_info = \<lparr>ti_source = [49], ti_server_port = 5, ti_ssrc = None\<rparr>"

lemma sample_session_idle: "net_idle sample_session"
  using net_init_idle [of "\<lambda>_. None" "[49]" 554 "[47]" None 0 1 1 1]
  by (simp add: net_init_def sample_session_def normalize_bind_address_def py_strip_def py_isspace_def)

lemma sample_parse:
  "rtp_parse [0x80, 0, 0, n, 0, 0, 0, 0, 0, 0, 0, 9, 0xAA] (Some 0) =
     Inr \<lparr>rtp_marker = False, rtp_payload_type = 0, rtp_sequence = uint n, rtp_timestamp = 0,
       rtp_ssrc = 9, rtp_csrc = [], rtp_extension_profile = None, rtp_extension_data = None,
       rtp_payload = [0xAA], rtp_padding_size = 0\<rparr>"
  by (simp add: rtp_parse_def rtp_parse_csrc_def rtp_parse_extension_def rtp_parse_padding_def
      py_slice_def from_bytes_be_def Let_def)

lemma sample_parse_short: "rtp_parse [a, b] e = Inl (RtpTooShort 2)"
  by (simp add: rtp_parse_def)

text \<open>C1: The receiver loop survives any input. From a started session, whatever the socket
  yields (time-outs, errors, datagrams of any content and source, in any order, and whether the
  audio handler raises or not), no check of the trackers or of the packet constructor raises; every
  packet emitted satisfies the packet's field contract, all of them carry the session's one SSRC
  (the negotiated one, if any), and the audio handler gets exactly their payloads.\<close>

theorem net_receiver_never_fails:
  assumes "net_idle st" and "net_start (Some port) (Some info) st = (None, st0)"
    and "list_all clock_ok evs"
  shows "\<exists>outs st1. net_run evs st0 = Inr (outs, st1) \<and>
    (\<forall>(pk, chunk) \<in> set outs. pcmu_packet_ok pk \<and> map_option ac_data chunk = Some (pk_payload pk) \<and>
       na_expected_ssrc st1 = Some (pk_ssrc pk) \<and>
       (ti_ssrc info = None \<or> ti_ssrc info = Some (pk_ssrc pk)))"
proof -
  note st0 = net_start_inv [OF assms(1,2)]
  obtain outs st1 where "net_run evs st0 = Inr (outs, st1)" "emitted st0 outs st1"
    using net_run_step [OF st0(1) assms(3)] by blast
  then show ?thesis
    using st0(3,4) by (force simp: emitted_def Let_def)
qed

lemma net_receiver_never_fails_witness:
  "\<exists>outs st1. net_run sample_events (snd (net_start (Some 5000) (Some sample_info) sample_session)) =
      Inr (outs, st1)"
proof -
  have start: "net_start (Some 5000) (Some sample_info) sample_session =
      (None, snd (net_start (Some 5000) (Some sample_info) sample_session))"
    by (simp add: net_start_def sample_session_def sample_info_def)
  have "list_all clock_ok sample_events" by (simp add: sample_events_def)
  from net_receiver_never_fails [OF sample_session_idle start this] show ?thesis by blast
qed

text \<open>C24: Session accounting. After any socket events, every non-empty datagram received is counted
  in exactly one of delivered, duplicate, late, malformed, unexpected source and SSRC mismatch; the
  counters of packets, lost packets and payload bytes are those of the packets emitted; and each
  emitted packet's sequence number is that of the one before, plus the packets it reports missing,
  plus one, modulo 65536, so subscribers see every gap.\<close>

theorem net_session_accounting:
  assumes "net_idle st" and "net_start (Some port) (Some info) st = (None, st0)"
    and "list_all clock_ok evs" and "net_run evs st0 = Inr (outs, st1)"
  shows "let s = na_statistics st1; pks = map fst outs in
    ns_datagrams_received s =
      ns_packets_delivered s + ns_duplicate_packets s + ns_late_packets s +
      ns_malformed_packets s + ns_unexpected_source_packets s + ns_ssrc_mismatch_packets s \<and>
    ns_packets_delivered s = int (length pks) \<and>
    ns_packets_lost s = (\<Sum>pk \<leftarrow> pks. pk_missing_packets pk) \<and>
    ns_payload_bytes_delivered s = (\<Sum>pk \<leftarrow> pks. int (length (pk_payload pk))) \<and>
    ns_payload_bytes_delivered s \<le> ns_bytes_received s \<and>
    continuous None pks"
proof -
  note st0 = net_start_inv [OF assms(1,2)]
  have "net_inv st1" "emitted st0 outs st1"
    using net_run_step [OF st0(1) assms(3)] assms(4) by auto
  then show ?thesis
    by (simp add: net_inv_def emitted_def Let_def st0(2) net_statistics_init_def)
qed

lemma net_session_accounting_witness:
  "\<exists>outs st1. net_run sample_events (snd (net_start (Some 5000) (Some sample_info) sample_session)) =
      Inr (outs, st1) \<and> ns_datagrams_received (na_statistics st1) = 5 \<and>
    map (pk_sequence \<circ> fst) outs = [1, 4] \<and> ns_packets_lost (na_statistics st1) = 2 \<and>
    ns_packets_delivered (na_statistics st1) = 2"
proof -
  have start: "net_start (Some 5000) (Some sample_info) sample_session =
      (None, snd (net_start (Some 5000) (Some sample_info) sample_session))"
    by (simp add: net_start_def sample_session_def sample_info_def)
  have clock: "list_all clock_ok sample_events" by (simp add: sample_events_def)
  note eval = net_receive_def net_datagram_def net_admit_def net_sequence_def net_timestamp_def
    net_deliver_def count_def net_start_def sample_session_def sample_info_def sample_events_def
    seq_reset_def ts_reset_def ts_init_def Let_def seq_observe_def seq_remember_def ts_observe_def
    net_statistics_init_def sample_parse sample_parse_short sample_datagram_def
    pcmu_packet_def require_integer_def require_optional_integer_def net_endpoint_def py_strip_def
    py_isspace_def
  have "case net_run sample_events (snd (net_start (Some 5000) (Some sample_info) sample_session)) of
      Inl _ \<Rightarrow> False
    | Inr (outs, st1) \<Rightarrow> ns_datagrams_received (na_statistics st1) = 5 \<and>
        map (pk_sequence \<circ> fst) outs = [1, 4] \<and> ns_packets_lost (na_statistics st1) = 2"
    by (simp add: eval)
  then obtain outs st1 where run: "net_run sample_events
      (snd (net_start (Some 5000) (Some sample_info) sample_session)) = Inr (outs, st1)"
    and vals: "ns_datagrams_received (na_statistics st1) = 5"
      "map (pk_sequence \<circ> fst) outs = [1, 4]" "ns_packets_lost (na_statistics st1) = 2"
    by (auto split: sum.splits)
  from vals(2) have "length outs = 2"
    using length_map [of "pk_sequence \<circ> fst" outs] by simp
  with net_session_accounting [OF sample_session_idle start clock run] vals have
    "ns_packets_delivered (na_statistics st1) = 2"
    by (simp add: Let_def)
  with run vals show ?thesis by metis
qed

end
