(* ===== verification/Pcmu_Protocol.thy ===== *)
theory Pcmu_Protocol
  imports Pcmu
begin

unbundle bit_operations_syntax

text \<open>
  \<^verbatim>\<open>src/sds200/pcmu_protocol.py\<close> and the value classes of \<^verbatim>\<open>src/sds200/pcmu_subscriptions.py\<close>:
  the versioned binary frame that carries one subscription delivery over the local PCMU socket.
  The fixed 82-byte header is a record of its fields; packing and unpacking it is
  \<open>struct.Struct("!4sBBHIQqHIIHIIIQQQHI")\<close>: every field big-endian, of its own width, the
  observation time in two's complement, and \<open>struct.error\<close> for a value out of range.
\<close>

section \<open>Publications and deliveries\<close>

record pcmu_publication =
  pub_stream_sequence :: int
  pub_packet :: pcmu_packet

definition pcmu_publication :: "int \<Rightarrow> pcmu_packet \<Rightarrow> pcmu_error + pcmu_publication" where
  "pcmu_publication stream_sequence packet =
     bind_res (require_integer PublicationSequence 1 None stream_sequence)
       (\<lambda>_. Inr \<lparr>pub_stream_sequence = stream_sequence, pub_packet = packet\<rparr>)"

record pcmu_delivery =
  dl_publication :: pcmu_publication
  dl_packets_dropped :: int
  dl_payload_bytes_dropped :: int
  dl_overflows :: int

section \<open>The header\<close>

datatype pcmu_codec_error =
    MaxEndpointNotPositive
  | MaxFrameNotPositive
  | MaxFrameBelowHeader
  | StreamSequenceRange int
  | StreamSequenceZero
  | PacketsDroppedRange int
  | PayloadBytesDroppedRange int
  | OverflowsRange int
  | EndpointNotUtf8
  | EndpointTooLong
  | EndpointFieldOverflow
  | PayloadFieldOverflow
  | FrameTooLong
  | FrameFieldOverflow
  | StructError
  | FrameShorterThanHeader
  | BadMagic
  | UnsupportedVersion int
  | UnsupportedFlags
  | BadHeaderSize
  | FrameLengthMismatch
  | InconsistentSizes
  | SequenceWithoutFlag
  | TimestampWithoutFlag
  | InvalidMetadata

record pcmu_header =
  hd_magic :: "byte list"
  hd_version :: int
  hd_flags :: int
  hd_header_size :: int
  hd_frame_size :: int
  hd_stream_sequence :: int
  hd_observed :: int
  hd_sequence :: int
  hd_timestamp :: int
  hd_ssrc :: int
  hd_expected_sequence :: int
  hd_missing_packets :: int
  hd_expected_timestamp :: int
  hd_missing_samples :: int
  hd_packets_dropped :: int
  hd_payload_bytes_dropped :: int
  hd_overflows :: int
  hd_endpoint_size :: int
  hd_payload_size :: int

definition pcmu_magic :: "byte list" where
  "pcmu_magic = map (of_char :: char \<Rightarrow> byte) ''SDSP''"

definition header_bytes :: nat where
  "header_bytes = 4 + 1 + 1 + 2 + 4 + 8 + 8 + 2 + 4 + 4 + 2 + 4 + 4 + 4 + 8 + 8 + 8 + 2 + 4"

definition fits :: "nat \<Rightarrow> int \<Rightarrow> bool" where
  "fits n v \<longleftrightarrow> 0 \<le> v \<and> v < 256 ^ n"

definition fits_signed :: "int \<Rightarrow> bool" where
  "fits_signed v \<longleftrightarrow> - (2 ^ 63) \<le> v \<and> v < 2 ^ 63"

definition header_fits :: "pcmu_header \<Rightarrow> bool" where
  "header_fits h \<longleftrightarrow>
     fits 1 (hd_version h) \<and> fits 1 (hd_flags h) \<and> fits 2 (hd_header_size h) \<and>
     fits 4 (hd_frame_size h) \<and> fits 8 (hd_stream_sequence h) \<and> fits_signed (hd_observed h) \<and>
     fits 2 (hd_sequence h) \<and> fits 4 (hd_timestamp h) \<and> fits 4 (hd_ssrc h) \<and>
     fits 2 (hd_expected_sequence h) \<and> fits 4 (hd_missing_packets h) \<and>
     fits 4 (hd_expected_timestamp h) \<and> fits 4 (hd_missing_samples h) \<and>
     fits 8 (hd_packets_dropped h) \<and> fits 8 (hd_payload_bytes_dropped h) \<and>
     fits 8 (hd_overflows h) \<and> fits 2 (hd_endpoint_size h) \<and> fits 4 (hd_payload_size h)"

definition header_pack :: "pcmu_header \<Rightarrow> pcmu_codec_error + byte list" where
  "header_pack h =
     raise_if (\<not> header_fits h) StructError
       (Inr (take 4 (hd_magic h @ replicate 4 0) @
             to_bytes_be 1 (hd_version h) @ to_bytes_be 1 (hd_flags h) @
             to_bytes_be 2 (hd_header_size h) @ to_bytes_be 4 (hd_frame_size h) @
             to_bytes_be 8 (hd_stream_sequence h) @ to_bytes_be 8 (hd_observed h mod 2 ^ 64) @
             to_bytes_be 2 (hd_sequence h) @ to_bytes_be 4 (hd_timestamp h) @
             to_bytes_be 4 (hd_ssrc h) @ to_bytes_be 2 (hd_expected_sequence h) @
             to_bytes_be 4 (hd_missing_packets h) @ to_bytes_be 4 (hd_expected_timestamp h) @
             to_bytes_be 4 (hd_missing_samples h) @ to_bytes_be 8 (hd_packets_dropped h) @
             to_bytes_be 8 (hd_payload_bytes_dropped h) @ to_bytes_be 8 (hd_overflows h) @
             to_bytes_be 2 (hd_endpoint_size h) @ to_bytes_be 4 (hd_payload_size h)))"

definition signed64 :: "int \<Rightarrow> int" where
  "signed64 v = (if v \<ge> 2 ^ 63 then v - 2 ^ 64 else v)"

definition header_unpack :: "byte list \<Rightarrow> pcmu_header" where
  "header_unpack f =
     \<lparr>hd_magic = py_slice f 0 4,
      hd_version = from_bytes_be (py_slice f 4 5),
      hd_flags = from_bytes_be (py_slice f 5 6),
      hd_header_size = from_bytes_be (py_slice f 6 8),
      hd_frame_size = from_bytes_be (py_slice f 8 12),
      hd_stream_sequence = from_bytes_be (py_slice f 12 20),
      hd_observed = signed64 (from_bytes_be (py_slice f 20 28)),
      hd_sequence = from_bytes_be (py_slice f 28 30),
      hd_timestamp = from_bytes_be (py_slice f 30 34),
      hd_ssrc = from_bytes_be (py_slice f 34 38),
      hd_expected_sequence = from_bytes_be (py_slice f 38 40),
      hd_missing_packets = from_bytes_be (py_slice f 40 44),
      hd_expected_timestamp = from_bytes_be (py_slice f 44 48),
      hd_missing_samples = from_bytes_be (py_slice f 48 52),
      hd_packets_dropped = from_bytes_be (py_slice f 52 60),
      hd_payload_bytes_dropped = from_bytes_be (py_slice f 60 68),
      hd_overflows = from_bytes_be (py_slice f 68 76),
      hd_endpoint_size = from_bytes_be (py_slice f 76 78),
      hd_payload_size = from_bytes_be (py_slice f 78 82)\<rparr>"

lemma signed64_mod: "fits_signed v \<Longrightarrow> signed64 (v mod 18446744073709551616) = v"
proof (cases "0 \<le> v")
  case True
  moreover assume "fits_signed v"
  ultimately show ?thesis by (simp add: fits_signed_def signed64_def)
next
  case False
  moreover assume "fits_signed v"
  ultimately have "(v + 18446744073709551616) mod 18446744073709551616 = v + 18446744073709551616"
    by (intro mod_pos_pos_trivial) (simp_all add: fits_signed_def)
  then have "v mod 18446744073709551616 = v + 18446744073709551616" by simp
  with False \<open>fits_signed v\<close> show ?thesis by (simp add: fits_signed_def signed64_def)
qed

lemma mod_signed64:
  assumes "0 \<le> v" and "v < 18446744073709551616"
  shows "signed64 v mod 18446744073709551616 = v" and "fits_signed (signed64 v)"
proof -
  have "(v - 18446744073709551616) mod 18446744073709551616 = v mod (18446744073709551616 :: int)"
    by (simp add: mod_diff_right_eq [symmetric])
  with assms show "signed64 v mod 18446744073709551616 = v" by (simp add: signed64_def)
  show "fits_signed (signed64 v)" using assms by (simp add: fits_signed_def signed64_def)
qed

lemma header_unpack_pack:
  assumes "header_pack h = Inr bs" and "length (hd_magic h) = 4"
  shows "header_unpack (bs @ rest) = h" and "length bs = 82"
proof -
  from assms(1) have fit: "header_fits h" by (auto simp: header_pack_def res_simps)
  note f = fit [unfolded header_fits_def fits_def]
  show "length bs = 82"
    using assms by (auto simp: header_pack_def res_simps)
  show "header_unpack (bs @ rest) = h"
    using assms f
    by (cases h)
      (auto simp: header_pack_def header_unpack_def res_simps py_slice_def from_to_bytes_be
        signed64_mod simp del: to_bytes_be.simps)
qed

lemma header_pack_unpack:
  assumes "82 \<le> length f"
  shows "header_pack (header_unpack f) = Inr (take 82 f)"
proof -
  have len: "length (py_slice f i j) = j - i" if "j \<le> 82" for i j
    using that assms by simp
  have fit: "fits n (from_bytes_be (py_slice f i j))" if "j - i = n" "j \<le> 82" for n i j
    using from_bytes_be_bounds [of "py_slice f i j"] len [OF that(2), of i] that(1)
    by (simp add: fits_def)
  have obs: "signed64 (from_bytes_be (py_slice f 20 28)) mod 18446744073709551616 = from_bytes_be (py_slice f 20 28)"
    "fits_signed (signed64 (from_bytes_be (py_slice f 20 28)))"
    using mod_signed64 from_bytes_be_bounds [of "py_slice f 20 28"] assms by simp_all
  have rebuilt: "to_bytes_be n (from_bytes_be (py_slice f i j)) = py_slice f i j"
    if "j - i = n" "j \<le> 82" for n i j
    using len [OF that(2), of i] that(1) by (intro to_from_bytes_be) simp
  have "header_fits (header_unpack f)"
    using obs(2) by (simp add: header_fits_def header_unpack_def fit)
  moreover have "take 4 (py_slice f 0 4 @ replicate 4 0) = py_slice f 0 4"
    using assms by simp
  ultimately show ?thesis
    using obs(1)
    by (simp add: header_pack_def header_unpack_def rebuilt py_slice_split del: to_bytes_be.simps length_py_slice)
      (simp add: py_slice_def)
qed

section \<open>Encoding and decoding a delivery\<close>

text \<open>
  The time of a delivery's packet in microseconds. The packet constructor admits aware times only,
  so the naive case (which \<open>astimezone\<close> would read in the local zone) never arises.
\<close>

definition datetime_to_microseconds :: "py_datetime \<Rightarrow> int" where
  "datetime_to_microseconds d = (case d of Naive us \<Rightarrow> us | Aware us \<Rightarrow> us)"

definition datetime_from_microseconds :: "int \<Rightarrow> pcmu_codec_error + py_datetime" where
  "datetime_from_microseconds v =
     raise_if (\<not> datetime_ok (Aware v)) InvalidMetadata (Inr (Aware v))"

definition require_unsigned :: "pcmu_codec_error \<Rightarrow> int \<Rightarrow> pcmu_codec_error + int" where
  "require_unsigned e v = raise_if (v < 0) e (raise_if (v > 18446744073709551615) e (Inr v))"

definition pcmu_flags :: "pcmu_packet \<Rightarrow> int" where
  "pcmu_flags p =
     (if pk_marker p then 1 else 0) OR (if pk_expected_sequence p \<noteq> None then 2 else 0) OR
     (if pk_expected_timestamp p \<noteq> None then 4 else 0) OR
     (if pk_timestamp_backwards p then 8 else 0)"

definition or_zero :: "int option \<Rightarrow> int" where
  "or_zero v = (case v of None \<Rightarrow> 0 | Some n \<Rightarrow> n)"

definition delivery_header :: "pcmu_delivery \<Rightarrow> byte list \<Rightarrow> int \<Rightarrow> pcmu_header" where
  "delivery_header d endpoint frame_size =
     (let publication = dl_publication d; p = pub_packet publication in
      \<lparr>hd_magic = pcmu_magic, hd_version = 1, hd_flags = pcmu_flags p,
       hd_header_size = int header_bytes, hd_frame_size = frame_size,
       hd_stream_sequence = pub_stream_sequence publication,
       hd_observed = datetime_to_microseconds (pk_observed_at p),
       hd_sequence = pk_sequence p, hd_timestamp = pk_timestamp p, hd_ssrc = pk_ssrc p,
       hd_expected_sequence = or_zero (pk_expected_sequence p),
       hd_missing_packets = pk_missing_packets p,
       hd_expected_timestamp = or_zero (pk_expected_timestamp p),
       hd_missing_samples = pk_missing_samples p,
       hd_packets_dropped = dl_packets_dropped d,
       hd_payload_bytes_dropped = dl_payload_bytes_dropped d,
       hd_overflows = dl_overflows d,
       hd_endpoint_size = int (length endpoint), hd_payload_size = int (length (pk_payload p))\<rparr>)"

definition encode_pcmu_delivery ::
  "int \<Rightarrow> int \<Rightarrow> pcmu_delivery \<Rightarrow> pcmu_codec_error + byte list" where
  "encode_pcmu_delivery max_endpoint max_frame d =
     (let publication = dl_publication d; p = pub_packet publication in
      raise_if (max_endpoint \<le> 0) MaxEndpointNotPositive
     (raise_if (max_frame \<le> 0) MaxFrameNotPositive
     (raise_if (max_frame < int header_bytes) MaxFrameBelowHeader
     (bind_res (require_unsigned (StreamSequenceRange (pub_stream_sequence publication))
         (pub_stream_sequence publication)) (\<lambda>stream_sequence.
      raise_if (stream_sequence = 0) StreamSequenceZero
     (bind_res (require_unsigned (PacketsDroppedRange (dl_packets_dropped d))
         (dl_packets_dropped d)) (\<lambda>_.
      bind_res (require_unsigned (PayloadBytesDroppedRange (dl_payload_bytes_dropped d))
         (dl_payload_bytes_dropped d)) (\<lambda>_.
      bind_res (require_unsigned (OverflowsRange (dl_overflows d)) (dl_overflows d)) (\<lambda>_.
      case utf8_encode (pk_endpoint p) of
        None \<Rightarrow> Inl EndpointNotUtf8
      | Some endpoint \<Rightarrow>
          raise_if (int (length endpoint) > max_endpoint) EndpointTooLong
         (raise_if (int (length endpoint) > 65535) EndpointFieldOverflow
         (raise_if (int (length (pk_payload p)) > 4294967295) PayloadFieldOverflow
         (let frame_size =
                int header_bytes + int (length endpoint) + int (length (pk_payload p)) in
          raise_if (frame_size > max_frame) FrameTooLong
         (raise_if (frame_size > 4294967295) FrameFieldOverflow
         (bind_res (header_pack (delivery_header d endpoint frame_size)) (\<lambda>header.
          Inr (header @ endpoint @ pk_payload p))))))))))))))))"

text \<open>The last stage of decoding: the packet, the publication and the delivery from the fields.\<close>

definition decode_metadata ::
  "pcmu_header \<Rightarrow> pystr \<Rightarrow> byte list \<Rightarrow> pcmu_codec_error + pcmu_delivery" where
  "decode_metadata h endpoint payload =
     (let has_expected_sequence = hd_flags h AND 2 \<noteq> 0;
          has_expected_timestamp = hd_flags h AND 4 \<noteq> 0
      in raise_if (\<not> has_expected_sequence \<and> hd_expected_sequence h \<noteq> 0) SequenceWithoutFlag
        (raise_if (\<not> has_expected_timestamp \<and> hd_expected_timestamp h \<noteq> 0) TimestampWithoutFlag
        (bind_res (datetime_from_microseconds (hd_observed h)) (\<lambda>observed_at.
         bind_res (map_error (\<lambda>_. InvalidMetadata) (pcmu_packet
           \<lparr>pk_endpoint = endpoint, pk_sequence = hd_sequence h, pk_timestamp = hd_timestamp h,
            pk_ssrc = hd_ssrc h, pk_payload = payload, pk_observed_at = observed_at,
            pk_marker = (hd_flags h AND 1 \<noteq> 0),
            pk_expected_sequence =
              (if has_expected_sequence then Some (hd_expected_sequence h) else None),
            pk_missing_packets = hd_missing_packets h,
            pk_expected_timestamp =
              (if has_expected_timestamp then Some (hd_expected_timestamp h) else None),
            pk_missing_samples = hd_missing_samples h,
            pk_timestamp_backwards = (hd_flags h AND 8 \<noteq> 0)\<rparr>)) (\<lambda>packet.
         bind_res (map_error (\<lambda>_. InvalidMetadata)
           (pcmu_publication (hd_stream_sequence h) packet)) (\<lambda>publication.
         Inr \<lparr>dl_publication = publication, dl_packets_dropped = hd_packets_dropped h,
              dl_payload_bytes_dropped = hd_payload_bytes_dropped h,
              dl_overflows = hd_overflows h\<rparr>))))))"

definition decode_pcmu_delivery ::
  "int \<Rightarrow> int \<Rightarrow> byte list \<Rightarrow> pcmu_codec_error + pcmu_delivery" where
  "decode_pcmu_delivery max_endpoint max_frame frame =
     raise_if (max_endpoint \<le> 0) MaxEndpointNotPositive
    (raise_if (max_frame \<le> 0) MaxFrameNotPositive
    (raise_if (max_frame < int header_bytes) MaxFrameBelowHeader
    (raise_if (length frame < header_bytes) FrameShorterThanHeader
    (raise_if (int (length frame) > max_frame) FrameTooLong
    (let h = header_unpack frame in
     raise_if (hd_magic h \<noteq> pcmu_magic) BadMagic
    (raise_if (hd_version h \<noteq> 1) (UnsupportedVersion (hd_version h))
    (raise_if (hd_flags h AND NOT 15 \<noteq> 0) UnsupportedFlags
    (raise_if (hd_header_size h \<noteq> int header_bytes) BadHeaderSize
    (raise_if (hd_frame_size h \<noteq> int (length frame)) FrameLengthMismatch
    (raise_if (hd_endpoint_size h > max_endpoint) EndpointTooLong
    (raise_if (hd_header_size h + hd_endpoint_size h + hd_payload_size h \<noteq> hd_frame_size h)
       InconsistentSizes
    (raise_if (hd_stream_sequence h = 0) StreamSequenceZero
    (let endpoint_start = nat (hd_header_size h);
         endpoint_end = endpoint_start + nat (hd_endpoint_size h)
     in case utf8_decode (py_slice frame endpoint_start endpoint_end) of
          None \<Rightarrow> Inl EndpointNotUtf8
        | Some endpoint \<Rightarrow> decode_metadata h endpoint (drop endpoint_end frame))))))))))))))"

subsection \<open>The flag byte\<close>

lemma pcmu_flags_bits:
  "pcmu_flags p AND 1 = 0 \<longleftrightarrow> \<not> pk_marker p"
  "pcmu_flags p AND 2 = 0 \<longleftrightarrow> pk_expected_sequence p = None"
  "pcmu_flags p AND 4 = 0 \<longleftrightarrow> pk_expected_timestamp p = None"
  "pcmu_flags p AND 8 = 0 \<longleftrightarrow> \<not> pk_timestamp_backwards p"
  "pcmu_flags p AND NOT 15 = 0" "fits 1 (pcmu_flags p)"
  unfolding pcmu_flags_def fits_def
  by (cases "pk_marker p"; cases "pk_expected_sequence p"; cases "pk_expected_timestamp p";
      cases "pk_timestamp_backwards p"; simp)+

lemma pcmu_flags_rebuilt:
  assumes "fits 1 v" and "v AND NOT 15 = 0"
  shows "(if v AND 1 \<noteq> 0 then 1 else 0) OR (if v AND 2 \<noteq> 0 then 2 else 0) OR
    (if v AND 4 \<noteq> 0 then 4 else 0) OR (if v AND 8 \<noteq> 0 then 8 else 0) = v"
proof -
  have "list_all (\<lambda>v. v AND NOT 15 = 0 \<longrightarrow>
      (if v AND 1 \<noteq> 0 then 1 else 0) OR (if v AND 2 \<noteq> 0 then 2 else 0) OR
      (if v AND 4 \<noteq> 0 then 4 else 0) OR (if v AND 8 \<noteq> 0 then 8 else 0) = (v :: int)) [0..255]"
    by code_simp
  moreover have "v \<in> set [0..255]" using assms(1) by (simp add: fits_def)
  ultimately show ?thesis using assms(2) by (simp only: list_all_iff)
qed

subsection \<open>Encoding and decoding are inverse\<close>

definition delivery_ok :: "pcmu_delivery \<Rightarrow> bool" where
  "delivery_ok d \<longleftrightarrow> pcmu_packet_ok (pub_packet (dl_publication d)) \<and>
     datetime_ok (pk_observed_at (pub_packet (dl_publication d)))"

lemma header_bytes_82 [simp]: "header_bytes = 82"
  by (simp add: header_bytes_def)

lemma pcmu_magic_length [simp]: "length pcmu_magic = 4"
  by (simp add: pcmu_magic_def)

lemma require_unsigned_Inr [res_simps]:
  "require_unsigned e v = Inr w \<longleftrightarrow> w = v \<and> fits 8 v"
  by (auto simp: require_unsigned_def fits_def res_simps)

lemma encode_Inr_iff:
  "encode_pcmu_delivery max_endpoint max_frame d = Inr f \<longleftrightarrow>
     (\<exists>endpoint header.
        let publication = dl_publication d; p = pub_packet publication;
            size = 82 + int (length endpoint) + int (length (pk_payload p)) in
        0 < max_endpoint \<and> 82 \<le> max_frame \<and>
        fits 8 (pub_stream_sequence publication) \<and> pub_stream_sequence publication \<noteq> 0 \<and>
        fits 8 (dl_packets_dropped d) \<and> fits 8 (dl_payload_bytes_dropped d) \<and>
        fits 8 (dl_overflows d) \<and> utf8_encode (pk_endpoint p) = Some endpoint \<and>
        int (length endpoint) \<le> max_endpoint \<and> int (length endpoint) \<le> 65535 \<and>
        int (length (pk_payload p)) \<le> 4294967295 \<and> size \<le> max_frame \<and> size \<le> 4294967295 \<and>
        header_pack (delivery_header d endpoint size) = Inr header \<and>
        f = header @ endpoint @ pk_payload p)"
  by (auto simp: encode_pcmu_delivery_def Let_def res_simps not_less not_le split: option.splits)

lemma decode_Inr_iff:
  "decode_pcmu_delivery max_endpoint max_frame f = Inr d \<longleftrightarrow>
     (let h = header_unpack f; n = nat (hd_endpoint_size h) in
      0 < max_endpoint \<and> 82 \<le> max_frame \<and> 82 \<le> length f \<and> int (length f) \<le> max_frame \<and>
      hd_magic h = pcmu_magic \<and> hd_version h = 1 \<and> hd_flags h AND NOT 15 = 0 \<and>
      hd_header_size h = 82 \<and> hd_frame_size h = int (length f) \<and>
      hd_endpoint_size h \<le> max_endpoint \<and>
      82 + hd_endpoint_size h + hd_payload_size h = int (length f) \<and>
      hd_stream_sequence h \<noteq> 0 \<and>
      (\<exists>endpoint. utf8_decode (py_slice f 82 (82 + n)) = Some endpoint \<and>
         decode_metadata h endpoint (drop (82 + n) f) = Inr d))"
  by (auto simp: decode_pcmu_delivery_def Let_def res_simps not_less not_le split: option.splits)

lemma decode_metadata_Inr_iff:
  "decode_metadata h endpoint payload = Inr d \<longleftrightarrow>
     (let p = pub_packet (dl_publication d) in
      (hd_flags h AND 2 = 0 \<longrightarrow> hd_expected_sequence h = 0) \<and>
      (hd_flags h AND 4 = 0 \<longrightarrow> hd_expected_timestamp h = 0) \<and>
      delivery_ok d \<and> 1 \<le> hd_stream_sequence h \<and>
      pub_stream_sequence (dl_publication d) = hd_stream_sequence h \<and>
      dl_packets_dropped d = hd_packets_dropped h \<and>
      dl_payload_bytes_dropped d = hd_payload_bytes_dropped h \<and>
      dl_overflows d = hd_overflows h \<and>
      p = \<lparr>pk_endpoint = endpoint, pk_sequence = hd_sequence h, pk_timestamp = hd_timestamp h,
            pk_ssrc = hd_ssrc h, pk_payload = payload, pk_observed_at = Aware (hd_observed h),
            pk_marker = (hd_flags h AND 1 \<noteq> 0),
            pk_expected_sequence =
              (if hd_flags h AND 2 \<noteq> 0 then Some (hd_expected_sequence h) else None),
            pk_missing_packets = hd_missing_packets h,
            pk_expected_timestamp =
              (if hd_flags h AND 4 \<noteq> 0 then Some (hd_expected_timestamp h) else None),
            pk_missing_samples = hd_missing_samples h,
            pk_timestamp_backwards = (hd_flags h AND 8 \<noteq> 0)\<rparr>)"
  by (cases d; cases "dl_publication d")
    (auto simp: decode_metadata_def delivery_ok_def datetime_from_microseconds_def
      pcmu_publication_def pcmu_packet_Inr_iff Let_def res_simps)

lemma decode_encode:
  assumes enc: "encode_pcmu_delivery max_endpoint max_frame d = Inr f" and ok: "delivery_ok d"
  shows "decode_pcmu_delivery max_endpoint max_frame f = Inr d"
proof -
  let ?p = "pub_packet (dl_publication d)"
  from enc [unfolded encode_Inr_iff Let_def] obtain endpoint header
    where b: "0 < max_endpoint" "82 \<le> max_frame" "pub_stream_sequence (dl_publication d) \<noteq> 0"
      "fits 8 (pub_stream_sequence (dl_publication d))"
      and ep: "utf8_encode (pk_endpoint ?p) = Some endpoint" "int (length endpoint) \<le> max_endpoint"
      and size: "82 + int (length endpoint) + int (length (pk_payload ?p)) \<le> max_frame"
      and pack: "header_pack (delivery_header d endpoint
          (82 + int (length endpoint) + int (length (pk_payload ?p)))) = Inr header"
      and f: "f = header @ endpoint @ pk_payload ?p"
    by blast
  let ?h = "delivery_header d endpoint (82 + int (length endpoint) + int (length (pk_payload ?p)))"
  have magic: "length (hd_magic ?h) = 4" by (simp add: delivery_header_def Let_def)
  note hl = header_unpack_pack [OF pack magic]
  have un: "header_unpack f = ?h" unfolding f by (rule hl(1))
  have len: "int (length f) = 82 + int (length endpoint) + int (length (pk_payload ?p))"
    using hl(2) by (simp add: f)
  have sl: "py_slice f 82 (82 + length endpoint) = endpoint"
    and dr: "drop (82 + length endpoint) f = pk_payload ?p"
    using hl(2) by (simp_all add: f py_slice_def)
  have time: "pk_observed_at ?p = Aware (datetime_to_microseconds (pk_observed_at ?p))"
    using ok by (auto simp: delivery_ok_def pcmu_packet_ok_def datetime_to_microseconds_def)
  have meta: "decode_metadata ?h (pk_endpoint ?p) (pk_payload ?p) = Inr d"
    unfolding decode_metadata_Inr_iff Let_def
    using ok b(3,4) time
    by (simp add: delivery_header_def Let_def pcmu_flags_bits or_zero_def fits_def)
      (auto simp: or_zero_def split: option.splits intro!: pcmu_packet.equality)
  show ?thesis
    unfolding decode_Inr_iff un Let_def
    using b ep size len sl dr meta utf8_decode_iff [of endpoint "pk_endpoint ?p"]
    by (simp add: delivery_header_def Let_def pcmu_flags_bits pcmu_flags_bits(5) [simplified])
qed

lemma encode_decode:
  assumes dec: "decode_pcmu_delivery max_endpoint max_frame f = Inr d"
  shows "encode_pcmu_delivery max_endpoint max_frame d = Inr f" and "delivery_ok d"
proof -
  let ?h = "header_unpack f" and ?p = "pub_packet (dl_publication d)"
  let ?n = "nat (hd_endpoint_size ?h)"
  from dec [unfolded decode_Inr_iff Let_def] obtain endpoint
    where b: "0 < max_endpoint" "82 \<le> max_frame" "82 \<le> length f" "int (length f) \<le> max_frame"
      and fixed: "hd_magic ?h = pcmu_magic" "hd_version ?h = 1" "hd_flags ?h AND NOT 15 = 0"
        "hd_header_size ?h = 82" "hd_frame_size ?h = int (length f)"
      and sizes: "hd_endpoint_size ?h \<le> max_endpoint"
        "82 + hd_endpoint_size ?h + hd_payload_size ?h = int (length f)"
      and ep: "utf8_decode (py_slice f 82 (82 + ?n)) = Some endpoint"
      and meta: "decode_metadata ?h endpoint (drop (82 + ?n) f) = Inr d"
    by blast
  note m = meta [unfolded decode_metadata_Inr_iff Let_def]
  from m show "delivery_ok d" by blast
  have pack: "header_pack ?h = Inr (take 82 f)" by (rule header_pack_unpack [OF b(3)])
  then have fit: "header_fits ?h" by (auto simp: header_pack_def res_simps)
  note fit' = fit [unfolded header_fits_def]
  have nn: "0 \<le> hd_endpoint_size ?h" "0 \<le> hd_payload_size ?h"
    using fit' by (simp_all add: fits_def)
  let ?ep = "py_slice f 82 (82 + ?n)"
  have epl: "int (length ?ep) = hd_endpoint_size ?h" using sizes(2) nn by simp
  have pl: "int (length (drop (82 + ?n) f)) = hd_payload_size ?h" using sizes(2) nn by simp
  have pk: "pk_endpoint ?p = endpoint" "pk_payload ?p = drop (82 + ?n) f" using m by simp_all
  have utf: "utf8_encode (pk_endpoint ?p) = Some ?ep"
    using ep by (simp only: pk(1) utf8_decode_iff)
  have bits: "pk_marker ?p \<longleftrightarrow> hd_flags ?h AND 1 \<noteq> 0"
    "(pk_expected_sequence ?p \<noteq> None) \<longleftrightarrow> hd_flags ?h AND 2 \<noteq> 0"
    "(pk_expected_timestamp ?p \<noteq> None) \<longleftrightarrow> hd_flags ?h AND 4 \<noteq> 0"
    "pk_timestamp_backwards ?p \<longleftrightarrow> hd_flags ?h AND 8 \<noteq> 0"
    using m by simp_all
  have flags: "pcmu_flags ?p = hd_flags ?h"
    unfolding pcmu_flags_def bits using fit' fixed(3) by (intro pcmu_flags_rebuilt) simp_all
  have hdr: "delivery_header d ?ep (int (length f)) = ?h"
    by (rule pcmu_header.equality)
      (use m fixed epl pl flags in \<open>simp_all add: delivery_header_def Let_def or_zero_def
        datetime_to_microseconds_def del: length_py_slice length_drop\<close>)
  have size: "82 + int (length ?ep) + int (length (pk_payload ?p)) = int (length f)"
    using epl pl sizes(2) by (simp only: pk(2))
  have split: "f = take 82 f @ ?ep @ pk_payload ?p"
    using take_py_slice_drop [of 82 "82 + ?n" f] pk(2) by simp
  have dfields: "pub_stream_sequence (dl_publication d) = hd_stream_sequence ?h"
    "dl_packets_dropped d = hd_packets_dropped ?h"
    "dl_payload_bytes_dropped d = hd_payload_bytes_dropped ?h" "dl_overflows d = hd_overflows ?h"
    "hd_stream_sequence ?h \<noteq> 0"
    using m by simp_all
  have ranges: "fits 8 (hd_stream_sequence ?h)" "fits 8 (hd_packets_dropped ?h)"
    "fits 8 (hd_payload_bytes_dropped ?h)" "fits 8 (hd_overflows ?h)"
    using fit' by blast+
  have "hd_endpoint_size ?h < 65536" "hd_payload_size ?h < 4294967296" "hd_frame_size ?h < 4294967296"
    using fit' by (simp_all add: fits_def)
  moreover have "int (length (pk_payload ?p)) = hd_payload_size ?h" using pl by (simp only: pk(2))
  ultimately have lens: "int (length ?ep) \<le> max_endpoint" "int (length ?ep) \<le> 65535"
    "int (length (pk_payload ?p)) \<le> 4294967295" "int (length f) \<le> 4294967295"
    using epl fixed(5) sizes(1) by linarith+
  show "encode_pcmu_delivery max_endpoint max_frame d = Inr f"
    unfolding encode_Inr_iff Let_def
    by (intro exI [of _ ?ep] exI [of _ "take 82 f"], unfold size hdr dfields)
      (intro conjI b ranges dfields(5) utf lens pack split)
qed

section \<open>Properties\<close>

text \<open>
  C2: The PCMU frame codec is exact. A frame decodes to a delivery if and only if that delivery
  encodes to exactly that frame under the same size limits and its packet is one the packet
  constructor accepts, with a representable time. So decoding inverts encoding, every accepted
  frame is the canonical encoding of what it decodes to, and no two frames mean the same delivery.
\<close>

theorem pcmu_codec_exact:
  "decode_pcmu_delivery max_endpoint max_frame f = Inr d \<longleftrightarrow>
     encode_pcmu_delivery max_endpoint max_frame d = Inr f \<and> delivery_ok d"
  using decode_encode encode_decode by blast

end
