(* ===== verification/Channels.thy ===== *)
theory Channels
  imports Prelude "HOL-Library.Sublist"
begin

text \<open>
  The interface between a publisher and its bounded subscriptions. Several parts of the program
  publish to isolated subscribers through one bounded queue each (PCMU packets, daemon events,
  waterfall responses); each of them enqueues, takes and closes in its own way. The locale
  \<^theory_text>\<open>channel\<close> states what they share, and the lemmas proved in it hold for each of them:
  bounds, first-in first-out delivery without repetition, and conservation of messages.
  \<^theory_text>\<open>fan_out\<close> is the loop by which a publisher hands one message to every open subscription.
\<close>

type_synonym handle = nat

fun fan_out :: "('m \<Rightarrow> 's \<Rightarrow> 's) \<Rightarrow> 'm \<Rightarrow> handle list \<Rightarrow> (handle \<Rightarrow> 's) \<Rightarrow> handle \<Rightarrow> 's" where
  "fan_out enq m [] heap = heap"
| "fan_out enq m (h # hs) heap = fan_out enq m hs (heap(h := enq m (heap h)))"

fun close_all :: "('s \<Rightarrow> 's) \<Rightarrow> handle list \<Rightarrow> (handle \<Rightarrow> 's) \<Rightarrow> handle \<Rightarrow> 's" where
  "close_all shut [] heap = heap"
| "close_all shut (h # hs) heap = close_all shut hs (heap(h := shut (heap h)))"

lemma fan_out_apply:
  "distinct hs \<Longrightarrow> fan_out enq m hs heap h = (if h \<in> set hs then enq m (heap h) else heap h)"
  by (induction hs arbitrary: heap) auto

lemma close_all_apply:
  "distinct hs \<Longrightarrow> close_all shut hs heap h = (if h \<in> set hs then shut (heap h) else heap h)"
  by (induction hs arbitrary: heap) auto

text \<open>What a subscription sees: its publisher's messages and closing, its reader's takes.\<close>

datatype 'm channel_op = Offer 'm | Take | Shut

fun channel_step ::
  "('m \<Rightarrow> 's \<Rightarrow> 's) \<Rightarrow> ('s \<Rightarrow> ('m \<times> 's) option) \<Rightarrow> ('s \<Rightarrow> 's) \<Rightarrow>
   'm channel_op \<Rightarrow> 's \<Rightarrow> 'm list \<times> 's" where
  "channel_step enq deq shut (Offer m) s = ([], enq m s)"
| "channel_step enq deq shut Take s =
     (case deq s of None \<Rightarrow> ([], s) | Some (m, s') \<Rightarrow> ([m], s'))"
| "channel_step enq deq shut Shut s = ([], shut s)"

fun channel_run ::
  "('m \<Rightarrow> 's \<Rightarrow> 's) \<Rightarrow> ('s \<Rightarrow> ('m \<times> 's) option) \<Rightarrow> ('s \<Rightarrow> 's) \<Rightarrow>
   'm channel_op list \<Rightarrow> 's \<Rightarrow> 'm list \<times> 's" where
  "channel_run enq deq shut [] s = ([], s)"
| "channel_run enq deq shut (op # ops) s =
     (let (got, s1) = channel_step enq deq shut op s;
          (got', s2) = channel_run enq deq shut ops s1
      in (got @ got', s2))"

fun offered :: "'m channel_op list \<Rightarrow> 'm list" where
  "offered [] = []"
| "offered (Offer m # ops) = m # offered ops"
| "offered (_ # ops) = offered ops"

definition never_shut :: "'m channel_op list \<Rightarrow> bool" where
  "never_shut ops \<longleftrightarrow> Shut \<notin> set ops"

locale channel =
  fixes enq :: "'m \<Rightarrow> 's \<Rightarrow> 's"
    and deq :: "'s \<Rightarrow> ('m \<times> 's) option"
    and shut :: "'s \<Rightarrow> 's"
    and is_shut :: "'s \<Rightarrow> bool"
    and pending :: "'s \<Rightarrow> 'm list"
    and dropped :: "'s \<Rightarrow> nat"
    and capacity :: "'s \<Rightarrow> nat"
    and invar :: "'s \<Rightarrow> bool"
  assumes invar_bounded: "invar s \<Longrightarrow> length (pending s) \<le> capacity s"
    and invar_enq: "invar s \<Longrightarrow> invar (enq m s)"
    and invar_deq: "invar s \<Longrightarrow> deq s = Some (m, s') \<Longrightarrow> invar s'"
    and invar_shut: "invar s \<Longrightarrow> invar (shut s)"
    and enq_shut: "is_shut s \<Longrightarrow> enq m s = s"
    and enq_open: "invar s \<Longrightarrow> \<not> is_shut s \<Longrightarrow>
      \<exists>ks. subseq ks (pending s) \<and> pending (enq m s) = ks @ [m] \<and>
        length (pending s) + dropped s = length ks + dropped (enq m s)"
    and enq_keeps: "is_shut (enq m s) = is_shut s" "capacity (enq m s) = capacity s"
    and deq_None: "invar s \<Longrightarrow> deq s = None \<longleftrightarrow> is_shut s \<or> pending s = []"
    and deq_Some: "deq s = Some (m, s') \<Longrightarrow>
      pending s = m # pending s' \<and> dropped s' = dropped s \<and> is_shut s' = is_shut s \<and>
      capacity s' = capacity s"
    and shut_closes: "is_shut (shut s)" "dropped (shut s) = dropped s" "capacity (shut s) = capacity s"
    and shut_clears: "invar s \<Longrightarrow> pending (shut s) = []"
begin

lemma step_invar:
  "invar s \<Longrightarrow> channel_step enq deq shut op s = (got, s') \<Longrightarrow> invar s' \<and> capacity s' = capacity s"
  by (cases op)
    (auto simp: invar_enq invar_shut enq_keeps shut_closes split: option.splits
      dest: invar_deq deq_Some)

lemma run_bounded:
  assumes "invar s" and "channel_run enq deq shut ops s = (got, s')"
  shows "invar s' \<and> capacity s' = capacity s \<and> length (pending s') \<le> capacity s"
  using assms
proof (induction ops arbitrary: s got)
  case Nil
  then show ?case by (simp add: invar_bounded)
next
  case (Cons op ops)
  obtain g1 s1 where 1: "channel_step enq deq shut op s = (g1, s1)" by fastforce
  obtain g2 where 2: "channel_run enq deq shut ops s1 = (g2, s')"
    using Cons.prems(2) 1 by (auto split: prod.splits)
  from step_invar [OF Cons.prems(1) 1] Cons.IH [OF _ 2] show ?case by simp
qed

text \<open>
  First-in first-out: what the reader has taken and what is still queued is a subsequence of what
  was queued at first and what has been offered since; nothing is repeated, invented or reordered.
\<close>

lemma run_fifo:
  assumes "invar s" and "channel_run enq deq shut ops s = (got, s')"
  shows "subseq (got @ pending s') (pending s @ offered ops)"
  using assms
proof (induction ops arbitrary: s got)
  case Nil
  then show ?case by simp
next
  case (Cons op ops)
  obtain g1 s1 where 1: "channel_step enq deq shut op s = (g1, s1)" by fastforce
  obtain g2 where 2: "channel_run enq deq shut ops s1 = (g2, s')" and got: "got = g1 @ g2"
    using Cons.prems(2) 1 by (auto split: prod.splits)
  have inv1: "invar s1" using step_invar [OF Cons.prems(1) 1] by simp
  note IH = Cons.IH [OF inv1 2]
  have "subseq (g1 @ pending s1 @ offered ops) (pending s @ offered (op # ops))"
  proof (cases op)
    case (Offer m)
    show ?thesis
    proof (cases "is_shut s")
      case True
      then have "s1 = s" "g1 = []" using 1 Offer by (simp_all add: enq_shut)
      moreover have "subseq (pending s @ offered ops) (pending s @ m # offered ops)"
        by (rule list_emb_append_mono) auto
      ultimately show ?thesis using Offer by simp
    next
      case False
      then obtain ks where "subseq ks (pending s)" "pending (enq m s) = ks @ [m]"
        using enq_open [OF Cons.prems(1)] by blast
      then show ?thesis using Offer 1 by (auto intro: list_emb_append_mono)
    qed
  next
    case Take
    then show ?thesis using 1 by (auto split: option.splits dest: deq_Some)
  next
    case Shut
    then show ?thesis using 1 by (auto simp: shut_clears Cons.prems(1) list_emb_append2)
  qed
  moreover have "subseq (got @ pending s') (g1 @ pending s1 @ offered ops)"
    using IH got by (simp add: list_emb_append_mono)
  ultimately show ?case by (rule subseq_order.order_trans [rotated])
qed

text \<open>Conservation: while it stays open, every message is taken, queued or counted as dropped.\<close>

lemma run_conserves:
  assumes "invar s" and "channel_run enq deq shut ops s = (got, s')" and "never_shut ops"
    and "\<not> is_shut s"
  shows "length got + length (pending s') + dropped s' =
    length (pending s) + dropped s + length (offered ops) \<and> \<not> is_shut s'"
  using assms
proof (induction ops arbitrary: s got)
  case Nil
  then show ?case by simp
next
  case (Cons op ops)
  obtain g1 s1 where 1: "channel_step enq deq shut op s = (g1, s1)" by fastforce
  obtain g2 where 2: "channel_run enq deq shut ops s1 = (g2, s')" and got: "got = g1 @ g2"
    using Cons.prems(2) 1 by (auto split: prod.splits)
  have inv1: "invar s1" using step_invar [OF Cons.prems(1) 1] by simp
  have ns: "never_shut ops" "op \<noteq> Shut" using Cons.prems(3) by (auto simp: never_shut_def)
  have step: "length g1 + length (pending s1) + dropped s1 + length (offered ops) =
      length (pending s) + dropped s + length (offered (op # ops)) \<and> \<not> is_shut s1"
  proof (cases op)
    case (Offer m)
    obtain ks where "pending (enq m s) = ks @ [m]"
      "length (pending s) + dropped s = length ks + dropped (enq m s)"
      using enq_open [OF Cons.prems(1,4)] by blast
    then show ?thesis using Offer 1 Cons.prems(4) by (auto simp: enq_keeps)
  next
    case Take
    then show ?thesis using 1 Cons.prems(4) by (auto split: option.splits dest: deq_Some)
  next
    case Shut
    then show ?thesis using ns by simp
  qed
  then have "\<not> is_shut s1" by simp
  from Cons.IH [OF inv1 2 ns(1) this] step got show ?case by simp
qed

end

section \<open>Hubs: one publisher, many channels\<close>

text \<open>
  A hub is the part of a publisher that holds its subscriptions: a heap of subscription states,
  the handles that are registered, the next handle. The five transitions are opening, offering a
  message to all registered subscriptions, taking from one, closing one and closing all.
\<close>

record 's hub =
  hub_subscriptions :: "handle list"
  hub_heap :: "handle \<Rightarrow> 's"
  hub_next :: handle

definition hub_empty :: "'s \<Rightarrow> 's hub" where
  "hub_empty s = \<lparr>hub_subscriptions = [], hub_heap = (\<lambda>_. s), hub_next = 0\<rparr>"

definition hub_open :: "'s \<Rightarrow> 's hub \<Rightarrow> 's hub" where
  "hub_open s hub = hub\<lparr>hub_subscriptions := hub_subscriptions hub @ [hub_next hub],
     hub_heap := (hub_heap hub)(hub_next hub := s), hub_next := hub_next hub + 1\<rparr>"

definition hub_offer :: "('m \<Rightarrow> 's \<Rightarrow> 's) \<Rightarrow> 'm \<Rightarrow> 's hub \<Rightarrow> 's hub" where
  "hub_offer enq m hub = hub\<lparr>hub_heap := fan_out enq m (hub_subscriptions hub) (hub_heap hub)\<rparr>"

definition hub_put :: "handle \<Rightarrow> 's \<Rightarrow> 's hub \<Rightarrow> 's hub" where
  "hub_put h s hub = hub\<lparr>hub_heap := (hub_heap hub)(h := s)\<rparr>"

definition hub_shut :: "('s \<Rightarrow> 's) \<Rightarrow> handle \<Rightarrow> 's hub \<Rightarrow> 's hub" where
  "hub_shut shut h hub = hub\<lparr>hub_subscriptions := filter (\<lambda>h'. h' \<noteq> h) (hub_subscriptions hub),
     hub_heap := (hub_heap hub)(h := shut (hub_heap hub h))\<rparr>"

definition hub_shut_all :: "('s \<Rightarrow> 's) \<Rightarrow> 's hub \<Rightarrow> 's hub" where
  "hub_shut_all shut hub = hub\<lparr>hub_subscriptions := [],
     hub_heap := close_all shut (hub_subscriptions hub) (hub_heap hub)\<rparr>"

datatype ('m, 's) hub_event =
    HubOpened handle 's
  | HubOffered 'm
  | HubTook handle 'm
  | HubShut handle
  | HubShutAll

inductive hub_step ::
  "('m \<Rightarrow> 's \<Rightarrow> 's) \<Rightarrow> ('s \<Rightarrow> ('m \<times> 's) option) \<Rightarrow> ('s \<Rightarrow> 's) \<Rightarrow> ('s \<Rightarrow> bool) \<Rightarrow>
   's hub \<Rightarrow> ('m, 's) hub_event \<Rightarrow> 's hub \<Rightarrow> bool"
  for enq :: "'m \<Rightarrow> 's \<Rightarrow> 's" and deq :: "'s \<Rightarrow> ('m \<times> 's) option" and shut :: "'s \<Rightarrow> 's"
    and is_new :: "'s \<Rightarrow> bool" where
  opened: "is_new s \<Longrightarrow> hub_step enq deq shut is_new hub (HubOpened (hub_next hub) s) (hub_open s hub)"
| offered: "hub_step enq deq shut is_new hub (HubOffered m) (hub_offer enq m hub)"
| took: "h < hub_next hub \<Longrightarrow> deq (hub_heap hub h) = Some (m, s) \<Longrightarrow>
    hub_step enq deq shut is_new hub (HubTook h m) (hub_put h s hub)"
| shut: "h < hub_next hub \<Longrightarrow> hub_step enq deq shut is_new hub (HubShut h) (hub_shut shut h hub)"
| shut_all: "hub_step enq deq shut is_new hub HubShutAll (hub_shut_all shut hub)"

inductive_cases hub_stepE: "hub_step enq deq shut is_new hub e hub'"

inductive hub_trace ::
  "('m \<Rightarrow> 's \<Rightarrow> 's) \<Rightarrow> ('s \<Rightarrow> ('m \<times> 's) option) \<Rightarrow> ('s \<Rightarrow> 's) \<Rightarrow> ('s \<Rightarrow> bool) \<Rightarrow>
   ('m, 's) hub_event list \<Rightarrow> 's hub \<Rightarrow> bool"
  for enq :: "'m \<Rightarrow> 's \<Rightarrow> 's" and deq :: "'s \<Rightarrow> ('m \<times> 's) option" and shut :: "'s \<Rightarrow> 's"
    and is_new :: "'s \<Rightarrow> bool" where
  start: "hub_trace enq deq shut is_new [] (hub_empty s)"
| extend: "hub_trace enq deq shut is_new evs hub \<Longrightarrow> hub_step enq deq shut is_new hub e hub' \<Longrightarrow>
    hub_trace enq deq shut is_new (evs @ [e]) hub'"

text \<open>The part of a trace one subscription sees, and what it took.\<close>

fun sees :: "handle \<Rightarrow> ('m, 's) hub_event list \<Rightarrow> 'm channel_op list" where
  "sees h [] = []"
| "sees h (HubOpened h' s # evs) = sees h evs"
| "sees h (HubOffered m # evs) = Offer m # sees h evs"
| "sees h (HubTook h' m # evs) = (if h' = h then Take # sees h evs else sees h evs)"
| "sees h (HubShut h' # evs) = (if h' = h then Shut # sees h evs else sees h evs)"
| "sees h (HubShutAll # evs) = Shut # sees h evs"

fun took_from :: "handle \<Rightarrow> ('m, 's) hub_event list \<Rightarrow> 'm list" where
  "took_from h [] = []"
| "took_from h (HubTook h' m # evs) = (if h' = h then m # took_from h evs else took_from h evs)"
| "took_from h (_ # evs) = took_from h evs"

fun opened_at :: "handle \<Rightarrow> ('m, 's) hub_event list \<Rightarrow> (('m, 's) hub_event list \<times> 's \<times> ('m, 's) hub_event list) option" where
  "opened_at h [] = None"
| "opened_at h (HubOpened h' s # evs) =
     (if h' = h then Some ([], s, evs)
      else map_option (\<lambda>(b, s', a). (HubOpened h' s # b, s', a)) (opened_at h evs))"
| "opened_at h (e # evs) = map_option (\<lambda>(b, s, a). (e # b, s, a)) (opened_at h evs)"

fun offers :: "('m, 's) hub_event list \<Rightarrow> 'm list" where
  "offers [] = []"
| "offers (HubOffered m # evs) = m # offers evs"
| "offers (_ # evs) = offers evs"

lemma sees_append [simp]: "sees h (xs @ ys) = sees h xs @ sees h ys"
  by (induction h xs rule: sees.induct) auto

lemma took_from_append [simp]: "took_from h (xs @ ys) = took_from h xs @ took_from h ys"
  by (induction h xs rule: took_from.induct) auto

lemma offers_append [simp]: "offers (xs @ ys) = offers xs @ offers ys"
  by (induction xs rule: offers.induct) auto

lemma offered_sees [simp]: "offered (sees h evs) = offers evs"
  by (induction h evs rule: sees.induct) auto

lemma opened_at_append:
  "opened_at h (xs @ [e]) =
     (case opened_at h xs of
        Some (b, s, a) \<Rightarrow> Some (b, s, a @ [e])
      | None \<Rightarrow> (case e of HubOpened h' s \<Rightarrow> if h' = h then Some (xs, s, []) else None | _ \<Rightarrow> None))"
  by (induction h xs rule: opened_at.induct) (auto split: hub_event.splits option.splits)

lemma opened_at_split: "opened_at h evs = Some (b, s, a) \<Longrightarrow> evs = b @ HubOpened h s # a"
  by (induction h evs arbitrary: b rule: opened_at.induct) (auto split: if_splits)

lemma channel_run_append:
  "channel_run enq deq shut (xs @ ys) s =
     (case channel_run enq deq shut xs s of
        (got, s1) \<Rightarrow> (case channel_run enq deq shut ys s1 of (got', s2) \<Rightarrow> (got @ got', s2)))"
  by (induction xs arbitrary: s) (auto split: prod.splits)

text \<open>Every subscription is where its own part of the trace leads.\<close>

definition hub_ok ::
  "('m \<Rightarrow> 's \<Rightarrow> 's) \<Rightarrow> ('s \<Rightarrow> ('m \<times> 's) option) \<Rightarrow> ('s \<Rightarrow> 's) \<Rightarrow> ('s \<Rightarrow> bool) \<Rightarrow> ('s \<Rightarrow> bool) \<Rightarrow>
   ('m, 's) hub_event list \<Rightarrow> 's hub \<Rightarrow> bool" where
  "hub_ok enq deq shut is_shut is_new evs hub \<longleftrightarrow>
     distinct (hub_subscriptions hub) \<and>
     set (hub_subscriptions hub) = {h. h < hub_next hub \<and> \<not> is_shut (hub_heap hub h)} \<and>
     (\<forall>h \<ge> hub_next hub. opened_at h evs = None \<and> took_from h evs = []) \<and>
     (\<forall>h < hub_next hub. \<exists>b s a. opened_at h evs = Some (b, s, a) \<and> is_new s \<and>
        channel_run enq deq shut (sees h a) s = (took_from h evs, hub_heap hub h))"

lemma hub_okD:
  assumes "hub_ok enq deq shut is_shut is_new evs hub"
  shows "distinct (hub_subscriptions hub)"
    and "h \<in> set (hub_subscriptions hub) \<longleftrightarrow> h < hub_next hub \<and> \<not> is_shut (hub_heap hub h)"
    and "h < hub_next hub \<Longrightarrow> \<exists>b s a. opened_at h evs = Some (b, s, a) \<and> is_new s \<and>
        channel_run enq deq shut (sees h a) s = (took_from h evs, hub_heap hub h)"
  using assms by (auto simp: hub_ok_def)

text \<open>A channel whose closing is idempotent, so that it may be closed by itself and by its hub.\<close>

locale broadcast = channel +
  assumes shut_again: "is_shut s \<Longrightarrow> shut s = s"
begin

text \<open>One more event, as a subscription that is already open sees it.\<close>

lemma hub_ok_old:
  assumes ok: "hub_ok enq deq shut is_shut is_new evs hub" and h: "h < hub_next hub"
    and op: "channel_run enq deq shut (sees h [e]) (hub_heap hub h) = (took_from h [e], s')"
    and new: "\<And>h' s. e = HubOpened h' s \<Longrightarrow> h' \<noteq> h"
  shows "\<exists>b s a. opened_at h (evs @ [e]) = Some (b, s, a) \<and> is_new s \<and>
    channel_run enq deq shut (sees h a) s = (took_from h (evs @ [e]), s')"
proof -
  obtain b s a where "opened_at h evs = Some (b, s, a)" "is_new s"
    "channel_run enq deq shut (sees h a) s = (took_from h evs, hub_heap hub h)"
    using hub_okD(3) [OF ok h] by blast
  then have "opened_at h (evs @ [e]) = Some (b, s, a @ [e]) \<and> is_new s \<and>
      channel_run enq deq shut (sees h (a @ [e])) s = (took_from h (evs @ [e]), s')"
    using op by (simp add: opened_at_append channel_run_append)
  then show ?thesis by blast
qed

lemma hub_step_ok:
  assumes step: "hub_step enq deq shut is_new hub e hub'"
    and ok: "hub_ok enq deq shut is_shut is_new evs hub"
    and new: "\<And>s. is_new s \<Longrightarrow> \<not> is_shut s"
  shows "hub_ok enq deq shut is_shut is_new (evs @ [e]) hub'"
  using step
proof cases
  case (opened s)
  have old: "\<exists>b s0 a. opened_at h (evs @ [e]) = Some (b, s0, a) \<and> is_new s0 \<and>
      channel_run enq deq shut (sees h a) s0 = (took_from h (evs @ [e]), hub_heap hub h)"
    if "h < hub_next hub" for h
    using opened(1) that by (intro hub_ok_old [OF ok that]) auto
  have fresh: "opened_at (hub_next hub) (evs @ [e]) = Some (evs, s, [])"
    "took_from (hub_next hub) (evs @ [e]) = []"
    using opened(1) ok by (auto simp: opened_at_append hub_ok_def)
  show ?thesis
    using ok opened old fresh new [OF opened(3)]
    by (auto simp: hub_ok_def hub_open_def less_Suc_eq opened_at_append)
next
  case (offered m)
  have heap: "hub_heap hub' h = enq m (hub_heap hub h)" if "h < hub_next hub" for h
    using offered(2) hub_okD(1,2) [OF ok] that by (auto simp: hub_offer_def fan_out_apply enq_shut)
  have old: "\<exists>b s0 a. opened_at h (evs @ [e]) = Some (b, s0, a) \<and> is_new s0 \<and>
      channel_run enq deq shut (sees h a) s0 = (took_from h (evs @ [e]), hub_heap hub' h)"
    if "h < hub_next hub" for h
    using offered(1) heap that by (intro hub_ok_old [OF ok that]) auto
  show ?thesis
    using ok old heap offered by (auto simp: hub_ok_def hub_offer_def enq_keeps opened_at_append)
next
  case (took h0 m s)
  have old: "\<exists>b s0 a. opened_at h (evs @ [e]) = Some (b, s0, a) \<and> is_new s0 \<and>
      channel_run enq deq shut (sees h a) s0 = (took_from h (evs @ [e]), hub_heap hub' h)"
    if "h < hub_next hub" for h
    using took that by (intro hub_ok_old [OF ok that]) (auto simp: hub_put_def)
  show ?thesis
    using ok old took deq_Some [OF took(4)] by (auto simp: hub_ok_def hub_put_def opened_at_append)
next
  case (shut h0)
  have old: "\<exists>b s0 a. opened_at h (evs @ [e]) = Some (b, s0, a) \<and> is_new s0 \<and>
      channel_run enq deq shut (sees h a) s0 = (took_from h (evs @ [e]), hub_heap hub' h)"
    if "h < hub_next hub" for h
    using shut that by (intro hub_ok_old [OF ok that]) (auto simp: hub_shut_def)
  show ?thesis
    using ok old shut by (auto simp: hub_ok_def hub_shut_def opened_at_append shut_closes)
next
  case shut_all
  have heap: "hub_heap hub' h = shut (hub_heap hub h)" if "h < hub_next hub" for h
    using shut_all(2) hub_okD(1,2) [OF ok] that
    by (auto simp: hub_shut_all_def close_all_apply shut_again)
  have old: "\<exists>b s0 a. opened_at h (evs @ [e]) = Some (b, s0, a) \<and> is_new s0 \<and>
      channel_run enq deq shut (sees h a) s0 = (took_from h (evs @ [e]), hub_heap hub' h)"
    if "h < hub_next hub" for h
    using shut_all(1) heap that by (intro hub_ok_old [OF ok that]) auto
  show ?thesis
    using ok old heap shut_all
    by (auto simp: hub_ok_def hub_shut_all_def opened_at_append shut_closes)
qed

text \<open>The isolation of subscriptions: what one holds is a function of what it has seen alone.\<close>

lemma hub_trace_ok:
  assumes "hub_trace enq deq shut is_new evs hub" and "\<And>s. is_new s \<Longrightarrow> \<not> is_shut s"
  shows "hub_ok enq deq shut is_shut is_new evs hub"
  using assms(1)
proof induction
  case (start s)
  show ?case by (simp add: hub_ok_def hub_empty_def)
next
  case (extend evs hub e hub')
  from hub_step_ok [OF extend(2,3) assms(2)] show ?case .
qed

end

end
