(* ===== verification/Pcmu_Subscriptions.thy ===== *)
theory Pcmu_Subscriptions
  imports Pcmu_Protocol Channels
begin

text \<open>
  \<^verbatim>\<open>src/sds200/pcmu_subscriptions.py\<close> and \<^verbatim>\<open>src/sds200/pcmu_stream.py\<close>: bounded PCMU packet
  subscriptions, the publisher that numbers packets and fans them out, and the stream adapter
  that feeds it. Each method holds its lock for its whole body, so a method is one step of the
  state. A subscription object is a handle (a number, allocated in order) into the publisher's
  heap; the publisher's set of open subscriptions is the list of their handles.
\<close>

section \<open>One subscription\<close>

record pcmu_subscription =
  sb_queue_capacity :: int
  sb_queue :: "pcmu_publication list"
  sb_queued_payload_bytes :: int
  sb_packets_delivered :: int
  sb_payload_bytes_delivered :: int
  sb_packets_dropped :: int
  sb_payload_bytes_dropped :: int
  sb_overflows :: int
  sb_last_delivered :: "int option"
  sb_last_dropped :: "int option"
  sb_closed :: bool

definition subscription_init :: "int \<Rightarrow> pcmu_subscription" where
  "subscription_init queue_capacity =
     \<lparr>sb_queue_capacity = queue_capacity, sb_queue = [], sb_queued_payload_bytes = 0,
      sb_packets_delivered = 0, sb_payload_bytes_delivered = 0, sb_packets_dropped = 0,
      sb_payload_bytes_dropped = 0, sb_overflows = 0, sb_last_delivered = None,
      sb_last_dropped = None, sb_closed = False\<rparr>"

abbreviation payload_bytes :: "pcmu_publication \<Rightarrow> int" where
  "payload_bytes p \<equiv> int (length (pk_payload (pub_packet p)))"

datatype get_error = SubscriptionClosed | QueueEmpty

text \<open>
  One pass of the loop of \<open>get\<close>: closed, a delivery, or an empty queue. With an empty queue the
  code waits and looks again, and raises \<open>queue.Empty\<close> once its deadline has passed;
  \<^theory_text>\<open>QueueEmpty\<close> is that outcome, and leaves the subscription as it was.
\<close>

definition subscription_get ::
  "pcmu_subscription \<Rightarrow> get_error + pcmu_delivery \<times> pcmu_subscription" where
  "subscription_get s =
     (if sb_closed s then Inl SubscriptionClosed
      else case sb_queue s of
        [] \<Rightarrow> Inl QueueEmpty
      | publication # rest \<Rightarrow>
          (let n = payload_bytes publication in
           Inr (\<lparr>dl_publication = publication, dl_packets_dropped = sb_packets_dropped s,
                 dl_payload_bytes_dropped = sb_payload_bytes_dropped s,
                 dl_overflows = sb_overflows s\<rparr>,
                s\<lparr>sb_queue := rest,
                  sb_queued_payload_bytes := sb_queued_payload_bytes s - n,
                  sb_packets_delivered := sb_packets_delivered s + 1,
                  sb_payload_bytes_delivered := sb_payload_bytes_delivered s + n,
                  sb_last_delivered := Some (pub_stream_sequence publication)\<rparr>)))"

text \<open>
  The queue's capacity is at least one, so at capacity it is not empty; \<open>popleft\<close> on an empty
  queue would raise.
\<close>

definition subscription_enqueue :: "pcmu_publication \<Rightarrow> pcmu_subscription \<Rightarrow> pcmu_subscription" where
  "subscription_enqueue publication s =
     (if sb_closed s then s
      else
        let s1 =
          (if int (length (sb_queue s)) \<ge> sb_queue_capacity s then
             case sb_queue s of
               [] \<Rightarrow> s
             | d # rest \<Rightarrow>
                 s\<lparr>sb_queue := rest,
                   sb_queued_payload_bytes := sb_queued_payload_bytes s - payload_bytes d,
                   sb_packets_dropped := sb_packets_dropped s + 1,
                   sb_payload_bytes_dropped := sb_payload_bytes_dropped s + payload_bytes d,
                   sb_overflows := sb_overflows s + 1,
                   sb_last_dropped := Some (pub_stream_sequence d)\<rparr>
           else s)
        in s1\<lparr>sb_queue := sb_queue s1 @ [publication],
              sb_queued_payload_bytes := sb_queued_payload_bytes s1 + payload_bytes publication\<rparr>)"

definition subscription_shut :: "pcmu_subscription \<Rightarrow> pcmu_subscription" where
  "subscription_shut s =
     (if sb_closed s then s
      else s\<lparr>sb_closed := True, sb_queue := [], sb_queued_payload_bytes := 0\<rparr>)"

datatype subscription_health = Healthy | Degraded | Closed

definition subscription_health :: "pcmu_subscription \<Rightarrow> subscription_health" where
  "subscription_health s =
     (if sb_closed s then Closed else if sb_packets_dropped s \<noteq> 0 then Degraded else Healthy)"

definition delivery_health :: "pcmu_delivery \<Rightarrow> subscription_health" where
  "delivery_health d = (if dl_packets_dropped d \<noteq> 0 then Degraded else Healthy)"

subsection \<open>Invariant\<close>

definition subscription_inv :: "pcmu_subscription \<Rightarrow> bool" where
  "subscription_inv s \<longleftrightarrow>
     1 \<le> sb_queue_capacity s \<and> int (length (sb_queue s)) \<le> sb_queue_capacity s \<and>
     sb_queued_payload_bytes s = (\<Sum>p \<leftarrow> sb_queue s. payload_bytes p) \<and>
     0 \<le> sb_packets_delivered s \<and> 0 \<le> sb_packets_dropped s \<and> 0 \<le> sb_payload_bytes_dropped s \<and>
     sb_overflows s = sb_packets_dropped s \<and> (sb_closed s \<longrightarrow> sb_queue s = [])"

lemma subscription_init_inv: "1 \<le> c \<Longrightarrow> subscription_inv (subscription_init c)"
  by (simp add: subscription_init_def subscription_inv_def)

lemma subscription_enqueue_inv: "subscription_inv s \<Longrightarrow> subscription_inv (subscription_enqueue p s)"
  by (cases "sb_queue s")
    (auto simp: subscription_enqueue_def subscription_inv_def Let_def)

lemma subscription_get_inv:
  "subscription_inv s \<Longrightarrow> subscription_get s = Inr (d, s') \<Longrightarrow> subscription_inv s'"
  by (auto simp: subscription_get_def subscription_inv_def Let_def split: if_splits list.splits)

lemma subscription_shut_inv: "subscription_inv s \<Longrightarrow> subscription_inv (subscription_shut s)"
  by (auto simp: subscription_shut_def subscription_inv_def)

definition subscription_take :: "pcmu_subscription \<Rightarrow> (pcmu_publication \<times> pcmu_subscription) option" where
  "subscription_take s =
     (case subscription_get s of Inl _ \<Rightarrow> None | Inr (d, s') \<Rightarrow> Some (dl_publication d, s'))"

lemma subscription_take_Some:
  "subscription_take s = Some (p, s') \<longleftrightarrow>
     (\<exists>d. subscription_get s = Inr (d, s') \<and> dl_publication d = p)"
  by (auto simp: subscription_take_def split: sum.splits)

text \<open>A PCMU subscription is a channel.\<close>

interpretation pcmu_channel: channel subscription_enqueue subscription_take subscription_shut
  sb_closed sb_queue "\<lambda>s. nat (sb_packets_dropped s)" "\<lambda>s. nat (sb_queue_capacity s)"
  subscription_inv
proof unfold_locales
  fix s :: pcmu_subscription and m :: pcmu_publication and s'
  show "subscription_inv s \<Longrightarrow> length (sb_queue s) \<le> nat (sb_queue_capacity s)"
    by (auto simp: subscription_inv_def)
  show "subscription_inv s \<Longrightarrow> subscription_inv (subscription_enqueue m s)"
    by (rule subscription_enqueue_inv)
  show "subscription_inv s \<Longrightarrow> subscription_take s = Some (m, s') \<Longrightarrow> subscription_inv s'"
    by (auto simp: subscription_take_Some intro: subscription_get_inv)
  show "subscription_inv s \<Longrightarrow> subscription_inv (subscription_shut s)"
    by (rule subscription_shut_inv)
  show "sb_closed s \<Longrightarrow> subscription_enqueue m s = s"
    by (simp add: subscription_enqueue_def)
  show "subscription_inv s \<Longrightarrow> \<not> sb_closed s \<Longrightarrow>
    \<exists>ks. subseq ks (sb_queue s) \<and> sb_queue (subscription_enqueue m s) = ks @ [m] \<and>
      length (sb_queue s) + nat (sb_packets_dropped s) =
      length ks + nat (sb_packets_dropped (subscription_enqueue m s))"
    by (cases "sb_queue s")
      (auto simp: subscription_enqueue_def subscription_inv_def Let_def nat_add_distrib)
  show "sb_closed (subscription_enqueue m s) = sb_closed s"
    "nat (sb_queue_capacity (subscription_enqueue m s)) = nat (sb_queue_capacity s)"
    by (auto simp: subscription_enqueue_def Let_def split: list.splits)
  show "subscription_inv s \<Longrightarrow> (subscription_take s = None) = (sb_closed s \<or> sb_queue s = [])"
    by (auto simp: subscription_take_def subscription_get_def Let_def split: list.splits sum.splits)
  show "subscription_take s = Some (m, s') \<Longrightarrow>
    sb_queue s = m # sb_queue s' \<and> nat (sb_packets_dropped s') = nat (sb_packets_dropped s) \<and>
    sb_closed s' = sb_closed s \<and> nat (sb_queue_capacity s') = nat (sb_queue_capacity s)"
    by (auto simp: subscription_take_Some subscription_get_def Let_def split: if_splits list.splits)
  show "subscription_inv s \<Longrightarrow> sb_queue (subscription_shut s) = []"
    by (auto simp: subscription_shut_def subscription_inv_def)
qed (auto simp: subscription_shut_def)

end
