(* ===== verification/Pcmu_Publisher.thy ===== *)
theory Pcmu_Publisher
  imports Pcmu_Subscriptions
begin

text \<open>
  The publisher of \<^verbatim>\<open>src/sds200/pcmu_subscriptions.py\<close> and the adapter of
  \<^verbatim>\<open>src/sds200/pcmu_stream.py\<close>. A publisher is a record with a heap of subscriptions; a
  subscription's identity is its handle, allocated in order, and the set of open subscriptions is
  the list of their handles. \<^theory_text>\<open>publisher_step\<close> is the transition relation of the whole
  component: any interleaving of its methods is a trace of it. A receive takes only the lock of its
  subscription and may run between two steps of the loop in \<open>publish\<close>; as that loop touches each
  subscription once, the receive has the effect of one before or after the whole publication.
\<close>

section \<open>Publisher\<close>

record pcmu_publisher =
  pb_queue_capacity :: int
  pb_max_subscribers :: int
  pb_max_payload_bytes :: int
  pb_subscriptions :: "handle list"
  pb_stream_sequence :: int
  pb_packets_published :: int
  pb_payload_bytes_published :: int
  pb_closed :: bool
  pb_heap :: "handle \<Rightarrow> pcmu_subscription"
  pb_next :: handle

datatype publisher_error =
    InvalidPublisher pcmu_error
  | PublisherClosed
  | SubscriberLimitReached
  | PayloadTooLarge
  | InvalidPublication pcmu_error

definition publisher_init :: "int \<Rightarrow> int \<Rightarrow> int \<Rightarrow> publisher_error + pcmu_publisher" where
  "publisher_init queue_capacity max_subscribers max_payload_bytes =
     map_error InvalidPublisher
      (bind_res (require_integer PublisherQueueCapacity 1 None queue_capacity) (\<lambda>capacity.
       bind_res (require_integer PublisherSubscriberLimit 1 None max_subscribers) (\<lambda>limit.
       bind_res (require_integer PublisherMaxPayload 1 None max_payload_bytes) (\<lambda>payload.
       Inr \<lparr>pb_queue_capacity = capacity, pb_max_subscribers = limit,
            pb_max_payload_bytes = payload, pb_subscriptions = [], pb_stream_sequence = 0,
            pb_packets_published = 0, pb_payload_bytes_published = 0, pb_closed = False,
            pb_heap = (\<lambda>_. subscription_init capacity), pb_next = 0\<rparr>))))"

definition publisher_subscribe ::
  "pcmu_publisher \<Rightarrow> publisher_error + handle \<times> pcmu_publisher" where
  "publisher_subscribe p =
     raise_if (pb_closed p) PublisherClosed
    (raise_if (int (length (pb_subscriptions p)) \<ge> pb_max_subscribers p) SubscriberLimitReached
      (Inr (pb_next p,
            p\<lparr>pb_subscriptions := pb_subscriptions p @ [pb_next p],
              pb_heap := (pb_heap p)(pb_next p := subscription_init (pb_queue_capacity p)),
              pb_next := pb_next p + 1\<rparr>)))"

definition publisher_publish ::
  "pcmu_packet \<Rightarrow> pcmu_publisher \<Rightarrow> publisher_error + pcmu_publication \<times> pcmu_publisher" where
  "publisher_publish packet p =
     (let payload_bytes = int (length (pk_payload packet)) in
      raise_if (payload_bytes > pb_max_payload_bytes p) PayloadTooLarge
     (raise_if (pb_closed p) PublisherClosed
        (let stream_sequence = pb_stream_sequence p + 1 in
         bind_res (map_error InvalidPublication (pcmu_publication stream_sequence packet))
           (\<lambda>publication.
             Inr (publication,
                  p\<lparr>pb_stream_sequence := stream_sequence,
                    pb_packets_published := pb_packets_published p + 1,
                    pb_payload_bytes_published := pb_payload_bytes_published p + payload_bytes,
                    pb_heap := fan_out subscription_enqueue publication (pb_subscriptions p)
                      (pb_heap p)\<rparr>)))))"

definition publisher_get ::
  "handle \<Rightarrow> pcmu_publisher \<Rightarrow> get_error + pcmu_delivery \<times> pcmu_publisher" where
  "publisher_get h p =
     bind_res (subscription_get (pb_heap p h))
       (\<lambda>(d, s). Inr (d, p\<lparr>pb_heap := (pb_heap p)(h := s)\<rparr>))"

definition publisher_close_subscription :: "handle \<Rightarrow> pcmu_publisher \<Rightarrow> pcmu_publisher" where
  "publisher_close_subscription h p =
     p\<lparr>pb_subscriptions := filter (\<lambda>h'. h' \<noteq> h) (pb_subscriptions p),
       pb_heap := (pb_heap p)(h := subscription_shut (pb_heap p h))\<rparr>"

definition publisher_close :: "pcmu_publisher \<Rightarrow> pcmu_publisher" where
  "publisher_close p =
     (if pb_closed p then p
      else p\<lparr>pb_closed := True, pb_subscriptions := [],
             pb_heap := close_all subscription_shut (pb_subscriptions p) (pb_heap p)\<rparr>)"

record publisher_snapshot =
  ps_closed :: bool
  ps_queue_capacity :: int
  ps_max_subscribers :: int
  ps_max_payload_bytes :: int
  ps_subscriber_count :: int
  ps_packets_published :: int
  ps_payload_bytes_published :: int
  ps_last_stream_sequence :: "int option"

definition publisher_snapshot :: "pcmu_publisher \<Rightarrow> publisher_snapshot" where
  "publisher_snapshot p =
     \<lparr>ps_closed = pb_closed p, ps_queue_capacity = pb_queue_capacity p,
      ps_max_subscribers = pb_max_subscribers p, ps_max_payload_bytes = pb_max_payload_bytes p,
      ps_subscriber_count = int (length (pb_subscriptions p)),
      ps_packets_published = pb_packets_published p,
      ps_payload_bytes_published = pb_payload_bytes_published p,
      ps_last_stream_sequence =
        (if pb_stream_sequence p \<noteq> 0 then Some (pb_stream_sequence p) else None)\<rparr>"

section \<open>Traces\<close>

datatype publisher_event =
    Subscribed handle
  | Published pcmu_publication
  | Received handle pcmu_delivery
  | Unsubscribed handle
  | PublisherShut

inductive publisher_step :: "pcmu_publisher \<Rightarrow> publisher_event \<Rightarrow> pcmu_publisher \<Rightarrow> bool" where
  subscribe: "publisher_subscribe p = Inr (h, p') \<Longrightarrow> publisher_step p (Subscribed h) p'"
| publish: "publisher_publish packet p = Inr (m, p') \<Longrightarrow> publisher_step p (Published m) p'"
| receive: "h < pb_next p \<Longrightarrow> publisher_get h p = Inr (d, p') \<Longrightarrow> publisher_step p (Received h d) p'"
| unsubscribe: "h < pb_next p \<Longrightarrow>
    publisher_step p (Unsubscribed h) (publisher_close_subscription h p)"
| shut: "publisher_step p PublisherShut (publisher_close p)"

inductive_cases publisher_stepE: "publisher_step p e p'"

inductive publisher_trace :: "pcmu_publisher \<Rightarrow> publisher_event list \<Rightarrow> pcmu_publisher \<Rightarrow> bool"
  for p0 where
  start: "publisher_trace p0 [] p0"
| extend: "publisher_trace p0 evs p \<Longrightarrow> publisher_step p e p' \<Longrightarrow> publisher_trace p0 (evs @ [e]) p'"

text \<open>What an observer of a trace counts: packets published before a subscription was opened,
  and the deliveries it has made.\<close>

fun published_before :: "handle \<Rightarrow> publisher_event list \<Rightarrow> int" where
  "published_before h [] = 0"
| "published_before h (Published m # evs) = 1 + published_before h evs"
| "published_before h (Subscribed h' # evs) = (if h' = h then 0 else published_before h evs)"
| "published_before h (_ # evs) = published_before h evs"

fun deliveries :: "handle \<Rightarrow> publisher_event list \<Rightarrow> int" where
  "deliveries h [] = 0"
| "deliveries h (Received h' d # evs) = (if h' = h then 1 else 0) + deliveries h evs"
| "deliveries h (_ # evs) = deliveries h evs"

lemma deliveries_append: "deliveries h (xs @ ys) = deliveries h xs + deliveries h ys"
  by (induction h xs rule: deliveries.induct) auto

lemma published_before_append:
  "published_before h (xs @ ys) =
     published_before h xs + (if Subscribed h \<in> set xs then 0 else published_before h ys)"
  by (induction h xs rule: published_before.induct) auto

section \<open>Invariant of the publisher\<close>

text \<open>
  Open subscriptions are exactly the registered ones, there are never more of them than the limit,
  each respects its own bounds, and the sequence number counts the packets published.
\<close>

definition publisher_inv :: "pcmu_publisher \<Rightarrow> bool" where
  "publisher_inv p \<longleftrightarrow>
     1 \<le> pb_queue_capacity p \<and> 1 \<le> pb_max_payload_bytes p \<and> distinct (pb_subscriptions p) \<and>
     int (length (pb_subscriptions p)) \<le> pb_max_subscribers p \<and>
     set (pb_subscriptions p) = {h. h < pb_next p \<and> \<not> sb_closed (pb_heap p h)} \<and>
     (\<forall>h < pb_next p. subscription_inv (pb_heap p h) \<and>
        sb_queue_capacity (pb_heap p h) = pb_queue_capacity p \<and>
        (\<forall>m \<in> set (sb_queue (pb_heap p h)). payload_bytes m \<le> pb_max_payload_bytes p)) \<and>
     0 \<le> pb_stream_sequence p \<and> pb_packets_published p = pb_stream_sequence p \<and>
     (pb_closed p \<longrightarrow> pb_subscriptions p = [])"

lemma publisher_invD:
  assumes "publisher_inv p"
  shows "distinct (pb_subscriptions p)" and "0 \<le> pb_stream_sequence p"
    and "h \<in> set (pb_subscriptions p) \<longleftrightarrow> h < pb_next p \<and> \<not> sb_closed (pb_heap p h)"
    and "h < pb_next p \<Longrightarrow> subscription_inv (pb_heap p h)"
    and "h < pb_next p \<Longrightarrow> sb_queue_capacity (pb_heap p h) = pb_queue_capacity p"
    and "h < pb_next p \<Longrightarrow> m \<in> set (sb_queue (pb_heap p h)) \<Longrightarrow>
      payload_bytes m \<le> pb_max_payload_bytes p"
  using assms by (auto simp: publisher_inv_def)

lemma publisher_init_inv:
  assumes "publisher_init c n b = Inr p" shows "publisher_inv p"
  using assms by (auto simp: publisher_init_def publisher_inv_def res_simps)

lemma subscription_init_simps:
  "\<not> sb_closed (subscription_init c)" "sb_queue_capacity (subscription_init c) = c"
  "sb_queue (subscription_init c) = []" "sb_packets_delivered (subscription_init c) = 0"
  "sb_packets_dropped (subscription_init c) = 0"
  by (simp_all add: subscription_init_def)

lemma publisher_subscribe_inv:
  assumes "publisher_inv p" and "publisher_subscribe p = Inr (h, p')"
  shows "publisher_inv p'"
  using assms
  by (auto simp: publisher_subscribe_def publisher_inv_def res_simps less_Suc_eq
      subscription_init_simps intro: subscription_init_inv)

lemma subscription_enqueue_simps [simp]:
  "sb_closed (subscription_enqueue m s) = sb_closed s"
  "sb_queue_capacity (subscription_enqueue m s) = sb_queue_capacity s"
  "sb_packets_delivered (subscription_enqueue m s) = sb_packets_delivered s"
  by (auto simp: subscription_enqueue_def Let_def split: list.splits)

lemma subscription_enqueue_subset:
  "x \<in> set (sb_queue (subscription_enqueue m s)) \<Longrightarrow> x \<in> set (sb_queue s) \<or> x = m"
  by (auto simp: subscription_enqueue_def Let_def split: if_splits list.splits)

lemma publish_Inr:
  "publisher_publish packet p = Inr (m, p') \<longleftrightarrow>
     int (length (pk_payload packet)) \<le> pb_max_payload_bytes p \<and> \<not> pb_closed p \<and>
     0 \<le> pb_stream_sequence p \<and>
     m = \<lparr>pub_stream_sequence = pb_stream_sequence p + 1, pub_packet = packet\<rparr> \<and>
     p' = p\<lparr>pb_stream_sequence := pb_stream_sequence p + 1,
            pb_packets_published := pb_packets_published p + 1,
            pb_payload_bytes_published :=
              pb_payload_bytes_published p + int (length (pk_payload packet)),
            pb_heap := fan_out subscription_enqueue m (pb_subscriptions p) (pb_heap p)\<rparr>"
  by (auto simp: publisher_publish_def pcmu_publication_def Let_def res_simps)

lemma publisher_publish_inv:
  assumes inv: "publisher_inv p" and pub: "publisher_publish packet p = Inr (m, p')"
  shows "publisher_inv p'"
proof -
  have heap: "pb_heap p' h =
      (if h \<in> set (pb_subscriptions p) then subscription_enqueue m (pb_heap p h) else pb_heap p h)" for h
    using pub inv by (simp add: publish_Inr fan_out_apply publisher_invD(1))
  have same: "pb_subscriptions p' = pb_subscriptions p" "pb_next p' = pb_next p"
    "pb_queue_capacity p' = pb_queue_capacity p" "pb_max_subscribers p' = pb_max_subscribers p"
    "pb_closed p' = pb_closed p" "pb_max_payload_bytes p' = pb_max_payload_bytes p"
    "pb_stream_sequence p' = pb_stream_sequence p + 1"
    "pb_packets_published p' = pb_packets_published p + 1"
    "payload_bytes m \<le> pb_max_payload_bytes p"
    using pub by (auto simp: publish_Inr)
  show ?thesis
    using inv unfolding publisher_inv_def same heap
    by (auto simp: same(9) intro: subscription_enqueue_inv dest: subscription_enqueue_subset)
qed

lemma publisher_get_inv:
  assumes inv: "publisher_inv p" and h: "h < pb_next p" and get: "publisher_get h p = Inr (d, p')"
  shows "publisher_inv p'"
proof -
  obtain s where s: "subscription_get (pb_heap p h) = Inr (d, s)"
    and p': "p' = p\<lparr>pb_heap := (pb_heap p)(h := s)\<rparr>"
    using get by (auto simp: publisher_get_def res_simps)
  have "sb_closed s = sb_closed (pb_heap p h)" "sb_queue_capacity s = sb_queue_capacity (pb_heap p h)"
    "set (sb_queue s) \<subseteq> set (sb_queue (pb_heap p h))"
    using s by (auto simp: subscription_get_def Let_def split: if_splits list.splits)
  moreover have "subscription_inv s"
    using subscription_get_inv [OF publisher_invD(4) [OF inv h] s] .
  ultimately show ?thesis
    using inv unfolding p' publisher_inv_def by auto
qed

lemma subscription_shut_simps [simp]:
  "sb_closed (subscription_shut s)" "sb_queue_capacity (subscription_shut s) = sb_queue_capacity s"
  by (auto simp: subscription_shut_def)

lemma publisher_close_subscription_inv:
  assumes inv: "publisher_inv p" and h: "h < pb_next p"
  shows "publisher_inv (publisher_close_subscription h p)"
proof -
  have "int (length (filter (\<lambda>h'. h' \<noteq> h) (pb_subscriptions p))) \<le> pb_max_subscribers p"
    using inv by (auto simp: publisher_inv_def intro: order_trans [rotated])
  moreover have "sb_queue (subscription_shut (pb_heap p h)) = []"
    "subscription_inv (subscription_shut (pb_heap p h))"
    using publisher_invD(4) [OF inv h] pcmu_channel.shut_clears pcmu_channel.invar_shut by auto
  ultimately show ?thesis
    using inv unfolding publisher_inv_def publisher_close_subscription_def by auto
qed

lemma publisher_close_inv:
  assumes inv: "publisher_inv p" shows "publisher_inv (publisher_close p)"
proof (cases "pb_closed p")
  case True
  then show ?thesis using inv by (simp add: publisher_close_def)
next
  case False
  define p' where "p' = publisher_close p"
  have heap: "pb_heap p' h =
      (if h \<in> set (pb_subscriptions p) then subscription_shut (pb_heap p h) else pb_heap p h)" for h
    using False inv by (simp add: p'_def publisher_close_def close_all_apply publisher_invD(1))
  have same: "pb_next p' = pb_next p" "pb_queue_capacity p' = pb_queue_capacity p"
    "pb_max_subscribers p' = pb_max_subscribers p" "pb_subscriptions p' = []" "pb_closed p'"
    "pb_max_payload_bytes p' = pb_max_payload_bytes p"
    "pb_stream_sequence p' = pb_stream_sequence p" "pb_packets_published p' = pb_packets_published p"
    using False by (simp_all add: p'_def publisher_close_def)
  have clear: "h < pb_next p \<Longrightarrow> sb_queue (subscription_shut (pb_heap p h)) = []" for h
    using publisher_invD(4) [OF inv] by (rule pcmu_channel.shut_clears)
  have shut_inv: "h < pb_next p \<Longrightarrow> subscription_inv (subscription_shut (pb_heap p h))" for h
    using publisher_invD(4) [OF inv] by (rule subscription_shut_inv)
  have "publisher_inv p'"
    using inv unfolding publisher_inv_def same heap
    by (auto simp: clear shut_inv)
  then show ?thesis by (simp add: p'_def)
qed

lemma publisher_step_inv: "publisher_step p e p' \<Longrightarrow> publisher_inv p \<Longrightarrow> publisher_inv p'"
  by (erule publisher_stepE)
    (auto intro: publisher_subscribe_inv publisher_publish_inv publisher_get_inv
      publisher_close_subscription_inv publisher_close_inv)

lemma publisher_trace_inv: "publisher_trace p0 evs p \<Longrightarrow> publisher_inv p0 \<Longrightarrow> publisher_inv p"
  by (induction rule: publisher_trace.induct) (auto intro: publisher_step_inv)

section \<open>Gap accounting\<close>

text \<open>
  What a queue holds, in terms of the trace: after the packets published before the subscription
  was opened, those delivered and those dropped, all remaining ones in order.
\<close>

definition accounted :: "publisher_event list \<Rightarrow> pcmu_publisher \<Rightarrow> handle \<Rightarrow> bool" where
  "accounted evs p h \<longleftrightarrow>
     (let s = pb_heap p h; k = published_before h evs + deliveries h evs + sb_packets_dropped s in
      Subscribed h \<in> set evs \<and> k + int (length (sb_queue s)) = pb_stream_sequence p \<and>
      map pub_stream_sequence (sb_queue s) = [k + 1..pb_stream_sequence p])"

definition fresh_handles :: "publisher_event list \<Rightarrow> pcmu_publisher \<Rightarrow> bool" where
  "fresh_handles evs p \<longleftrightarrow>
     (\<forall>h \<ge> pb_next p. Subscribed h \<notin> set evs \<and> deliveries h evs = 0 \<and>
        published_before h evs = pb_stream_sequence p)"

lemma accounted_enqueue:
  assumes acc: "accounted evs p h" and inv: "publisher_inv p"
    and h: "h \<in> set (pb_subscriptions p)" and pub: "publisher_publish packet p = Inr (m, p')"
  shows "accounted (evs @ [Published m]) p' h"
proof -
  define s where "s = pb_heap p h"
  define k where "k = published_before h evs + deliveries h evs + sb_packets_dropped s"
  have p': "pb_stream_sequence p' = pb_stream_sequence p + 1"
    "pb_heap p' h = subscription_enqueue m s" "pub_stream_sequence m = pb_stream_sequence p + 1"
    using pub h publisher_invD(1) [OF inv] by (auto simp: publish_Inr fan_out_apply s_def)
  have s: "\<not> sb_closed s" "1 \<le> sb_queue_capacity s"
    using publisher_invD(3,4) [OF inv] h by (auto simp: s_def subscription_inv_def)
  have a: "Subscribed h \<in> set evs" "k + int (length (sb_queue s)) = pb_stream_sequence p"
    "map pub_stream_sequence (sb_queue s) = [k + 1..pb_stream_sequence p]"
    using acc by (auto simp: accounted_def s_def k_def Let_def)
  have snoc: "[k + 1..pb_stream_sequence p + 1] = [k + 1..pb_stream_sequence p] @ [pb_stream_sequence p + 1]"
    using a(2) upto_rec2 [of "k + 1" "pb_stream_sequence p + 1"] by simp
  have k': "published_before h (evs @ [Published m]) + deliveries h (evs @ [Published m]) = k - sb_packets_dropped s"
    using a(1) by (simp add: published_before_append deliveries_append k_def)
  show ?thesis
  proof (cases "int (length (sb_queue s)) \<ge> sb_queue_capacity s")
    case False
    then have q: "sb_queue (subscription_enqueue m s) = sb_queue s @ [m]"
      "sb_packets_dropped (subscription_enqueue m s) = sb_packets_dropped s"
      using s by (auto simp: subscription_enqueue_def)
    show ?thesis using a p' k' snoc by (simp add: accounted_def Let_def q)
  next
    case True
    then obtain d rest where sq: "sb_queue s = d # rest" using s by (cases "sb_queue s") auto
    then have q: "sb_queue (subscription_enqueue m s) = rest @ [m]"
      "sb_packets_dropped (subscription_enqueue m s) = sb_packets_dropped s + 1"
      using s True by (auto simp: subscription_enqueue_def)
    have "[k + 1..pb_stream_sequence p] = (k + 1) # [k + 2..pb_stream_sequence p]"
      using a(2) sq upto_rec1 [of "k + 1" "pb_stream_sequence p"] by (simp add: add.commute)
    then have rest: "map pub_stream_sequence rest = [k + 2..pb_stream_sequence p]"
      using a(3) sq by simp
    have "[k + 2..pb_stream_sequence p + 1] = [k + 2..pb_stream_sequence p] @ [pb_stream_sequence p + 1]"
      using a(2) sq upto_rec2 [of "k + 2" "pb_stream_sequence p + 1"] by simp
    then show ?thesis using a sq p' k' rest by (simp add: accounted_def Let_def q algebra_simps)
  qed
qed

lemma accounted_get:
  assumes acc: "accounted evs p h" and get: "publisher_get h p = Inr (d, p')"
  shows "accounted (evs @ [Received h d]) p' h"
    and "pub_stream_sequence (dl_publication d) =
      published_before h evs + deliveries h evs + dl_packets_dropped d + 1"
proof -
  define s where "s = pb_heap p h"
  define k where "k = published_before h evs + deliveries h evs + sb_packets_dropped s"
  obtain s' where s': "subscription_get s = Inr (d, s')"
    and p': "p' = p\<lparr>pb_heap := (pb_heap p)(h := s')\<rparr>"
    using get by (auto simp: publisher_get_def res_simps s_def)
  obtain q where q: "sb_queue s = dl_publication d # q" "sb_queue s' = q"
    "sb_packets_dropped s' = sb_packets_dropped s" "dl_packets_dropped d = sb_packets_dropped s"
    using s' by (auto simp: subscription_get_def Let_def split: if_splits list.splits)
  have a: "Subscribed h \<in> set evs" "k + int (length (sb_queue s)) = pb_stream_sequence p"
    "map pub_stream_sequence (sb_queue s) = [k + 1..pb_stream_sequence p]"
    using acc by (auto simp: accounted_def s_def k_def Let_def)
  have up: "[k + 1..pb_stream_sequence p] = (k + 1) # [k + 2..pb_stream_sequence p]"
    using a(2) q(1) upto_rec1 [of "k + 1" "pb_stream_sequence p"] by (simp add: add.commute)
  show "accounted (evs @ [Received h d]) p' h"
    using a up q by (simp add: accounted_def Let_def p' published_before_append deliveries_append k_def
        algebra_simps)
  show "pub_stream_sequence (dl_publication d) =
      published_before h evs + deliveries h evs + dl_packets_dropped d + 1"
    using a(3) up q by (simp add: k_def)
qed

lemma accounted_other:
  assumes "accounted evs p h" and "pb_heap p' h = pb_heap p h"
    and "pb_stream_sequence p' = pb_stream_sequence p"
    and "\<And>m. e \<noteq> Published m" and "\<And>d. e \<noteq> Received h d"
  shows "accounted (evs @ [e]) p' h"
proof -
  have "deliveries h [e] = 0" using assms(5) by (cases e) auto
  then show ?thesis
    using assms(1-3) by (auto simp: accounted_def Let_def published_before_append deliveries_append)
qed

lemma step_fresh_handles:
  assumes "publisher_step p e p'" and fresh: "fresh_handles evs p"
  shows "fresh_handles (evs @ [e]) p'"
  using assms(1)
proof cases
  case (subscribe h)
  then show ?thesis using fresh
    by (auto simp: fresh_handles_def publisher_subscribe_def res_simps published_before_append
        deliveries_append)
next
  case (publish packet m)
  then show ?thesis using fresh
    by (auto simp: fresh_handles_def publish_Inr published_before_append deliveries_append)
next
  case (receive h d)
  then show ?thesis using fresh
    by (auto simp: fresh_handles_def publisher_get_def res_simps published_before_append
        deliveries_append)
next
  case (unsubscribe h)
  then show ?thesis using fresh
    by (auto simp: fresh_handles_def publisher_close_subscription_def published_before_append
        deliveries_append)
next
  case shut
  then show ?thesis using fresh
    by (auto simp: fresh_handles_def publisher_close_def published_before_append deliveries_append)
qed

lemma step_accounted:
  assumes step: "publisher_step p e p'" and inv: "publisher_inv p" and fresh: "fresh_handles evs p"
    and acc: "\<forall>h \<in> set (pb_subscriptions p). accounted evs p h"
  shows "\<forall>h \<in> set (pb_subscriptions p'). accounted (evs @ [e]) p' h"
  using step
proof cases
  case (subscribe h)
  then have h: "h = pb_next p"
    and p': "p' = p\<lparr>pb_subscriptions := pb_subscriptions p @ [h],
      pb_heap := (pb_heap p)(h := subscription_init (pb_queue_capacity p)), pb_next := h + 1\<rparr>"
    by (auto simp: publisher_subscribe_def res_simps)
  have old: "h' \<noteq> h" if "h' \<in> set (pb_subscriptions p)" for h'
    using publisher_invD(3) [OF inv] that h by auto
  have "accounted (evs @ [Subscribed h]) p' h"
    using fresh by (simp add: accounted_def fresh_handles_def h p' published_before_append
        deliveries_append subscription_init_simps)
  moreover have "accounted (evs @ [Subscribed h]) p' h'" if "h' \<in> set (pb_subscriptions p)" for h'
    using acc that old [OF that] by (auto intro!: accounted_other simp: p')
  ultimately show ?thesis using subscribe(1) p' by auto
next
  case (publish packet m)
  then have "pb_subscriptions p' = pb_subscriptions p" by (auto simp: publish_Inr)
  then show ?thesis using acc accounted_enqueue [OF _ inv _ publish(2)] publish(1) by auto
next
  case (receive h d)
  then obtain s where p': "p' = p\<lparr>pb_heap := (pb_heap p)(h := s)\<rparr>"
    by (auto simp: publisher_get_def res_simps)
  have "accounted (evs @ [e]) p' h'" if "h' \<in> set (pb_subscriptions p)" for h'
  proof (cases "h' = h")
    case True
    then show ?thesis using accounted_get(1) [OF _ receive(3)] acc that receive(1) by auto
  next
    case False
    then show ?thesis using acc that receive(1) by (auto intro!: accounted_other simp: p')
  qed
  then show ?thesis by (simp add: p')
next
  case (unsubscribe h)
  then show ?thesis using acc
    by (auto intro!: accounted_other simp: publisher_close_subscription_def)
next
  case shut
  then show ?thesis using acc inv
    by (auto intro!: accounted_other simp: publisher_close_def publisher_inv_def)
qed

lemma trace_accounted:
  assumes "publisher_trace p0 evs p" and "publisher_init c n b = Inr p0"
  shows "fresh_handles evs p \<and> (\<forall>h \<in> set (pb_subscriptions p). accounted evs p h)"
  using assms(1)
proof induction
  case start
  then show ?case using assms(2) by (auto simp: fresh_handles_def publisher_init_def res_simps)
next
  case (extend evs p e p')
  have "publisher_inv p" using publisher_trace_inv [OF extend(1) publisher_init_inv [OF assms(2)]] .
  with extend step_fresh_handles step_accounted show ?case by blast
qed

lemma trace_capacity: "publisher_trace p0 evs p \<Longrightarrow> pb_queue_capacity p = pb_queue_capacity p0"
proof (induction rule: publisher_trace.induct)
  case (extend evs p e p')
  from extend(2) show ?case
    by cases (use extend.IH in \<open>auto simp: publisher_subscribe_def publish_Inr publisher_get_def
      publisher_close_subscription_def publisher_close_def res_simps\<close>)
qed simp

section \<open>Which subscriptions are open\<close>

text \<open>By a trace: those that were opened and not closed, while the publisher was not closed.\<close>

definition open_in :: "publisher_event list \<Rightarrow> handle \<Rightarrow> bool" where
  "open_in evs h \<longleftrightarrow> Subscribed h \<in> set evs \<and> Unsubscribed h \<notin> set evs \<and> PublisherShut \<notin> set evs"

lemma trace_open:
  assumes "publisher_trace p0 evs p" and "publisher_init c n b = Inr p0"
  shows "(\<forall>h. h \<in> set (pb_subscriptions p) \<longleftrightarrow> open_in evs h) \<and>
    (pb_closed p \<longleftrightarrow> PublisherShut \<in> set evs) \<and> (\<forall>h \<ge> pb_next p. Unsubscribed h \<notin> set evs)"
  using assms(1)
proof induction
  case start
  then show ?case using assms(2) by (auto simp: open_in_def publisher_init_def res_simps)
next
  case (extend evs p e p')
  have inv: "publisher_inv p" using publisher_trace_inv [OF extend(1) publisher_init_inv [OF assms(2)]] .
  from extend(2) show ?case
  proof cases
    case (subscribe h)
    then show ?thesis using extend.IH
      by (auto simp: open_in_def publisher_subscribe_def res_simps)
  next
    case (publish packet m)
    then show ?thesis using extend.IH by (auto simp: open_in_def publish_Inr)
  next
    case (receive h d)
    then show ?thesis using extend.IH by (auto simp: open_in_def publisher_get_def res_simps)
  next
    case (unsubscribe h)
    then show ?thesis using extend.IH by (auto simp: open_in_def publisher_close_subscription_def)
  next
    case shut
    then show ?thesis using extend.IH inv
      by (auto simp: open_in_def publisher_close_def publisher_inv_def)
  qed
qed

lemma enqueue_queue:
  assumes "subscription_inv s" and "\<not> sb_closed s"
  shows "sb_queue (subscription_enqueue m s) =
    drop (length (sb_queue s) + 1 - nat (sb_queue_capacity s)) (sb_queue s) @ [m]"
proof (cases "sb_queue s")
  case Nil
  then show ?thesis using assms by (auto simp: subscription_enqueue_def Let_def subscription_inv_def)
next
  case (Cons d rest)
  have "length rest + 2 - nat (sb_queue_capacity s) =
      (if int (length (sb_queue s)) \<ge> sb_queue_capacity s then 1 else 0)"
    using assms(1) Cons by (auto simp: subscription_inv_def)
  then show ?thesis using assms(2) Cons by (auto simp: subscription_enqueue_def Let_def)
qed

section \<open>Running a publisher\<close>

text \<open>Method calls as data; a call that raises leaves no event and the state as it was.\<close>

datatype publisher_call =
    CallSubscribe
  | CallPublish pcmu_packet
  | CallGet handle
  | CallCloseSubscription handle
  | CallClose

fun publisher_do :: "publisher_call \<Rightarrow> pcmu_publisher \<Rightarrow> publisher_event list \<times> pcmu_publisher" where
  "publisher_do CallSubscribe p =
     (case publisher_subscribe p of Inl _ \<Rightarrow> ([], p) | Inr (h, p') \<Rightarrow> ([Subscribed h], p'))"
| "publisher_do (CallPublish packet) p =
     (case publisher_publish packet p of Inl _ \<Rightarrow> ([], p) | Inr (m, p') \<Rightarrow> ([Published m], p'))"
| "publisher_do (CallGet h) p =
     (if h < pb_next p
      then case publisher_get h p of Inl _ \<Rightarrow> ([], p) | Inr (d, p') \<Rightarrow> ([Received h d], p')
      else ([], p))"
| "publisher_do (CallCloseSubscription h) p =
     (if h < pb_next p then ([Unsubscribed h], publisher_close_subscription h p) else ([], p))"
| "publisher_do CallClose p = ([PublisherShut], publisher_close p)"

fun publisher_run ::
  "publisher_call list \<Rightarrow> publisher_event list \<times> pcmu_publisher \<Rightarrow> publisher_event list \<times> pcmu_publisher" where
  "publisher_run [] st = st"
| "publisher_run (c # cs) (evs, p) =
     publisher_run cs (case publisher_do c p of (new, p') \<Rightarrow> (evs @ new, p'))"

lemma publisher_do_trace:
  assumes "publisher_do c p = (new, p')" and tr: "publisher_trace p0 evs p"
  shows "publisher_trace p0 (evs @ new) p'"
proof (cases "new = []")
  case True
  then have "p' = p" using assms(1) by (cases c) (auto split: sum.splits if_splits)
  then show ?thesis using True tr by simp
next
  case False
  then obtain e where "new = [e]" "publisher_step p e p'"
    using assms(1) by (cases c) (auto split: sum.splits if_splits intro: publisher_step.intros)
  then show ?thesis using publisher_trace.extend [OF tr] by simp
qed

lemma publisher_run_trace:
  "publisher_run cs (evs, p) = (evs', p') \<Longrightarrow> publisher_trace p0 evs p \<Longrightarrow> publisher_trace p0 evs' p'"
proof (induction cs arbitrary: evs p)
  case Nil
  then show ?case by simp
next
  case (Cons c cs)
  obtain new q where q: "publisher_do c p = (new, q)" by fastforce
  from Cons.prems(1) q have "publisher_run cs (evs @ new, q) = (evs', p')" by simp
  then show ?case by (rule Cons.IH) (rule publisher_do_trace [OF q Cons.prems(2)])
qed

section \<open>The stream adapter\<close>

record pcmu_stream =
  ss_closed :: bool
  ss_publisher :: pcmu_publisher
  ss_subscribed :: bool

text \<open>
  The packet source is a parameter of the adapter: whether registering the callback raised, and
  how its unsubscribe function ended. An \<open>Exception\<close> is logged and swallowed; any other
  \<open>BaseException\<close> (\<open>KeyboardInterrupt\<close>, \<open>SystemExit\<close>) leaves \<open>close\<close> at once.
\<close>

datatype stream_error =
    StreamPublisherError publisher_error
  | SourceRejected
  | UnsubscribeInterrupted

datatype unsubscribe_outcome = Returned | RaisedException | RaisedBaseException

definition stream_init ::
  "bool \<Rightarrow> int \<Rightarrow> int \<Rightarrow> int \<Rightarrow> stream_error + pcmu_stream" where
  "stream_init source_accepts queue_capacity max_subscribers max_payload_bytes =
     bind_res (map_error StreamPublisherError
         (publisher_init queue_capacity max_subscribers max_payload_bytes))
       (\<lambda>publisher. raise_if (\<not> source_accepts) SourceRejected
         (Inr \<lparr>ss_closed = False, ss_publisher = publisher, ss_subscribed = True\<rparr>))"

definition stream_receive_packet ::
  "pcmu_packet \<Rightarrow> pcmu_stream \<Rightarrow> stream_error + pcmu_stream" where
  "stream_receive_packet packet st =
     (if ss_closed st then Inr st
      else bind_res (map_error StreamPublisherError (publisher_publish packet (ss_publisher st)))
        (\<lambda>(_, publisher). Inr (st\<lparr>ss_publisher := publisher\<rparr>)))"

text \<open>Closing returns what it raised, if anything, and the state it left.\<close>

definition stream_close :: "unsubscribe_outcome \<Rightarrow> pcmu_stream \<Rightarrow> stream_error option \<times> pcmu_stream" where
  "stream_close outcome st =
     (if ss_closed st then (None, st)
      else
        let st1 = st\<lparr>ss_closed := True, ss_subscribed := False\<rparr> in
        if ss_subscribed st \<and> outcome = RaisedBaseException then (Some UnsubscribeInterrupted, st1)
        else (None, st1\<lparr>ss_publisher := publisher_close (ss_publisher st1)\<rparr>))"

text \<open>
  The states a stream can reach: packets arrive from the source, clients open, read and close
  subscriptions, and the stream is closed, once or more often.
\<close>

inductive stream_reach :: "pcmu_stream \<Rightarrow> pcmu_stream \<Rightarrow> bool" for st0 where
  refl: "stream_reach st0 st0"
| packet: "stream_reach st0 st \<Longrightarrow> stream_receive_packet packet st = Inr st' \<Longrightarrow> stream_reach st0 st'"
| client: "stream_reach st0 st \<Longrightarrow> publisher_step (ss_publisher st) e p' \<Longrightarrow>
    (case e of Published m \<Rightarrow> False | PublisherShut \<Rightarrow> False | _ \<Rightarrow> True) \<Longrightarrow>
    stream_reach st0 (st\<lparr>ss_publisher := p'\<rparr>)"
| close: "stream_reach st0 st \<Longrightarrow> stream_close outcome st = (raised, st') \<Longrightarrow> stream_reach st0 st'"

definition stream_inv :: "pcmu_stream \<Rightarrow> bool" where
  "stream_inv st \<longleftrightarrow> publisher_inv (ss_publisher st) \<and>
     (\<not> ss_closed st \<longrightarrow> ss_subscribed st \<and> \<not> pb_closed (ss_publisher st))"

lemma client_step_keeps:
  assumes "publisher_step p e p'" and "case e of Published m \<Rightarrow> False | PublisherShut \<Rightarrow> False | _ \<Rightarrow> True"
  shows "pb_closed p' = pb_closed p" and "pb_packets_published p' = pb_packets_published p"
  using assms(1) by (cases; use assms(2) in \<open>auto simp: publisher_subscribe_def publisher_get_def
    publisher_close_subscription_def res_simps\<close>)+

lemma stream_receive_Inr:
  "stream_receive_packet packet st = Inr st' \<longleftrightarrow>
     (if ss_closed st then st' = st
      else \<exists>m p'. publisher_publish packet (ss_publisher st) = Inr (m, p') \<and> st' = st\<lparr>ss_publisher := p'\<rparr>)"
  by (auto simp: stream_receive_packet_def res_simps)

lemma stream_init_inv: "stream_init True c n b = Inr st \<Longrightarrow> stream_inv st"
  by (auto simp: stream_init_def stream_inv_def res_simps intro: publisher_init_inv)
    (auto simp: publisher_init_def res_simps)

lemma stream_reach_inv: "stream_reach st0 st \<Longrightarrow> stream_inv st0 \<Longrightarrow> stream_inv st"
proof (induction rule: stream_reach.induct)
  case (packet st packet st')
  then show ?case
    by (auto simp: stream_inv_def stream_receive_Inr publish_Inr split: if_splits
        intro: publisher_publish_inv [of _ packet])
next
  case (client st e p')
  then show ?case
    using client_step_keeps [OF client.hyps(2,3)] by (auto simp: stream_inv_def intro: publisher_step_inv)
next
  case (close st outcome raised st')
  then show ?case
    by (auto simp: stream_inv_def stream_close_def Let_def split: if_splits intro: publisher_close_inv)
qed simp

text \<open>A closed stream stays closed, and its publisher neither opens, closes nor publishes.\<close>

lemma stream_closed_reach:
  assumes "stream_reach st later" and "ss_closed st"
  shows "ss_closed later \<and> pb_closed (ss_publisher later) = pb_closed (ss_publisher st) \<and>
    pb_packets_published (ss_publisher later) = pb_packets_published (ss_publisher st)"
  using assms
proof (induction rule: stream_reach.induct)
  case (client st e p')
  then show ?case using client_step_keeps [OF client.hyps(2,3)] by simp
qed (auto simp: stream_receive_Inr stream_close_def)

lemma closed_publisher_get:
  assumes "publisher_inv p" and "pb_closed p" and "h < pb_next p"
  shows "publisher_get h p = Inl SubscriptionClosed"
  using assms publisher_invD(3) [OF assms(1), of h]
  by (auto simp: publisher_get_def subscription_get_def publisher_inv_def)

lemma publisher_close_all_closed:
  assumes "publisher_inv p" and "h < pb_next p"
  shows "pb_closed (publisher_close p)" and "sb_closed (pb_heap (publisher_close p) h)"
    and "pb_next (publisher_close p) = pb_next p"
proof -
  have inv: "publisher_inv (publisher_close p)" using assms(1) by (rule publisher_close_inv)
  show 1: "pb_closed (publisher_close p)" "pb_next (publisher_close p) = pb_next p"
    by (auto simp: publisher_close_def)
  show "sb_closed (pb_heap (publisher_close p) h)"
    using inv 1 assms(2) publisher_invD(3) [OF inv, of h] by (auto simp: publisher_inv_def)
qed

section \<open>Properties\<close>

definition sample_packet :: pcmu_packet where
  "sample_packet = \<lparr>pk_endpoint = [114], pk_sequence = 7, pk_timestamp = 160, pk_ssrc = 1,
     pk_payload = [1, 2], pk_observed_at = Aware 0, pk_marker = False, pk_expected_sequence = None,
     pk_missing_packets = 0, pk_expected_timestamp = None, pk_missing_samples = 0,
     pk_timestamp_backwards = False\<rparr>"

definition sample_publisher :: pcmu_publisher where
  "sample_publisher = \<lparr>pb_queue_capacity = 1, pb_max_subscribers = 1,
     pb_max_payload_bytes = 10, pb_subscriptions = [], pb_stream_sequence = 0,
     pb_packets_published = 0, pb_payload_bytes_published = 0, pb_closed = False,
     pb_heap = (\<lambda>_. subscription_init 1), pb_next = 0\<rparr>"

definition sample_run :: "publisher_event list \<times> pcmu_publisher" where
  "sample_run = publisher_run
     [CallPublish sample_packet, CallSubscribe, CallPublish sample_packet, CallGet 0,
      CallPublish sample_packet, CallPublish sample_packet] ([], sample_publisher)"

lemma sample_publisher_init: "publisher_init 1 1 10 = Inr sample_publisher"
  by (simp add: publisher_init_def require_integer_def sample_publisher_def)

lemma sample_run_trace: "publisher_trace sample_publisher (fst sample_run) (snd sample_run)"
  using publisher_run_trace [OF _ publisher_trace.start]
  by (metis prod.collapse sample_run_def)

lemmas sample_run_simps = sample_run_def sample_publisher_def sample_packet_def
  publisher_subscribe_def publisher_publish_def publisher_get_def pcmu_publication_def
  require_integer_def subscription_init_def subscription_enqueue_def subscription_get_def Let_def

text \<open>C5: Gap accounting. Take any interleaving of subscribing, publishing, receiving and closing,
  from a new publisher. The stream sequence number of the next packet a subscription delivers is
  exactly the number of packets published before it subscribed, plus those it has already
  received, plus those it has dropped, plus one: a client can tell from each delivery how many
  packets it missed, and no packet is lost without being counted.\<close>

theorem pcmu_gap_accounting:
  assumes "publisher_init capacity limit payload = Inr p0" and "publisher_trace p0 evs p"
    and "h < pb_next p" and "publisher_get h p = Inr (d, p')"
  shows "pub_stream_sequence (dl_publication d) =
    published_before h evs + deliveries h evs + dl_packets_dropped d + 1"
proof -
  have inv: "publisher_inv p"
    using publisher_trace_inv [OF assms(2) publisher_init_inv [OF assms(1)]] .
  have "\<not> sb_closed (pb_heap p h)"
    using assms(4) by (auto simp: publisher_get_def subscription_get_def res_simps split: if_splits)
  then have "accounted evs p h"
    using trace_accounted [OF assms(2,1)] publisher_invD(3) [OF inv] assms(3) by blast
  then show ?thesis using assms(4) by (rule accounted_get(2))
qed

lemma pcmu_gap_accounting_witness:
  "\<exists>d p'. publisher_get 0 (snd sample_run) = Inr (d, p') \<and> dl_packets_dropped d = 1 \<and>
     published_before 0 (fst sample_run) = 1 \<and> deliveries 0 (fst sample_run) = 1 \<and>
     pub_stream_sequence (dl_publication d) = 4"
proof -
  obtain d p' where get: "publisher_get 0 (snd sample_run) = Inr (d, p')"
    "dl_packets_dropped d = 1"
    by (auto simp: sample_run_simps)
  have n: "0 < pb_next (snd sample_run)" "published_before 0 (fst sample_run) = 1"
    "deliveries 0 (fst sample_run) = 1"
    by (simp_all add: sample_run_simps)
  from pcmu_gap_accounting [OF sample_publisher_init sample_run_trace n(1) get(1)] get n
  show ?thesis by simp
qed

lemma queue_bytes_bounded:
  assumes inv: "publisher_inv p" and h: "h < pb_next p"
  shows "sb_queued_payload_bytes (pb_heap p h) \<le> pb_queue_capacity p * pb_max_payload_bytes p"
proof -
  define s where "s = pb_heap p h"
  have s: "subscription_inv s" "sb_queue_capacity s = pb_queue_capacity p"
    "\<forall>m \<in> set (sb_queue s). payload_bytes m \<le> pb_max_payload_bytes p"
    using publisher_invD(4-6) [OF inv] h by (auto simp: s_def)
  have "(\<Sum>m \<leftarrow> sb_queue s. payload_bytes m) \<le> (\<Sum>m \<leftarrow> sb_queue s. pb_max_payload_bytes p)"
    using s(3) by (intro sum_list_mono) auto
  also have "\<dots> = int (length (sb_queue s)) * pb_max_payload_bytes p"
    by (simp add: sum_list_triv)
  also have "\<dots> \<le> pb_queue_capacity p * pb_max_payload_bytes p"
    using s(1,2) inv by (intro mult_right_mono) (auto simp: subscription_inv_def publisher_inv_def)
  finally show ?thesis using s(1) by (simp add: subscription_inv_def flip: s_def)
qed

text \<open>C33: Bounded memory. In every state a publisher can reach there are at most
  \<open>max_subscribers\<close> open subscriptions, each queue holds at most \<open>queue_capacity\<close> packets, the
  byte count a subscription reports is that of its queue and at most capacity times the maximum
  payload size, and a closed subscription holds nothing.\<close>

theorem pcmu_publisher_bounded:
  assumes "publisher_init capacity limit payload = Inr p0" and "publisher_trace p0 evs p"
  shows "int (length (pb_subscriptions p)) \<le> pb_max_subscribers p \<and>
    (\<forall>h < pb_next p. int (length (sb_queue (pb_heap p h))) \<le> pb_queue_capacity p \<and>
      sb_queued_payload_bytes (pb_heap p h) = (\<Sum>m \<leftarrow> sb_queue (pb_heap p h). payload_bytes m) \<and>
      sb_queued_payload_bytes (pb_heap p h) \<le> pb_queue_capacity p * pb_max_payload_bytes p \<and>
      (h \<notin> set (pb_subscriptions p) \<longrightarrow> sb_queue (pb_heap p h) = []))"
proof -
  have inv: "publisher_inv p"
    using publisher_trace_inv [OF assms(2) publisher_init_inv [OF assms(1)]] .
  have "subscription_inv (pb_heap p h) \<and> sb_queue_capacity (pb_heap p h) = pb_queue_capacity p \<and>
      (h \<in> set (pb_subscriptions p) \<longleftrightarrow> \<not> sb_closed (pb_heap p h))" if "h < pb_next p" for h
    using publisher_invD(4,5) [OF inv that] that publisher_invD(3) [OF inv] by auto
  then show ?thesis
    using inv queue_bytes_bounded [OF inv]
    by (auto simp: publisher_inv_def subscription_inv_def)
qed

lemma pcmu_publisher_bounded_witness:
  "length (sb_queue (pb_heap (snd sample_run) 0)) = 1 \<and>
   sb_queued_payload_bytes (pb_heap (snd sample_run) 0) \<le> 10"
proof -
  have n: "0 < pb_next (snd sample_run)" "pb_queue_capacity (snd sample_run) = 1"
    "pb_max_payload_bytes (snd sample_run) = 10" "length (sb_queue (pb_heap (snd sample_run) 0)) = 1"
    by (simp_all add: sample_run_simps)
  have "sb_queued_payload_bytes (pb_heap (snd sample_run) 0) \<le>
      pb_queue_capacity (snd sample_run) * pb_max_payload_bytes (snd sample_run)"
    using pcmu_publisher_bounded [OF sample_publisher_init sample_run_trace] n(1) by blast
  then show ?thesis using n by simp
qed

text \<open>C34: Isolation. In any interleaving from a new publisher, a subscription is open exactly when
  it was opened, was not closed and the publisher was not closed. Whatever the next step is, each
  subscription that exists changes as follows. A published packet enters the queue of every open
  one, whatever the others hold, as its last element, dropping that queue's oldest packet only if
  it is full; it touches no closed one. A receive or a closing touches the one it is made on and
  no other, the closing of the publisher closes all, and opening a subscription changes none.\<close>

theorem pcmu_subscriber_isolation:
  assumes "publisher_init capacity limit payload = Inr p0" and "publisher_trace p0 evs p"
    and "h < pb_next p" and "publisher_step p e p'"
  shows "(sb_closed (pb_heap p h) \<longleftrightarrow> \<not> open_in evs h) \<and>
    (case e of
       Published m \<Rightarrow>
         (if open_in evs h
          then sb_queue (pb_heap p' h) =
            drop (length (sb_queue (pb_heap p h)) + 1 - nat capacity) (sb_queue (pb_heap p h)) @ [m]
          else pb_heap p' h = pb_heap p h)
     | Received h' d \<Rightarrow> h' = h \<or> pb_heap p' h = pb_heap p h
     | Unsubscribed h' \<Rightarrow> if h' = h then sb_closed (pb_heap p' h) else pb_heap p' h = pb_heap p h
     | PublisherShut \<Rightarrow> sb_closed (pb_heap p' h)
     | Subscribed h' \<Rightarrow> h' \<noteq> h \<and> pb_heap p' h = pb_heap p h)"
proof -
  have inv: "publisher_inv p"
    using publisher_trace_inv [OF assms(2) publisher_init_inv [OF assms(1)]] .
  have reg: "h \<in> set (pb_subscriptions p) \<longleftrightarrow> open_in evs h"
    using trace_open [OF assms(2,1)] by blast
  have closed: "sb_closed (pb_heap p h) \<longleftrightarrow> \<not> open_in evs h"
    using publisher_invD(3) [OF inv, of h] reg assms(3) by blast
  have capacity: "sb_queue_capacity (pb_heap p h) = capacity"
    using publisher_invD(5) [OF inv assms(3)] trace_capacity [OF assms(2)] assms(1)
    by (auto simp: publisher_init_def res_simps require_integer_def)
  from assms(4) show ?thesis
  proof cases
    case (publish packet m)
    then have "pb_heap p' h = (if open_in evs h then subscription_enqueue m (pb_heap p h) else pb_heap p h)"
      using reg publisher_invD(1) [OF inv] by (simp add: publish_Inr fan_out_apply)
    then show ?thesis
      using publish(1) closed enqueue_queue [OF publisher_invD(4) [OF inv assms(3)], of m] capacity by auto
  next
    case shut
    then show ?thesis
      using closed reg publisher_invD(1) [OF inv] publisher_close_all_closed(2) [OF inv assms(3)] by simp
  qed (use closed assms(3) in \<open>auto simp: publisher_subscribe_def publisher_get_def
      publisher_close_subscription_def res_simps split: if_splits\<close>)
qed

lemma pcmu_subscriber_isolation_witness:
  "open_in (fst sample_run) 0 \<and> length (sb_queue (pb_heap (snd sample_run) 0)) = 1 \<and>
   (\<exists>m p'. publisher_publish sample_packet (snd sample_run) = Inr (m, p') \<and>
      sb_queue (pb_heap p' 0) = [m])"
proof -
  obtain m p' where pub: "publisher_publish sample_packet (snd sample_run) = Inr (m, p')"
    by (auto simp: sample_run_simps)
  have n: "0 < pb_next (snd sample_run)" "open_in (fst sample_run) 0"
    "length (sb_queue (pb_heap (snd sample_run) 0)) = 1"
    by (simp_all add: sample_run_simps open_in_def)
  from pcmu_subscriber_isolation [OF sample_publisher_init sample_run_trace n(1)
      publisher_step.publish [OF pub]] pub n
  show ?thesis by simp
qed

text \<open>C32: FIFO delivery with conservation. Whatever sequence of packets, receives and closings a
  new subscription sees, the packets it delivers are a subsequence of those offered to it, in
  order and without repetition; and while it is open each offered packet is delivered, queued or
  counted as dropped, exactly once.\<close>

theorem pcmu_subscription_fifo:
  assumes "1 \<le> capacity"
    and "channel_run subscription_enqueue subscription_take subscription_shut ops
      (subscription_init capacity) = (got, s)"
  shows "subseq (got @ sb_queue s) (offered ops) \<and>
    (never_shut ops \<longrightarrow>
      length got + length (sb_queue s) + nat (sb_packets_dropped s) = length (offered ops))"
proof -
  have inv: "subscription_inv (subscription_init capacity)"
    using assms(1) by (rule subscription_init_inv)
  from pcmu_channel.run_fifo [OF inv assms(2)]
  have 1: "subseq (got @ sb_queue s) (offered ops)" by (simp add: subscription_init_simps)
  have 2: "never_shut ops \<Longrightarrow>
      length got + length (sb_queue s) + nat (sb_packets_dropped s) = length (offered ops)"
    using pcmu_channel.run_conserves [OF inv assms(2)] by (simp add: subscription_init_simps)
  from 1 2 show ?thesis by blast
qed

definition sample_publication :: "int \<Rightarrow> pcmu_publication" where
  "sample_publication n = \<lparr>pub_stream_sequence = n, pub_packet = sample_packet\<rparr>"

lemma pcmu_subscription_fifo_witness:
  "let ops = [Offer (sample_publication 1), Offer (sample_publication 2), Take,
        Offer (sample_publication 3)];
      r = channel_run subscription_enqueue subscription_take subscription_shut ops
        (subscription_init 1)
   in fst r = [sample_publication 2] \<and>
      subseq (fst r @ sb_queue (snd r)) [sample_publication 1, sample_publication 2, sample_publication 3]"
proof -
  define ops where "ops = [Offer (sample_publication 1), Offer (sample_publication 2), Take,
    Offer (sample_publication 3)]"
  define r where "r = channel_run subscription_enqueue subscription_take subscription_shut ops
    (subscription_init 1)"
  have "fst r = [sample_publication 2]"
    by (simp add: r_def ops_def subscription_enqueue_def subscription_take_def subscription_get_def
        subscription_init_def Let_def)
  moreover have "subseq (fst r @ sb_queue (snd r)) (offered ops)"
    using pcmu_subscription_fifo [of 1 ops "fst r" "snd r"] by (simp add: r_def)
  ultimately show ?thesis by (simp add: r_def ops_def Let_def)
qed

text \<open>C40: Closing the stream adapter is final, whatever happens afterwards. From any state a stream
  can reach and has not been closed in, closing it lets no further packet be published. If the
  source's unsubscribe function returned or raised an \<open>Exception\<close>, the publisher is closed too: no
  one can subscribe and every subscription raises \<open>PcmuSubscriptionClosed\<close> on receive. If it
  raised another \<open>BaseException\<close>, that escapes from \<open>close\<close> and the publisher stays open for ever,
  because a second \<open>close\<close> returns at once: subscriptions wait for packets that never come.\<close>

theorem pcmu_stream_close_final:
  assumes "stream_init True capacity limit payload = Inr st0" and "stream_reach st0 st"
    and "\<not> ss_closed st" and "stream_close outcome st = (raised, st')" and "stream_reach st' later"
  shows "ss_closed later \<and>
    pb_packets_published (ss_publisher later) = pb_packets_published (ss_publisher st) \<and>
    (if outcome = RaisedBaseException
     then raised = Some UnsubscribeInterrupted \<and> ss_publisher st' = ss_publisher st \<and>
       \<not> pb_closed (ss_publisher later)
     else raised = None \<and> publisher_subscribe (ss_publisher later) = Inl PublisherClosed \<and>
       (\<forall>h < pb_next (ss_publisher later). publisher_get h (ss_publisher later) = Inl SubscriptionClosed))"
proof -
  have inv: "stream_inv st" using stream_reach_inv [OF assms(2) stream_init_inv [OF assms(1)]] .
  have "stream_reach st0 st'" using stream_reach.close [OF assms(2,4)] .
  then have "stream_inv st'" using stream_reach_inv stream_init_inv [OF assms(1)] by blast
  then have later: "publisher_inv (ss_publisher later)"
    using stream_reach_inv [OF assms(5)] by (simp add: stream_inv_def)
  have st': "ss_closed st'" "pb_packets_published (ss_publisher st') = pb_packets_published (ss_publisher st)"
    "if outcome = RaisedBaseException
     then raised = Some UnsubscribeInterrupted \<and> ss_publisher st' = ss_publisher st
     else raised = None \<and> pb_closed (ss_publisher st')"
    using assms(3,4) inv
    by (auto simp: stream_close_def stream_inv_def publisher_close_def Let_def split: if_splits)
  note keep = stream_closed_reach [OF assms(5) st'(1)]
  have "publisher_subscribe p = Inl PublisherClosed" if "pb_closed p" for p
    using that by (simp add: publisher_subscribe_def)
  moreover have "\<not> pb_closed (ss_publisher st)" using inv assms(3) by (simp add: stream_inv_def)
  ultimately show ?thesis
    using keep st' closed_publisher_get [OF later] by (cases "outcome = RaisedBaseException") simp_all
qed

text \<open>A stream with one subscriber, closed, where unsubscribing raised an \<open>Exception\<close>.\<close>

lemma pcmu_stream_close_final_witness:
  "\<exists>st0 h p. stream_init True 1 1 10 = Inr st0 \<and> publisher_subscribe (ss_publisher st0) = Inr (h, p) \<and>
    publisher_get h (ss_publisher (snd (stream_close RaisedException (st0\<lparr>ss_publisher := p\<rparr>)))) =
      Inl SubscriptionClosed"
proof -
  obtain st0 where st0: "stream_init True 1 1 10 = Inr st0" "ss_publisher st0 = sample_publisher"
    "\<not> ss_closed st0"
    by (simp add: stream_init_def sample_publisher_init)
  obtain h p where sub: "publisher_subscribe (ss_publisher st0) = Inr (h, p)" "h < pb_next p"
    by (simp add: st0(2) sample_publisher_def publisher_subscribe_def)
  define st where "st = st0\<lparr>ss_publisher := p\<rparr>"
  have reach: "stream_reach st0 st" unfolding st_def
    by (rule stream_reach.client [OF stream_reach.refl publisher_step.subscribe [OF sub(1)]]) simp
  have open_st: "\<not> ss_closed st" using st0(3) by (simp add: st_def)
  obtain raised st' where close: "stream_close RaisedException st = (raised, st')" by fastforce
  have "h < pb_next (ss_publisher st')"
    using close st0(3) sub(2) by (auto simp: stream_close_def st_def publisher_close_def Let_def)
  then have "publisher_get h (ss_publisher st') = Inl SubscriptionClosed"
    using pcmu_stream_close_final [OF st0(1) reach open_st close stream_reach.refl] by simp
  with close have "publisher_get h (ss_publisher (snd (stream_close RaisedException st))) = Inl SubscriptionClosed"
    by simp
  with st0(1) sub(1) show ?thesis unfolding st_def by blast
qed

end
