(* ===== verification/Audio_Pipeline.thy ===== *)
theory Audio_Pipeline
  imports Network_Audio Pcmu_Publisher
begin

text \<open>
  The audio path as a whole: what the network session emits (\<open>Network_Audio\<close>), the publisher
  distributes (\<open>Pcmu_Publisher\<close>) and the wire format carries (\<open>Pcmu_Protocol\<close>). The encoder packs
  two counters, missing packets and missing samples, without a range check of its own; that they fit
  is a property of the session, proved here with the composition.
\<close>

lemma published_before_nonneg: "0 \<le> published_before h evs"
  by (induction h evs rule: published_before.induct) auto

lemma deliveries_nonneg: "0 \<le> deliveries h evs"
  by (induction h evs rule: deliveries.induct) auto

text \<open>What a subscription of a reachable publisher hands out has counters that are not negative.\<close>

lemma delivery_counters:
  assumes "publisher_init capacity limit payload = Inr p0" and "publisher_trace p0 evs p"
    and "h < pb_next p" and "publisher_get h p = Inr (d, p')"
  shows "1 \<le> pub_stream_sequence (dl_publication d)" and "0 \<le> dl_packets_dropped d"
    and "0 \<le> dl_payload_bytes_dropped d" and "0 \<le> dl_overflows d"
proof -
  have inv: "publisher_inv p"
    using publisher_trace_inv [OF assms(2) publisher_init_inv [OF assms(1)]] .
  have sub: "subscription_inv (pb_heap p h)" by (rule publisher_invD(4) [OF inv assms(3)])
  have d: "subscription_get (pb_heap p h) = Inr (d, pb_heap p' h)"
    using assms(4) by (auto simp: publisher_get_def res_simps)
  with sub show "0 \<le> dl_packets_dropped d" "0 \<le> dl_payload_bytes_dropped d" "0 \<le> dl_overflows d"
    by (auto simp: subscription_get_def subscription_inv_def Let_def split: if_splits list.splits)
  have "\<not> sb_closed (pb_heap p h)" using d by (auto simp: subscription_get_def)
  then have "accounted evs p h"
    using trace_accounted [OF assms(2,1)] publisher_invD(3) [OF inv] assms(3) by blast
  from accounted_get(2) [OF this assms(4)] \<open>0 \<le> dl_packets_dropped d\<close>
  show "1 \<le> pub_stream_sequence (dl_publication d)"
    using published_before_nonneg [of h evs] deliveries_nonneg [of h evs] by simp
qed

lemma pcmu_flags_range: "0 \<le> pcmu_flags p \<and> pcmu_flags p < 256"
  by (auto simp: pcmu_flags_def Let_def)

lemma encode_succeeds:
  assumes ok: "pcmu_packet_ok (pub_packet (dl_publication d))"
    and time: "datetime_ok (pk_observed_at (pub_packet (dl_publication d)))"
    and missing: "pk_missing_packets (pub_packet (dl_publication d)) < 2 ^ 32"
      "pk_missing_samples (pub_packet (dl_publication d)) < 2 ^ 32"
    and counters: "fits 8 (pub_stream_sequence (dl_publication d))"
      "pub_stream_sequence (dl_publication d) \<noteq> 0" "fits 8 (dl_packets_dropped d)"
      "fits 8 (dl_payload_bytes_dropped d)" "fits 8 (dl_overflows d)"
    and endpoint: "utf8_encode (pk_endpoint (pub_packet (dl_publication d))) = Some endpoint"
      "int (length endpoint) \<le> max_endpoint" "int (length endpoint) \<le> 65535"
    and size: "82 + int (length endpoint) + int (length (pk_payload (pub_packet (dl_publication d)))) \<le>
      min max_frame 4294967295"
    and pos: "0 < max_endpoint"
  shows "\<exists>f. encode_pcmu_delivery max_endpoint max_frame d = Inr f"
proof -
  let ?p = "pub_packet (dl_publication d)"
  let ?size = "82 + int (length endpoint) + int (length (pk_payload ?p))"
  obtain us where us: "pk_observed_at ?p = Aware us" using ok by (auto simp: pcmu_packet_ok_def)
  have range: "0 \<le> pk_missing_packets ?p" "0 \<le> pk_missing_samples ?p"
    "0 \<le> pk_sequence ?p" "pk_sequence ?p < 65536" "0 \<le> pk_timestamp ?p" "pk_timestamp ?p < 4294967296"
    "0 \<le> pk_ssrc ?p" "pk_ssrc ?p < 4294967296"
    using ok by (simp_all add: pcmu_packet_ok_def)
  have expected: "0 \<le> or_zero (pk_expected_sequence ?p)" "or_zero (pk_expected_sequence ?p) < 65536"
    "0 \<le> or_zero (pk_expected_timestamp ?p)" "or_zero (pk_expected_timestamp ?p) < 4294967296"
    using ok by (auto simp: pcmu_packet_ok_def or_zero_def split: option.splits)
  have "header_fits (delivery_header d endpoint ?size)"
    using range expected missing counters endpoint size time pcmu_flags_range [of ?p]
    by (auto simp: header_fits_def delivery_header_def fits_def fits_signed_def Let_def us
        datetime_to_microseconds_def datetime_ok_def)
  then obtain header where "header_pack (delivery_header d endpoint ?size) = Inr header"
    by (auto simp: header_pack_def)
  then show ?thesis
    using assms by (auto simp: encode_Inr_iff Let_def min_def split: if_splits)
qed

section \<open>From the radio to the wire\<close>

text \<open>C3: The audio path never fails on its own packets. Take any session of the network transport, any
  history of a publisher, and a delivery of it that carries a packet the session emitted. If the
  endpoint, the payload and the 64-bit counters are within the frame's limits, and the packet's time
  is a representable one, encoding the delivery succeeds, and decoding the frame gives the delivery
  back: the two counters the encoder does not check always fit.\<close>

theorem audio_packets_reach_wire:
  assumes "net_idle st" and "net_start (Some port) (Some info) st = (None, st0)"
    and "list_all clock_ok evs" and "net_run evs st0 = Inr (outs, st1)"
    and "publisher_init capacity limit payload = Inr p0" and "publisher_trace p0 pevs p"
    and "h < pb_next p" and "publisher_get h p = Inr (d, p')"
    and "pub_packet (dl_publication d) = pk" and "pk \<in> fst ` set outs"
    and "datetime_ok (pk_observed_at pk)"
    and "pub_stream_sequence (dl_publication d) < 2 ^ 64" and "dl_packets_dropped d < 2 ^ 64"
    and "dl_payload_bytes_dropped d < 2 ^ 64" and "dl_overflows d < 2 ^ 64"
    and "utf8_encode (na_endpoint st) = Some endpoint" and "0 < max_endpoint"
    and "int (length endpoint) \<le> min max_endpoint 65535"
    and "82 + int (length endpoint) + int (length (pk_payload pk)) \<le> min max_frame 4294967295"
  shows "\<exists>f. encode_pcmu_delivery max_endpoint max_frame d = Inr f \<and>
    decode_pcmu_delivery max_endpoint max_frame f = Inr d"
proof -
  note st0 = net_start_inv [OF assms(1,2)]
  have "emitted st0 outs st1"
    using net_run_step [OF st0(1) assms(3)] assms(4) by auto
  moreover have "na_endpoint st0 = na_endpoint st"
    using assms(2) by (auto simp: net_start_def Let_def count_def split: if_splits)
  ultimately have pk: "pcmu_packet_ok pk" "pk_endpoint pk = na_endpoint st"
    "pk_missing_packets pk < 2 ^ 15" "pk_missing_samples pk < 2 ^ 31"
    using assms(10) by (auto simp: emitted_def Let_def)
  note counters = delivery_counters [OF assms(5-8)]
  obtain f where f: "encode_pcmu_delivery max_endpoint max_frame d = Inr f"
    using encode_succeeds [of d endpoint max_endpoint max_frame] pk assms(9,11-19) counters
    by (auto simp: fits_def)
  moreover have "delivery_ok d" using pk(1) assms(9,11) by (simp add: delivery_ok_def)
  ultimately show ?thesis using decode_encode by blast
qed

definition sample_emitted :: pcmu_packet where
  "sample_emitted = \<lparr>pk_endpoint = na_endpoint sample_session, pk_sequence = 1, pk_timestamp = 0,
     pk_ssrc = 9, pk_payload = [0xAA], pk_observed_at = Aware 0, pk_marker = False,
     pk_expected_sequence = None, pk_missing_packets = 0, pk_expected_timestamp = None,
     pk_missing_samples = 0, pk_timestamp_backwards = False\<rparr>"

definition sample_pipeline :: "publisher_event list \<times> pcmu_publisher" where
  "sample_pipeline = publisher_run [CallSubscribe, CallPublish sample_emitted] ([], sample_publisher)"

lemma sample_session_emits:
  "\<exists>outs st1. net_run [RecvDatagram (sample_datagram 1) ([49], 5) False (Aware 0) HandlerReturned]
      (snd (net_start (Some 5000) (Some sample_info) sample_session)) = Inr (outs, st1) \<and>
    map fst outs = [sample_emitted]"
  by (simp add: net_receive_def net_datagram_def net_admit_def net_sequence_def net_timestamp_def
    net_deliver_def count_def net_start_def sample_session_def sample_info_def
    seq_reset_def ts_reset_def ts_init_def Let_def seq_observe_def seq_remember_def ts_observe_def
    net_statistics_init_def sample_parse sample_datagram_def sample_emitted_def
    pcmu_packet_def require_integer_def require_optional_integer_def net_endpoint_def py_strip_def
    py_isspace_def)

lemma audio_packets_reach_wire_witness:
  "\<exists>d p' f. publisher_get 0 (snd sample_pipeline) = Inr (d, p') \<and>
     pub_packet (dl_publication d) = sample_emitted \<and>
     encode_pcmu_delivery 4096 65536 d = Inr f \<and> decode_pcmu_delivery 4096 65536 f = Inr d"
proof -
  have start: "net_start (Some 5000) (Some sample_info) sample_session =
      (None, snd (net_start (Some 5000) (Some sample_info) sample_session))"
    by (simp add: net_start_def sample_session_def sample_info_def)
  obtain outs st1 where run: "net_run [RecvDatagram (sample_datagram 1) ([49], 5) False (Aware 0)
      HandlerReturned] (snd (net_start (Some 5000) (Some sample_info) sample_session)) = Inr (outs, st1)"
    and outs: "map fst outs = [sample_emitted]"
    using sample_session_emits by (elim exE conjE) (rule that)
  from outs have "fst ` set outs = {sample_emitted}" by (metis list.set_map list.simps(15) set_empty)
  then have mem: "sample_emitted \<in> fst ` set outs" by simp
  have trace: "publisher_trace sample_publisher (fst sample_pipeline) (snd sample_pipeline)"
    using publisher_run_trace [OF _ publisher_trace.start] by (metis prod.collapse sample_pipeline_def)
  have "\<exists>d p'. publisher_get 0 (snd sample_pipeline) = Inr (d, p') \<and>
      pub_packet (dl_publication d) = sample_emitted \<and> pub_stream_sequence (dl_publication d) = 1 \<and>
      dl_packets_dropped d = 0 \<and> dl_payload_bytes_dropped d = 0 \<and> dl_overflows d = 0"
    by (simp add: sample_pipeline_def sample_run_simps sample_emitted_def)
  then obtain d p' where d: "publisher_get 0 (snd sample_pipeline) = Inr (d, p')"
      "pub_packet (dl_publication d) = sample_emitted" "pub_stream_sequence (dl_publication d) = 1"
      "dl_packets_dropped d = 0" "dl_payload_bytes_dropped d = 0" "dl_overflows d = 0"
    by blast
  have next0: "0 < pb_next (snd sample_pipeline)"
    by (simp add: sample_pipeline_def sample_run_simps sample_emitted_def)
  have "\<exists>e. utf8_encode (na_endpoint sample_session) = Some e \<and> length e \<le> 200"
    by (simp add: sample_session_def net_endpoint_def utf8_encode_def utf8_valid_def utf8_units_def)
  then obtain e where e: "utf8_encode (na_endpoint sample_session) = Some e" "length e \<le> 200" by blast
  have "\<exists>f. encode_pcmu_delivery 4096 65536 d = Inr f \<and> decode_pcmu_delivery 4096 65536 f = Inr d"
    by (rule audio_packets_reach_wire [OF sample_session_idle start _ run sample_publisher_init trace next0 d(1,2) mem
          _ _ _ _ _ e(1)])
      (use d e in \<open>auto simp: sample_emitted_def datetime_ok_def\<close>)
  with d show ?thesis by blast
qed

end
