(* ===== verification/Daemon_Events.thy ===== *)
theory Daemon_Events
  imports Complex_Main Pcmu Channels
begin

text \<open>
  \<^verbatim>\<open>src/sds200/daemon_events.py\<close>: the daemon's event stream. An event is a record whose
  payload is frozen JSON; each subscription starts with a snapshot of the daemon's state in its
  queue and keeps it there when it overflows; the publisher numbers events and fans them out. The
  encoded size of an event (the length of the line \<open>json.dumps\<close> writes) is a parameter of the
  operations that check it, as are the clock and the snapshot the publisher asks for.
\<close>

section \<open>JSON payloads\<close>

text \<open>A Python value a payload may contain; a mapping lists its items, with distinct keys.\<close>

datatype json_key = KeyStr pystr | KeyOther

datatype py_float = Finite rat | NonFinite

datatype py_value =
    VNone
  | VBool bool
  | VInt int
  | VStr pystr
  | VFloat py_float
  | VMapping "(json_key \<times> py_value) list"
  | VList "py_value list"
  | VTuple "py_value list"
  | VOther

datatype frozen_value =
    FNone
  | FBool bool
  | FInt int
  | FStr pystr
  | FFloat rat
  | FMapping "(pystr \<times> frozen_value) list"
  | FTuple "frozen_value list"

datatype event_error =
    NegativeEventSequence
  | NaiveEventTime
  | BlankEventKind
  | ControlInEventKind
  | UnsupportedEventProtocol
  | UnsupportedEventVersion
  | FieldNameNotString
  | NumberNotFinite
  | NotJson

fun freeze_json :: "py_value \<Rightarrow> event_error + frozen_value"
  and freeze_items :: "(json_key \<times> py_value) list \<Rightarrow> event_error + (pystr \<times> frozen_value) list"
  and freeze_values :: "py_value list \<Rightarrow> event_error + frozen_value list" where
  "freeze_json VNone = Inr FNone"
| "freeze_json (VBool b) = Inr (FBool b)"
| "freeze_json (VInt n) = Inr (FInt n)"
| "freeze_json (VStr s) = Inr (FStr s)"
| "freeze_json (VFloat (Finite r)) = Inr (FFloat r)"
| "freeze_json (VFloat NonFinite) = Inl NumberNotFinite"
| "freeze_json (VMapping kvs) = bind_res (freeze_items kvs) (\<lambda>items. Inr (FMapping items))"
| "freeze_json (VList vs) = bind_res (freeze_values vs) (\<lambda>fs. Inr (FTuple fs))"
| "freeze_json (VTuple vs) = bind_res (freeze_values vs) (\<lambda>fs. Inr (FTuple fs))"
| "freeze_json VOther = Inl NotJson"
| "freeze_items [] = Inr []"
| "freeze_items ((k, v) # kvs) =
     (case k of
        KeyOther \<Rightarrow> Inl FieldNameNotString
      | KeyStr s \<Rightarrow>
          bind_res (freeze_json v) (\<lambda>f. bind_res (freeze_items kvs) (\<lambda>items. Inr ((s, f) # items))))"
| "freeze_values [] = Inr []"
| "freeze_values (v # vs) =
     bind_res (freeze_json v) (\<lambda>f. bind_res (freeze_values vs) (\<lambda>fs. Inr (f # fs)))"

fun thaw_json :: "frozen_value \<Rightarrow> py_value"
  and thaw_items :: "(pystr \<times> frozen_value) list \<Rightarrow> (json_key \<times> py_value) list"
  and thaw_values :: "frozen_value list \<Rightarrow> py_value list" where
  "thaw_json FNone = VNone"
| "thaw_json (FBool b) = VBool b"
| "thaw_json (FInt n) = VInt n"
| "thaw_json (FStr s) = VStr s"
| "thaw_json (FFloat r) = VFloat (Finite r)"
| "thaw_json (FMapping items) = VMapping (thaw_items items)"
| "thaw_json (FTuple fs) = VList (thaw_values fs)"
| "thaw_items [] = []"
| "thaw_items ((k, f) # items) = (KeyStr k, thaw_json f) # thaw_items items"
| "thaw_values [] = []"
| "thaw_values (f # fs) = thaw_json f # thaw_values fs"

text \<open>The values JSON can carry, and their normal form: every sequence a list.\<close>

fun json_ok :: "py_value \<Rightarrow> bool"
  and json_ok_items :: "(json_key \<times> py_value) list \<Rightarrow> bool"
  and json_ok_values :: "py_value list \<Rightarrow> bool" where
  "json_ok (VFloat f) = (f \<noteq> NonFinite)"
| "json_ok (VMapping kvs) = json_ok_items kvs"
| "json_ok (VList vs) = json_ok_values vs"
| "json_ok (VTuple vs) = json_ok_values vs"
| "json_ok VOther = False"
| "json_ok _ = True"
| "json_ok_items [] = True"
| "json_ok_items ((k, v) # kvs) = (k \<noteq> KeyOther \<and> json_ok v \<and> json_ok_items kvs)"
| "json_ok_values [] = True"
| "json_ok_values (v # vs) = (json_ok v \<and> json_ok_values vs)"

fun json_normal :: "py_value \<Rightarrow> py_value"
  and json_normal_items :: "(json_key \<times> py_value) list \<Rightarrow> (json_key \<times> py_value) list"
  and json_normal_values :: "py_value list \<Rightarrow> py_value list" where
  "json_normal (VMapping kvs) = VMapping (json_normal_items kvs)"
| "json_normal (VList vs) = VList (json_normal_values vs)"
| "json_normal (VTuple vs) = VList (json_normal_values vs)"
| "json_normal v = v"
| "json_normal_items [] = []"
| "json_normal_items ((k, v) # kvs) = (k, json_normal v) # json_normal_items kvs"
| "json_normal_values [] = []"
| "json_normal_values (v # vs) = json_normal v # json_normal_values vs"

lemma freeze_ok:
  "(\<exists>f. freeze_json v = Inr f) \<longleftrightarrow> json_ok v"
  "(\<exists>items. freeze_items kvs = Inr items) \<longleftrightarrow> json_ok_items kvs"
  "(\<exists>fs. freeze_values vs = Inr fs) \<longleftrightarrow> json_ok_values vs"
  by (induction v and kvs and vs rule: freeze_json_freeze_items_freeze_values.induct)
    (auto simp: res_simps split: json_key.splits)

lemma thaw_freeze:
  "freeze_json v = Inr f \<Longrightarrow> thaw_json f = json_normal v"
  "freeze_items kvs = Inr items \<Longrightarrow> thaw_items items = json_normal_items kvs"
  "freeze_values vs = Inr fs \<Longrightarrow> thaw_values fs = json_normal_values vs"
  by (induction v and kvs and vs arbitrary: f and items and fs
      rule: freeze_json_freeze_items_freeze_values.induct)
    (auto simp: res_simps split: json_key.splits)

lemma freeze_thaw:
  "freeze_json (thaw_json f) = Inr f"
  "freeze_items (thaw_items items) = Inr items"
  "freeze_values (thaw_values fs) = Inr fs"
  by (induction f and items and fs rule: thaw_json_thaw_items_thaw_values.induct) auto

section \<open>Events\<close>

record daemon_event =
  ev_sequence :: int
  ev_observed_at :: py_datetime
  ev_kind :: pystr
  ev_payload :: "(pystr \<times> frozen_value) list"
  ev_protocol :: pystr
  ev_version :: int

definition py_str :: "string \<Rightarrow> pystr" where
  "py_str s = map of_char s"

definition event_protocol :: pystr where
  "event_protocol = py_str ''sdsctl.daemon.events''"

definition snapshot_kind :: pystr where
  "snapshot_kind = py_str ''stream.snapshot''"

definition daemon_event ::
  "int \<Rightarrow> py_datetime \<Rightarrow> pystr \<Rightarrow> (json_key \<times> py_value) list \<Rightarrow> pystr \<Rightarrow> int \<Rightarrow>
   event_error + daemon_event" where
  "daemon_event sequence observed_at kind payload protocol version =
     raise_if (sequence < 0) NegativeEventSequence
    (raise_if (case observed_at of Naive _ \<Rightarrow> True | Aware _ \<Rightarrow> False) NaiveEventTime
    (raise_if (kind = [] \<or> py_strip kind \<noteq> kind) BlankEventKind
    (raise_if (\<exists>c \<in> set kind. c < 0x20) ControlInEventKind
    (raise_if (protocol \<noteq> event_protocol) UnsupportedEventProtocol
    (raise_if (version \<notin> {1}) UnsupportedEventVersion
    (bind_res (freeze_items payload) (\<lambda>frozen.
      Inr \<lparr>ev_sequence = sequence, ev_observed_at = observed_at, ev_kind = kind,
           ev_payload = frozen, ev_protocol = protocol, ev_version = version\<rparr>)))))))"

section \<open>A subscription\<close>

record event_subscription =
  es_queue_capacity :: int
  es_queue :: "daemon_event list"
  es_dropped_events :: int
  es_closed :: bool

definition es_init :: "int \<Rightarrow> daemon_event \<Rightarrow> event_subscription" where
  "es_init queue_capacity snapshot =
     \<lparr>es_queue_capacity = queue_capacity, es_queue = [snapshot], es_dropped_events = 0,
      es_closed = False\<rparr>"

datatype es_get_error = EventSubscriptionClosed | EventQueueEmpty

text \<open>One pass of the loop of \<open>get\<close>; on an empty queue the code waits until its deadline.\<close>

definition es_get :: "event_subscription \<Rightarrow> es_get_error + daemon_event \<times> event_subscription" where
  "es_get s =
     (if es_closed s then Inl EventSubscriptionClosed
      else case es_queue s of
        [] \<Rightarrow> Inl EventQueueEmpty
      | event # rest \<Rightarrow> Inr (event, s\<lparr>es_queue := rest\<rparr>))"

text \<open>
  On overflow the oldest event goes, but not a snapshot at the head: then it is the one after it.
  The capacity is at least two, so there is one; \<open>del\<close> and \<open>popleft\<close> out of range would raise.
\<close>

definition es_enqueue :: "daemon_event \<Rightarrow> event_subscription \<Rightarrow> event_subscription" where
  "es_enqueue event s =
     (if es_closed s then s
      else
        let s1 =
          (if int (length (es_queue s)) \<ge> es_queue_capacity s then
             (if es_queue s \<noteq> [] \<and> ev_kind (hd (es_queue s)) = snapshot_kind
              then s\<lparr>es_queue := take 1 (es_queue s) @ drop 2 (es_queue s)\<rparr>
              else s\<lparr>es_queue := drop 1 (es_queue s)\<rparr>)
             \<lparr>es_dropped_events := es_dropped_events s + 1\<rparr>
           else s)
        in s1\<lparr>es_queue := es_queue s1 @ [event]\<rparr>)"

definition es_shut :: "event_subscription \<Rightarrow> event_subscription" where
  "es_shut s = (if es_closed s then s else s\<lparr>es_closed := True, es_queue := []\<rparr>)"

definition es_take :: "event_subscription \<Rightarrow> (daemon_event \<times> event_subscription) option" where
  "es_take s = (case es_get s of Inl _ \<Rightarrow> None | Inr r \<Rightarrow> Some r)"

definition es_inv :: "event_subscription \<Rightarrow> bool" where
  "es_inv s \<longleftrightarrow>
     2 \<le> es_queue_capacity s \<and> int (length (es_queue s)) \<le> es_queue_capacity s \<and>
     0 \<le> es_dropped_events s \<and> (es_closed s \<longrightarrow> es_queue s = [])"

lemma es_enqueue_open:
  assumes "es_inv s" and "\<not> es_closed s"
  shows "\<exists>ks. subseq ks (es_queue s) \<and> es_queue (es_enqueue m s) = ks @ [m] \<and>
    es_dropped_events (es_enqueue m s) = es_dropped_events s + int (length (es_queue s) - length ks) \<and>
    length ks \<le> length (es_queue s) \<and> int (length ks) < es_queue_capacity s"
proof (cases "int (length (es_queue s)) \<ge> es_queue_capacity s")
  case False
  then show ?thesis using assms by (auto simp: es_enqueue_def)
next
  case True
  then obtain x y rest where q: "es_queue s = x # y # rest"
    using assms(1) by (cases "es_queue s"; cases "tl (es_queue s)") (auto simp: es_inv_def)
  then show ?thesis
    using True assms
    by (cases "ev_kind x = snapshot_kind") (auto simp: es_enqueue_def Let_def es_inv_def)
qed

lemma es_enqueue_keeps [simp]:
  "es_closed (es_enqueue m s) = es_closed s"
  "es_queue_capacity (es_enqueue m s) = es_queue_capacity s"
  by (auto simp: es_enqueue_def Let_def)

lemma es_enqueue_inv: "es_inv s \<Longrightarrow> es_inv (es_enqueue m s)"
proof (cases "es_closed s")
  case True
  then show "es_inv s \<Longrightarrow> ?thesis" by (simp add: es_enqueue_def)
next
  case False
  assume "es_inv s"
  with es_enqueue_open [OF this False, of m] False show ?thesis by (auto simp: es_inv_def)
qed

lemma es_take_Some:
  "es_take s = Some (m, s') \<longleftrightarrow>
     \<not> es_closed s \<and> es_queue s = m # es_queue s' \<and> s' = s\<lparr>es_queue := es_queue s'\<rparr>"
  by (auto simp: es_take_def es_get_def split: list.splits)

text \<open>An event subscription is a channel, closed by itself or by its publisher.\<close>

interpretation event_channel: broadcast es_enqueue es_take es_shut es_closed es_queue
  "\<lambda>s. nat (es_dropped_events s)" "\<lambda>s. nat (es_queue_capacity s)" es_inv
proof unfold_locales
  fix s :: event_subscription and m :: daemon_event and s'
  show "es_inv s \<Longrightarrow> length (es_queue s) \<le> nat (es_queue_capacity s)"
    by (auto simp: es_inv_def)
  show "es_inv s \<Longrightarrow> es_inv (es_enqueue m s)" by (rule es_enqueue_inv)
  show "es_inv s \<Longrightarrow> es_take s = Some (m, s') \<Longrightarrow> es_inv s'"
    by (cases s) (auto simp: es_take_def es_get_def es_inv_def split: list.splits if_splits)
  show "es_inv s \<Longrightarrow> es_inv (es_shut s)" by (auto simp: es_shut_def es_inv_def)
  show "es_closed s \<Longrightarrow> es_enqueue m s = s" by (simp add: es_enqueue_def)
  show "es_inv s \<Longrightarrow> \<not> es_closed s \<Longrightarrow>
    \<exists>ks. subseq ks (es_queue s) \<and> es_queue (es_enqueue m s) = ks @ [m] \<and>
      length (es_queue s) + nat (es_dropped_events s) =
      length ks + nat (es_dropped_events (es_enqueue m s))"
    using es_enqueue_open [of s m] by (force simp: es_inv_def nat_add_distrib)
  show "es_inv s \<Longrightarrow> (es_take s = None) = (es_closed s \<or> es_queue s = [])"
    by (auto simp: es_take_def es_get_def split: list.splits)
  show "es_take s = Some (m, s') \<Longrightarrow>
    es_queue s = m # es_queue s' \<and> nat (es_dropped_events s') = nat (es_dropped_events s) \<and>
    es_closed s' = es_closed s \<and> nat (es_queue_capacity s') = nat (es_queue_capacity s)"
    by (auto simp: es_take_def es_get_def split: list.splits if_splits)
  show "es_inv s \<Longrightarrow> es_queue (es_shut s) = []" by (auto simp: es_shut_def es_inv_def)
qed (auto simp: es_shut_def)

section \<open>The publisher\<close>

record event_publisher =
  ep_queue_capacity :: int
  ep_max_subscribers :: int
  ep_max_event_bytes :: int
  ep_hub :: "event_subscription hub"
  ep_sequence :: int
  ep_closed :: bool

datatype event_publisher_error =
    EventQueueCapacityBelowTwo
  | EventSubscriberLimitNotPositive
  | EventMaxBytesNotPositive
  | EventPublisherClosed
  | EventSubscriberLimitReached
  | ReservedEventKind
  | EventTooLarge
  | InvalidEvent event_error

definition ep_init :: "int \<Rightarrow> int \<Rightarrow> int \<Rightarrow> event_publisher_error + event_publisher" where
  "ep_init queue_capacity max_subscribers max_event_bytes =
     raise_if (queue_capacity < 2) EventQueueCapacityBelowTwo
    (raise_if (max_subscribers \<le> 0) EventSubscriberLimitNotPositive
    (raise_if (max_event_bytes \<le> 0) EventMaxBytesNotPositive
      (Inr \<lparr>ep_queue_capacity = queue_capacity, ep_max_subscribers = max_subscribers,
           ep_max_event_bytes = max_event_bytes,
           ep_hub = hub_empty \<lparr>es_queue_capacity = queue_capacity, es_queue = [],
             es_dropped_events = 0, es_closed = True\<rparr>,
           ep_sequence = 0, ep_closed = False\<rparr>)))"

definition require_event_size ::
  "(daemon_event \<Rightarrow> nat) \<Rightarrow> daemon_event \<Rightarrow> int \<Rightarrow> event_publisher_error + unit" where
  "require_event_size encoded_size event max_event_bytes =
     raise_if (int (encoded_size event) > max_event_bytes) EventTooLarge (Inr ())"

text \<open>\<open>now\<close> and \<open>payload\<close> are what the clock and the snapshot function returned.\<close>

definition ep_subscribe ::
  "(daemon_event \<Rightarrow> nat) \<Rightarrow> py_datetime \<Rightarrow> (json_key \<times> py_value) list \<Rightarrow> event_publisher \<Rightarrow>
   event_publisher_error + handle \<times> event_publisher" where
  "ep_subscribe encoded_size now payload p =
     raise_if (ep_closed p) EventPublisherClosed
    (raise_if (int (length (hub_subscriptions (ep_hub p))) \<ge> ep_max_subscribers p)
       EventSubscriberLimitReached
    (bind_res (map_error InvalidEvent
        (daemon_event (ep_sequence p) now snapshot_kind payload event_protocol 1)) (\<lambda>snapshot.
     bind_res (require_event_size encoded_size snapshot (ep_max_event_bytes p)) (\<lambda>_.
     Inr (hub_next (ep_hub p),
          p\<lparr>ep_hub := hub_open (es_init (ep_queue_capacity p) snapshot) (ep_hub p)\<rparr>)))))"

definition ep_publish ::
  "(daemon_event \<Rightarrow> nat) \<Rightarrow> py_datetime \<Rightarrow> pystr \<Rightarrow> (json_key \<times> py_value) list \<Rightarrow>
   py_datetime option \<Rightarrow> event_publisher \<Rightarrow> event_publisher_error + daemon_event \<times> event_publisher" where
  "ep_publish encoded_size now kind payload observed_at p =
     raise_if (ep_closed p) EventPublisherClosed
    (raise_if (kind = snapshot_kind) ReservedEventKind
      (let sequence = ep_sequence p + 1 in
       bind_res (map_error InvalidEvent
         (daemon_event sequence (case observed_at of None \<Rightarrow> now | Some t \<Rightarrow> t) kind payload
            event_protocol 1)) (\<lambda>event.
       bind_res (require_event_size encoded_size event (ep_max_event_bytes p)) (\<lambda>_.
       Inr (event, p\<lparr>ep_sequence := sequence, ep_hub := hub_offer es_enqueue event (ep_hub p)\<rparr>)))))"

definition ep_get ::
  "handle \<Rightarrow> event_publisher \<Rightarrow> es_get_error + daemon_event \<times> event_publisher" where
  "ep_get h p =
     bind_res (es_get (hub_heap (ep_hub p) h))
       (\<lambda>(event, s). Inr (event, p\<lparr>ep_hub := hub_put h s (ep_hub p)\<rparr>))"

definition ep_close_subscription :: "handle \<Rightarrow> event_publisher \<Rightarrow> event_publisher" where
  "ep_close_subscription h p = p\<lparr>ep_hub := hub_shut es_shut h (ep_hub p)\<rparr>"

definition ep_close :: "event_publisher \<Rightarrow> event_publisher" where
  "ep_close p =
     (if ep_closed p then p
      else p\<lparr>ep_closed := True, ep_hub := hub_shut_all es_shut (ep_hub p)\<rparr>)"

section \<open>Traces of the publisher\<close>

inductive ep_step ::
  "(daemon_event \<Rightarrow> nat) \<Rightarrow> event_publisher \<Rightarrow> (daemon_event, event_subscription) hub_event \<Rightarrow>
   event_publisher \<Rightarrow> bool"
  for encoded_size :: "daemon_event \<Rightarrow> nat" where
  subscribe: "ep_subscribe encoded_size now payload p = Inr (h, p') \<Longrightarrow>
    ep_step encoded_size p (HubOpened h (hub_heap (ep_hub p') h)) p'"
| publish: "ep_publish encoded_size now kind payload observed_at p = Inr (event, p') \<Longrightarrow>
    ep_step encoded_size p (HubOffered event) p'"
| receive: "h < hub_next (ep_hub p) \<Longrightarrow> ep_get h p = Inr (event, p') \<Longrightarrow>
    ep_step encoded_size p (HubTook h event) p'"
| unsubscribe: "h < hub_next (ep_hub p) \<Longrightarrow>
    ep_step encoded_size p (HubShut h) (ep_close_subscription h p)"
| close: "\<not> ep_closed p \<Longrightarrow> ep_step encoded_size p HubShutAll (ep_close p)"

inductive_cases ep_stepE: "ep_step encoded_size p e p'"

inductive ep_trace ::
  "(daemon_event \<Rightarrow> nat) \<Rightarrow> event_publisher \<Rightarrow> (daemon_event, event_subscription) hub_event list \<Rightarrow>
   event_publisher \<Rightarrow> bool"
  for encoded_size :: "daemon_event \<Rightarrow> nat" and p0 where
  start: "ep_trace encoded_size p0 [] p0"
| extend: "ep_trace encoded_size p0 evs p \<Longrightarrow> ep_step encoded_size p e p' \<Longrightarrow>
    ep_trace encoded_size p0 (evs @ [e]) p'"

definition es_new :: "event_subscription \<Rightarrow> bool" where
  "es_new s \<longleftrightarrow> (\<exists>c snap. 2 \<le> c \<and> s = es_init c snap \<and> ev_kind snap = snapshot_kind)"

lemma es_new_inv: "es_new s \<Longrightarrow> es_inv s \<and> \<not> es_closed s"
  by (auto simp: es_new_def es_init_def es_inv_def)

lemma daemon_event_Inr:
  "daemon_event sequence observed_at kind payload protocol version = Inr e \<Longrightarrow>
     ev_sequence e = sequence \<and> ev_kind e = kind \<and> freeze_items payload = Inr (ev_payload e)"
  by (auto simp: daemon_event_def res_simps)

text \<open>The numbering of the stream, as its trace shows it.\<close>

definition ep_numbered :: "(daemon_event, event_subscription) hub_event list \<Rightarrow> event_publisher \<Rightarrow> bool" where
  "ep_numbered evs p \<longleftrightarrow>
     2 \<le> ep_queue_capacity p \<and>
     ep_sequence p = int (length (offers evs)) \<and>
     map ev_sequence (offers evs) = [1..ep_sequence p] \<and>
     (\<forall>e \<in> set (offers evs). ev_kind e \<noteq> snapshot_kind) \<and>
     (\<forall>h b s a. opened_at h evs = Some (b, s, a) \<longrightarrow>
        (\<exists>snap. s = es_init (ep_queue_capacity p) snap \<and> ev_kind snap = snapshot_kind \<and>
           ev_sequence snap = int (length (offers b))))"

lemma ep_step_hub:
  assumes "ep_step encoded_size p e p'" and "ep_numbered evs p"
  shows "hub_step es_enqueue es_take es_shut es_new (ep_hub p) e (ep_hub p')"
    and "ep_queue_capacity p' = ep_queue_capacity p"
proof -
  have "hub_step es_enqueue es_take es_shut es_new (ep_hub p) e (ep_hub p') \<and>
      ep_queue_capacity p' = ep_queue_capacity p"
    using assms(1)
  proof cases
    case (subscribe now payload h)
    then obtain snap where snap: "ev_kind snap = snapshot_kind"
      and p': "h = hub_next (ep_hub p)"
        "p' = p\<lparr>ep_hub := hub_open (es_init (ep_queue_capacity p) snap) (ep_hub p)\<rparr>"
      by (auto simp: ep_subscribe_def require_event_size_def res_simps dest: daemon_event_Inr)
    have "es_new (es_init (ep_queue_capacity p) snap)"
      using snap assms(2) by (auto simp: es_new_def ep_numbered_def)
    from hub_step.opened [where enq = es_enqueue and deq = es_take and shut = es_shut
        and is_new = es_new and hub = "ep_hub p", OF this] show ?thesis
      using subscribe(1) p' by (simp add: hub_open_def)
  next
    case (publish now kind payload observed_at event)
    then have "p' = p\<lparr>ep_sequence := ep_sequence p + 1, ep_hub := hub_offer es_enqueue event (ep_hub p)\<rparr>"
      by (auto simp: ep_publish_def require_event_size_def res_simps Let_def)
    then show ?thesis using publish(1) by (simp add: hub_step.offered)
  next
    case (receive h event)
    then obtain s where "es_take (hub_heap (ep_hub p) h) = Some (event, s)"
      "p' = p\<lparr>ep_hub := hub_put h s (ep_hub p)\<rparr>"
      by (auto simp: ep_get_def es_take_def res_simps)
    then show ?thesis using receive(1,2) by (simp add: hub_step.took)
  next
    case (unsubscribe h)
    then show ?thesis by (simp add: ep_close_subscription_def hub_step.shut)
  next
    case close
    then show ?thesis by (simp add: ep_close_def hub_step.shut_all)
  qed
  then show "hub_step es_enqueue es_take es_shut es_new (ep_hub p) e (ep_hub p')"
    and "ep_queue_capacity p' = ep_queue_capacity p" by blast+
qed

lemma ep_step_numbered:
  assumes step: "ep_step encoded_size p e p'" and num: "ep_numbered evs p"
  shows "ep_numbered (evs @ [e]) p'"
proof -
  note old = num [unfolded ep_numbered_def]
  have cap: "ep_queue_capacity p' = ep_queue_capacity p" using ep_step_hub(2) [OF step num] .
  from step show ?thesis
  proof cases
    case (subscribe now payload h)
    then obtain snap where snap: "ev_kind snap = snapshot_kind" "ev_sequence snap = ep_sequence p"
      and p': "h = hub_next (ep_hub p)"
        "p' = p\<lparr>ep_hub := hub_open (es_init (ep_queue_capacity p) snap) (ep_hub p)\<rparr>"
      by (auto simp: ep_subscribe_def require_event_size_def res_simps dest: daemon_event_Inr)
    have "e = HubOpened h (es_init (ep_queue_capacity p) snap)"
      using subscribe(1) p' by (simp add: hub_open_def)
    then show ?thesis
      using old snap cap p'
      by (auto simp: ep_numbered_def opened_at_append split: option.splits if_splits)
  next
    case (publish now kind payload observed_at event)
    then have p': "p' = p\<lparr>ep_sequence := ep_sequence p + 1,
        ep_hub := hub_offer es_enqueue event (ep_hub p)\<rparr>"
      and ev: "ev_sequence event = ep_sequence p + 1" "ev_kind event \<noteq> snapshot_kind"
      by (auto simp: ep_publish_def require_event_size_def res_simps Let_def dest: daemon_event_Inr)
    have "[1..ep_sequence p + 1] = [1..ep_sequence p] @ [ep_sequence p + 1]"
      using old upto_rec2 [of 1 "ep_sequence p + 1"] by simp
    then show ?thesis
      using old ev publish(1) p'
      by (auto simp: ep_numbered_def opened_at_append split: option.splits)
  next
    case (receive h event)
    then have "ep_sequence p' = ep_sequence p" by (auto simp: ep_get_def res_simps)
    then show ?thesis using old receive(1) cap
      by (auto simp: ep_numbered_def opened_at_append split: option.splits)
  next
    case (unsubscribe h)
    then show ?thesis using old cap
      by (auto simp: ep_numbered_def opened_at_append ep_close_subscription_def split: option.splits)
  next
    case close
    then show ?thesis using old cap
      by (auto simp: ep_numbered_def opened_at_append ep_close_def split: option.splits)
  qed
qed

lemma ep_trace_numbered:
  assumes "ep_trace encoded_size p0 evs p" and "ep_init c n b = Inr p0"
  shows "ep_numbered evs p \<and> hub_trace es_enqueue es_take es_shut es_new evs (ep_hub p)"
  using assms(1)
proof induction
  case start
  then show ?case using assms(2)
    by (auto simp: ep_init_def res_simps ep_numbered_def intro: hub_trace.start)
next
  case (extend evs p e p')
  then show ?case
    using ep_step_numbered ep_step_hub(1) hub_trace.extend by blast
qed

section \<open>What a subscription holds\<close>

text \<open>
  \<open>k\<close> events taken after the snapshot, \<open>n\<close> published since it: the queued events are all after the
  taken and the dropped ones.
\<close>

definition es_rest :: "int \<Rightarrow> nat \<Rightarrow> int \<Rightarrow> int \<Rightarrow> daemon_event list \<Rightarrow> bool" where
  "es_rest base n k dropped q \<longleftrightarrow>
     map ev_sequence q = [base + k + dropped + 1..base + int n] \<and>
     k + dropped + int (length q) = int n \<and> (\<forall>e \<in> set q. ev_kind e \<noteq> snapshot_kind)"

definition es_account :: "daemon_event \<Rightarrow> nat \<Rightarrow> daemon_event list \<Rightarrow> event_subscription \<Rightarrow> bool" where
  "es_account snap n got s \<longleftrightarrow>
     es_inv s \<and>
     (if got = [] then \<exists>q. es_queue s = snap # q \<and> es_rest (ev_sequence snap) n 0 (es_dropped_events s) q
      else hd got = snap \<and>
        es_rest (ev_sequence snap) n (int (length got) - 1) (es_dropped_events s) (es_queue s))"

lemma es_rest_offer:
  assumes "es_rest base n k d q" and "ev_sequence m = base + int n + 1" and "ev_kind m \<noteq> snapshot_kind"
  shows "es_rest base (Suc n) k d (q @ [m])"
    and "q \<noteq> [] \<Longrightarrow> es_rest base (Suc n) k (d + 1) (tl q @ [m])"
proof -
  have r: "map ev_sequence q = [base + k + d + 1..base + int n]" "k + d + int (length q) = int n"
    "\<forall>e \<in> set q. ev_kind e \<noteq> snapshot_kind"
    using assms(1) by (auto simp: es_rest_def)
  have snoc: "[base + k + d + 1..base + int (Suc n)] = [base + k + d + 1..base + int n] @ [base + int n + 1]"
    using r(2) upto_rec2 [of "base + k + d + 1" "base + int (Suc n)"] by simp
  show "es_rest base (Suc n) k d (q @ [m])"
    using r assms(2,3) snoc by (simp add: es_rest_def)
  show "es_rest base (Suc n) k (d + 1) (tl q @ [m])" if ne: "q \<noteq> []"
  proof -
    obtain x xs where q: "q = x # xs" using ne by (cases q) auto
    have cons: "[base + k + d + 1..base + int n] = (base + k + d + 1) # [base + k + d + 1 + 1..base + int n]"
      using r(2) q upto_rec1 [of "base + k + d + 1" "base + int n"] by simp
    then have tl: "map ev_sequence xs = [base + k + (d + 1) + 1..base + int n]"
      using r(1) q by (simp add: add.assoc)
    have snoc': "[base + k + (d + 1) + 1..base + int (Suc n)] =
        [base + k + (d + 1) + 1..base + int n] @ [base + int n + 1]"
      using r(2) q upto_rec2 [of "base + k + (d + 1) + 1" "base + int (Suc n)"] by simp
    show ?thesis using r q tl assms(2,3) snoc' by (simp add: es_rest_def)
  qed
qed

lemma es_account_offer:
  assumes acc: "es_account snap n got s" and op: "\<not> es_closed s" and snap: "ev_kind snap = snapshot_kind"
    and m: "ev_sequence m = ev_sequence snap + int n + 1" "ev_kind m \<noteq> snapshot_kind"
  shows "es_account snap (Suc n) got (es_enqueue m s)"
proof -
  have inv: "es_inv s" "es_inv (es_enqueue m s)"
    using acc es_enqueue_inv by (auto simp: es_account_def)
  have len2: "length (es_queue s) \<ge> 2" if "int (length (es_queue s)) \<ge> es_queue_capacity s"
    using that inv(1) by (simp add: es_inv_def)
  show ?thesis
  proof (cases "got = []")
    case True
    then obtain q where q: "es_queue s = snap # q" "es_rest (ev_sequence snap) n 0 (es_dropped_events s) q"
      using acc by (auto simp: es_account_def)
    show ?thesis
    proof (cases "int (length (es_queue s)) \<ge> es_queue_capacity s")
      case False
      then show ?thesis using True q es_rest_offer(1) [OF q(2) m] inv(2) op
        by (auto simp: es_account_def es_enqueue_def)
    next
      case full: True
      then have ne: "q \<noteq> []" using len2 q(1) by auto
      have "es_queue (es_enqueue m s) = snap # (tl q @ [m])"
        "es_dropped_events (es_enqueue m s) = es_dropped_events s + 1"
        using op full q(1) snap by (simp_all add: es_enqueue_def Let_def drop_Suc)
      then show ?thesis using True es_rest_offer(2) [OF q(2) m ne] inv(2)
        by (auto simp: es_account_def)
    qed
  next
    case False
    define k where "k = int (length got) - 1"
    have q: "hd got = snap" "es_rest (ev_sequence snap) n k (es_dropped_events s) (es_queue s)"
      using False acc by (auto simp: es_account_def k_def)
    show ?thesis
    proof (cases "int (length (es_queue s)) \<ge> es_queue_capacity s")
      case notfull: False
      then show ?thesis using False q es_rest_offer(1) [OF q(2) m] inv(2) op
        by (auto simp: es_account_def es_enqueue_def k_def)
    next
      case full: True
      then have ne: "es_queue s \<noteq> []" using len2 by auto
      then have "ev_kind (hd (es_queue s)) \<noteq> snapshot_kind" using q(2) by (simp add: es_rest_def)
      then have "es_queue (es_enqueue m s) = tl (es_queue s) @ [m]"
        "es_dropped_events (es_enqueue m s) = es_dropped_events s + 1"
        using op full by (simp_all add: es_enqueue_def Let_def drop_Suc)
      then show ?thesis using False q es_rest_offer(2) [OF q(2) m ne] inv(2)
        by (auto simp: es_account_def k_def)
    qed
  qed
qed

lemma es_account_take:
  assumes acc: "es_account snap n got s" and take: "es_take s = Some (e, s')"
  shows "es_account snap n (got @ [e]) s'"
    and "if got = [] then e = snap
      else ev_sequence e = ev_sequence snap + int (length got) + es_dropped_events s"
proof -
  have inv: "es_inv s'" using acc take event_channel.invar_deq by (auto simp: es_account_def)
  have q: "es_queue s = e # es_queue s'" "es_dropped_events s' = es_dropped_events s"
    using take by (auto simp: es_take_def es_get_def split: list.splits if_splits)
  have both: "es_account snap n (got @ [e]) s' \<and> (if got = [] then e = snap
      else ev_sequence e = ev_sequence snap + int (length got) + es_dropped_events s)"
  proof (cases "got = []")
    case True
    then show ?thesis using acc q inv by (auto simp: es_account_def)
  next
    case False
    define k where "k = int (length got) - 1"
    define b where "b = ev_sequence snap"
    define d where "d = es_dropped_events s"
    have r: "hd got = snap" "es_rest b n k d (e # es_queue s')"
      using False acc q by (auto simp: es_account_def k_def b_def d_def)
    then have "map ev_sequence (e # es_queue s') = [b + k + d + 1..b + int n]"
      and n: "k + d + int (length (es_queue s')) + 1 = int n"
      by (auto simp: es_rest_def)
    moreover have "[b + k + d + 1..b + int n] = (b + k + d + 1) # [b + k + d + 1 + 1..b + int n]"
      using n upto_rec1 [of "b + k + d + 1" "b + int n"] by simp
    ultimately have e: "ev_sequence e = b + k + d + 1"
      and rest: "map ev_sequence (es_queue s') = [b + (k + 1) + d + 1..b + int n]"
      by (simp_all add: algebra_simps)
    have "es_rest b n (k + 1) d (es_queue s')"
      using r(2) n rest by (simp add: es_rest_def)
    then show ?thesis
      using False r(1) e inv q(2) by (simp add: es_account_def k_def b_def d_def)
  qed
  then show "es_account snap n (got @ [e]) s'"
    and "if got = [] then e = snap
      else ev_sequence e = ev_sequence snap + int (length got) + es_dropped_events s" by blast+
qed

lemma es_run_account:
  assumes "channel_run es_enqueue es_take es_shut ops (es_init c snap) = (got, s)" and "2 \<le> c"
    and snap: "ev_kind snap = snapshot_kind" and "\<not> es_closed s"
    and "map ev_sequence (offered ops) = [ev_sequence snap + 1..ev_sequence snap + int (length (offered ops))]"
    and "\<forall>e \<in> set (offered ops). ev_kind e \<noteq> snapshot_kind"
  shows "es_account snap (length (offered ops)) got s"
  using assms
proof (induction ops arbitrary: got s rule: rev_induct)
  case Nil
  then show ?case by (auto simp: es_account_def es_init_def es_inv_def es_rest_def)
next
  case (snoc op ops)
  obtain got1 s1 where 1: "channel_run es_enqueue es_take es_shut ops (es_init c snap) = (got1, s1)"
    by fastforce
  obtain g where step: "channel_step es_enqueue es_take es_shut op s1 = (g, s)" and got: "got = got1 @ g"
    using snoc.prems(1) 1 by (auto simp: channel_run_append split: prod.splits)
  have open1: "\<not> es_closed s1"
    using step snoc.prems(4) by (cases op) (auto simp: es_shut_def es_take_Some split: option.splits if_splits)
  have off: "offered (ops @ [op]) = offered ops @ (case op of Offer m \<Rightarrow> [m] | _ \<Rightarrow> [])"
    by (induction ops rule: offered.induct) (auto split: channel_op.splits)
  have take: "[b + 1..b + int (length xs) + 1] = [b + 1..b + int (length xs)] @ [b + int (length xs) + 1]"
    for b and xs :: "daemon_event list"
    using upto_rec2 [of "b + 1" "b + int (length xs) + 1"] by simp
  have pre: "map ev_sequence (offered ops) =
      [ev_sequence snap + 1..ev_sequence snap + int (length (offered ops))]"
    using snoc.prems(5) off take [of "ev_sequence snap" "offered ops"]
    by (cases op) (auto simp: ac_simps)
  have acc: "es_account snap (length (offered ops)) got1 s1"
    using snoc.prems(6) off by (intro snoc.IH [OF 1 snoc.prems(2,3) open1 pre]) auto
  show ?case
  proof (cases op)
    case (Offer m)
    have "ev_sequence m = ev_sequence snap + int (length (offered ops)) + 1"
      using snoc.prems(5) off Offer take [of "ev_sequence snap" "offered ops"] pre
      by (simp add: ac_simps)
    then show ?thesis
      using es_account_offer [OF acc open1 snap] snoc.prems(6) off Offer step got by auto
  next
    case Take
    then show ?thesis using acc step got off es_account_take(1) [OF acc]
      by (auto split: option.splits)
  next
    case Shut
    then show ?thesis using step snoc.prems(4) open1 by (auto simp: es_shut_def)
  qed
qed

section \<open>Properties\<close>

lemma upto_suffix:
  assumes "map f (xs @ ys) = [1..int (length (xs @ ys))]"
  shows "map f ys = [int (length xs) + 1..int (length xs) + int (length ys)]"
proof -
  have "[1..int (length (xs @ ys))] = [1..int (length xs)] @ [int (length xs) + 1..int (length (xs @ ys))]"
    using upto_split1 [of 1 "int (length xs) + 1" "int (length (xs @ ys))"] upto_split2 [of 1 "int (length xs)" "int (length (xs @ ys))"]
    by (cases ys; cases xs) auto
  moreover have "length [1..int (length xs)] = length (map f xs)" by simp
  ultimately show ?thesis using assms by (simp add: append_eq_append_conv)
qed

lemma ep_trace_account:
  assumes "ep_init c n b = Inr p0" and "ep_trace encoded_size p0 evs p" and "h < hub_next (ep_hub p)"
    and "\<not> es_closed (hub_heap (ep_hub p) h)"
  obtains before s0 after snap where "opened_at h evs = Some (before, s0, after)"
    and "es_account snap (length (offers after)) (took_from h evs) (hub_heap (ep_hub p) h)"
    and "ev_kind snap = snapshot_kind" and "ev_sequence snap = int (length (offers before))"
proof -
  have num: "ep_numbered evs p" and tr: "hub_trace es_enqueue es_take es_shut es_new evs (ep_hub p)"
    using ep_trace_numbered [OF assms(2,1)] by auto
  have "hub_ok es_enqueue es_take es_shut es_closed es_new evs (ep_hub p)"
    using es_new_inv by (intro event_channel.hub_trace_ok [OF tr]) auto
  then obtain before s0 after where at: "opened_at h evs = Some (before, s0, after)"
    and run: "channel_run es_enqueue es_take es_shut (sees h after) s0 =
      (took_from h evs, hub_heap (ep_hub p) h)"
    using hub_okD(3) assms(3) by blast
  obtain snap where s0: "s0 = es_init (ep_queue_capacity p) snap" and snap: "ev_kind snap = snapshot_kind"
      "ev_sequence snap = int (length (offers before))"
    using num [unfolded ep_numbered_def] at by blast
  have evs: "offers evs = offers before @ offers after" using opened_at_split [OF at] by simp
  have "map ev_sequence (offers before @ offers after) = [1..int (length (offers before @ offers after))]"
    using num evs by (simp add: ep_numbered_def)
  from upto_suffix [OF this]
  have "es_account snap (length (offers after)) (took_from h evs) (hub_heap (ep_hub p) h)"
    using es_run_account [OF run [unfolded s0] _ snap(1) assms(4)] num evs snap(2)
    by (auto simp: ep_numbered_def)
  with at snap show ?thesis by (intro that)
qed

definition sample_size :: "daemon_event \<Rightarrow> nat" where
  "sample_size e = 100"

definition sample_event :: "int \<Rightarrow> pystr \<Rightarrow> daemon_event" where
  "sample_event n kind = \<lparr>ev_sequence = n, ev_observed_at = Aware 0, ev_kind = kind,
     ev_payload = [], ev_protocol = event_protocol, ev_version = 1\<rparr>"

lemma sample_event_create:
  "0 \<le> n \<Longrightarrow> daemon_event n (Aware 0) [97] [] event_protocol 1 = Inr (sample_event n [97])"
  "0 \<le> n \<Longrightarrow> daemon_event n (Aware 0) snapshot_kind [] event_protocol 1 = Inr (sample_event n snapshot_kind)"
  by (simp_all add: daemon_event_def sample_event_def snapshot_kind_def py_str_def py_strip_def py_isspace_def)

text \<open>C6: The initial snapshot is never lost, and every later event is accounted for. In any
  interleaving of subscribing, publishing, receiving and closing, the first event an open
  subscription delivers is its snapshot, taken at the stream position where it subscribed, however
  many events have overflowed its queue since; after that, each event's sequence number is the
  snapshot's plus the number of events received plus the number dropped.\<close>

theorem event_snapshot_then_accounted:
  assumes "ep_init capacity limit max_bytes = Inr p0" and "ep_trace encoded_size p0 evs p"
    and "h < hub_next (ep_hub p)" and "ep_get h p = Inr (e, p')"
  shows "\<exists>before s0 after. opened_at h evs = Some (before, s0, after) \<and>
    (let got = took_from h evs; base = int (length (offers before)) in
     if got = [] then ev_kind e = snapshot_kind \<and> ev_sequence e = base
     else ev_kind (hd got) = snapshot_kind \<and> ev_kind e \<noteq> snapshot_kind \<and>
       ev_sequence e = base + int (length got) + es_dropped_events (hub_heap (ep_hub p) h))"
proof -
  define s where "s = hub_heap (ep_hub p) h"
  obtain s' where take: "es_take s = Some (e, s')"
    using assms(4) by (auto simp: ep_get_def es_take_def res_simps s_def)
  then have op: "\<not> es_closed s" by (simp add: es_take_Some)
  obtain before s0 after snap where at: "opened_at h evs = Some (before, s0, after)"
    and acc: "es_account snap (length (offers after)) (took_from h evs) s"
    and snap: "ev_kind snap = snapshot_kind" "ev_sequence snap = int (length (offers before))"
    using ep_trace_account [OF assms(1-3)] op unfolding s_def by blast
  have q: "es_queue s = e # es_queue s'" using take by (simp add: es_take_Some)
  have "took_from h evs \<noteq> [] \<Longrightarrow> hd (took_from h evs) = snap \<and> ev_kind e \<noteq> snapshot_kind"
    using acc q by (auto simp: es_account_def es_rest_def)
  with es_account_take(2) [OF acc take] at snap show ?thesis
    by (auto simp: Let_def s_def)
qed

lemma event_snapshot_then_accounted_witness:
  "\<exists>evs p e p'. ep_trace sample_size (projr (ep_init 2 4 1000)) evs p \<and>
     ep_get 0 p = Inr (e, p') \<and> length (took_from 0 evs) = 1 \<and>
     es_dropped_events (hub_heap (ep_hub p) 0) = 1 \<and> ev_sequence e = 3"
proof -
  define p0 where "p0 = projr (ep_init 2 4 1000)"
  define e1 e2 e3 snap where "e1 = sample_event 1 [97]" and "e2 = sample_event 2 [97]"
    and "e3 = sample_event 3 [97]" and "snap = sample_event 1 snapshot_kind"
  note ev = e1_def e2_def e3_def snap_def
  define p1 where "p1 = p0\<lparr>ep_sequence := 1, ep_hub := hub_offer es_enqueue e1 (ep_hub p0)\<rparr>"
  define p2 where "p2 = p1\<lparr>ep_hub := hub_open (es_init 2 snap) (ep_hub p1)\<rparr>"
  define p3 where "p3 = p2\<lparr>ep_sequence := 2, ep_hub := hub_offer es_enqueue e2 (ep_hub p2)\<rparr>"
  define p4 where "p4 = p3\<lparr>ep_sequence := 3, ep_hub := hub_offer es_enqueue e3 (ep_hub p3)\<rparr>"
  define p5 where "p5 = p4\<lparr>ep_hub := hub_put 0 ((hub_heap (ep_hub p4) 0)\<lparr>es_queue := [e3]\<rparr>) (ep_hub p4)\<rparr>"
  note st = p5_def p4_def p3_def p2_def p1_def p0_def ep_init_def hub_empty_def hub_open_def
    hub_offer_def hub_put_def es_init_def es_enqueue_def Let_def
  have kinds: "ev_kind snap = snapshot_kind" "[97] \<noteq> snapshot_kind"
    by (simp_all add: ev sample_event_def snapshot_kind_def py_str_def)
  have init: "ep_init 2 4 1000 = Inr p0" by (simp add: p0_def ep_init_def)
  have t0: "ep_trace sample_size p0 [] p0" by (rule ep_trace.start)
  have "ep_publish sample_size (Aware 0) [97] [] None p0 = Inr (e1, p1)"
    using kinds sample_event_create [of 1]
    by (simp add: ep_publish_def require_event_size_def sample_size_def ev p1_def) (simp add: st)
  from ep_trace.extend [OF t0 ep_step.publish [OF this]]
  have t1: "ep_trace sample_size p0 [HubOffered e1] p1" by simp
  have sub: "ep_subscribe sample_size (Aware 0) [] p1 = Inr (0, p2)"
    using sample_event_create [of 1]
    by (simp add: ep_subscribe_def require_event_size_def sample_size_def ev p2_def) (simp add: st)
  have h2: "hub_heap (ep_hub p2) 0 = es_init 2 snap" by (simp add: st)
  from ep_trace.extend [OF t1 ep_step.subscribe [OF sub]] h2
  have t2: "ep_trace sample_size p0 [HubOffered e1, HubOpened 0 (es_init 2 snap)] p2" by simp
  have "ep_publish sample_size (Aware 0) [97] [] None p2 = Inr (e2, p3)"
    using kinds sample_event_create [of 2]
    by (simp add: ep_publish_def require_event_size_def sample_size_def ev p3_def) (simp add: st)
  from ep_trace.extend [OF t2 ep_step.publish [OF this]]
  have t3: "ep_trace sample_size p0 [HubOffered e1, HubOpened 0 (es_init 2 snap), HubOffered e2] p3"
    by simp
  have "ep_publish sample_size (Aware 0) [97] [] None p3 = Inr (e3, p4)"
    using kinds sample_event_create [of 3]
    by (simp add: ep_publish_def require_event_size_def sample_size_def ev p4_def) (simp add: st)
  from ep_trace.extend [OF t3 ep_step.publish [OF this]]
  have t4: "ep_trace sample_size p0
      [HubOffered e1, HubOpened 0 (es_init 2 snap), HubOffered e2, HubOffered e3] p4" by simp
  have h4: "es_queue (hub_heap (ep_hub p4) 0) = [snap, e3]" "\<not> es_closed (hub_heap (ep_hub p4) 0)"
    "es_dropped_events (hub_heap (ep_hub p4) 0) = 1" "hub_next (ep_hub p4) = 1"
    by (simp_all add: st kinds)
  have "ep_get 0 p4 = Inr (snap, p5)"
    using h4 by (simp add: ep_get_def es_get_def p5_def)
  from ep_trace.extend [OF t4 ep_step.receive [OF _ this]] h4(4)
  have t5: "ep_trace sample_size p0
      [HubOffered e1, HubOpened 0 (es_init 2 snap), HubOffered e2, HubOffered e3, HubTook 0 snap] p5"
    by simp
  have h5: "es_queue (hub_heap (ep_hub p5) 0) = [e3]" "es_dropped_events (hub_heap (ep_hub p5) 0) = 1"
    "0 < hub_next (ep_hub p5)" "\<not> es_closed (hub_heap (ep_hub p5) 0)"
    using h4 by (simp_all add: p5_def hub_put_def)
  then obtain p6 where get: "ep_get 0 p5 = Inr (e3, p6)"
    by (simp add: ep_get_def es_get_def)
  have "ev_sequence e3 = 3"
    using event_snapshot_then_accounted [OF init t5 h5(3) get] h5(2) by (auto simp: Let_def)
  with t5 get h5(2) show ?thesis unfolding p0_def by fastforce
qed

text \<open>C39: Frozen payloads. An event's payload freezes exactly when it is JSON (string keys, finite
  numbers, no foreign objects, at any depth); thawing a frozen payload gives back the value with
  every tuple turned into a list; and freezing what was thawed gives the same frozen payload, so
  re-encoding an event changes nothing.\<close>

theorem payload_freeze_roundtrip:
  "((\<exists>items. freeze_items payload = Inr items) \<longleftrightarrow> json_ok_items payload) \<and>
   (case freeze_items payload of
      Inl _ \<Rightarrow> \<not> json_ok_items payload
    | Inr items \<Rightarrow> thaw_items items = json_normal_items payload \<and>
        freeze_items (thaw_items items) = Inr items)"
proof (cases "freeze_items payload")
  case (Inl e)
  then show ?thesis using freeze_ok(2) [of payload] by auto
next
  case (Inr items)
  then show ?thesis using freeze_ok(2) [of payload] thaw_freeze(2) [OF Inr] freeze_thaw(2) [of items]
    by auto
qed

end
