(* ===== verification/Favorites_File.thy ===== *)
theory Favorites_File
  imports Prelude
begin

text \<open>
  \<^verbatim>\<open>src/sds200/favorites_file.py\<close>: the lossless parser of Favorites source files. Bytes are
  characters (a HOL \<open>char\<close> is a byte), so a decoded ASCII field is the same list of characters.
  A source record is its content and its line ending together with the tab-separated fields the
  constructor decodes; a file is the list of its records. \<^theory_text>\<open>split_source_lines\<close> is the code's
  index loop; \<^theory_text>\<open>lines_of\<close> is its structural specification.
\<close>

type_synonym bytes = "char list"

abbreviation "cr \<equiv> CHR 0x0D"
abbreviation "lf \<equiv> CHR 0x0A"
abbreviation "tab \<equiv> CHR 0x09"

section \<open>Records\<close>

record fav_record =
  fr_content :: bytes
  fr_ending :: bytes
  fr_command :: string
  fr_fields :: "string list"

datatype record_error =
    InvalidLineEnding
  | ContentHasLineEnding
  | NotAscii

definition is_ascii :: "bytes \<Rightarrow> bool" where
  "is_ascii s \<longleftrightarrow> list_all (\<lambda>c. of_char c < (128 :: nat)) s"

definition decode_ascii :: "bytes \<Rightarrow> record_error + string" where
  "decode_ascii s = raise_if (\<not> is_ascii s) NotAscii (Inr s)"

definition line_endings :: "bytes list" where
  "line_endings = [[], [cr], [lf], [cr, lf]]"

definition fav_record :: "bytes \<Rightarrow> bytes \<Rightarrow> record_error + fav_record" where
  "fav_record content line_ending =
     raise_if (line_ending \<notin> set line_endings) InvalidLineEnding
    (raise_if (cr \<in> set content \<or> lf \<in> set content) ContentHasLineEnding
    (bind_res (map_res decode_ascii (split_on tab content)) (\<lambda>decoded.
      Inr \<lparr>fr_content = content, fr_ending = line_ending, fr_command = hd decoded,
           fr_fields = tl decoded\<rparr>)))"

definition fr_field_count :: "fav_record \<Rightarrow> nat" where
  "fr_field_count r = 1 + length (fr_fields r)"

definition fr_raw_bytes :: "fav_record \<Rightarrow> bytes" where
  "fr_raw_bytes r = fr_content r @ fr_ending r"

section \<open>Files\<close>

text \<open>A \<open>FavoritesSourceFile\<close> is its tuple of records.\<close>

type_synonym fav_file = "fav_record list"

datatype file_error = MissingLineEnding

definition fav_file :: "fav_record list \<Rightarrow> file_error + fav_file" where
  "fav_file records =
     raise_if (\<exists>r \<in> set (butlast records). fr_ending r = []) MissingLineEnding (Inr records)"

definition to_bytes :: "fav_file \<Rightarrow> bytes" where
  "to_bytes f = concat (map fr_raw_bytes f)"

section \<open>Parsing\<close>

function split_source_lines :: "bytes \<Rightarrow> nat \<Rightarrow> nat \<Rightarrow> (bytes \<times> bytes) list" where
  "split_source_lines data start index =
     (if index < length data then
        let value = data ! index in
        if value = cr then
          let content = py_slice data start index in
          if index + 1 < length data \<and> data ! (index + 1) = lf
          then (content, [cr, lf]) # split_source_lines data (index + 2) (index + 2)
          else (content, [cr]) # split_source_lines data (index + 1) (index + 1)
        else if value = lf then
          (py_slice data start index, [lf]) # split_source_lines data (index + 1) (index + 1)
        else split_source_lines data start (index + 1)
      else if start < length data then [(drop start data, [])]
      else [])"
  by pat_completeness auto
termination
  by (relation "measure (\<lambda>(data, start, index). length data - index)") auto

declare split_source_lines.simps [simp del]

datatype favorites_error =
    ParseError nat record_error
  | InvalidFile file_error

fun parse_lines :: "nat \<Rightarrow> (bytes \<times> bytes) list \<Rightarrow> favorites_error + fav_record list" where
  "parse_lines line_number [] = Inr []"
| "parse_lines line_number ((content, line_ending) # rest) =
     bind_res (map_error (ParseError line_number) (fav_record content line_ending)) (\<lambda>r.
     bind_res (parse_lines (line_number + 1) rest) (\<lambda>rs. Inr (r # rs)))"

definition parse_favorites_file :: "bytes \<Rightarrow> favorites_error + fav_file" where
  "parse_favorites_file data =
     bind_res (parse_lines 1 (split_source_lines data 0 0)) (\<lambda>records.
       map_error InvalidFile (fav_file records))"

section \<open>Records: what the constructor guarantees\<close>

abbreviation join_tab :: "bytes list \<Rightarrow> bytes" where
  "join_tab \<equiv> join_on tab"

lemma is_ascii_simps [simp]:
  "is_ascii []" "is_ascii (c # s) \<longleftrightarrow> of_char c < (128 :: nat) \<and> is_ascii s"
  "is_ascii (s @ t) \<longleftrightarrow> is_ascii s \<and> is_ascii t"
  by (auto simp: is_ascii_def)

lemma split_on_ascii: "(\<forall>p \<in> set (split_on tab s). is_ascii p) \<longleftrightarrow> is_ascii s"
proof (induction s)
  case (Cons c s)
  obtain p ps where "split_on tab s = p # ps" by (cases "split_on tab s") auto
  with Cons show ?case by auto
qed simp

lemma map_decode_ascii:
  "map_res decode_ascii ps = (if \<forall>p \<in> set ps. is_ascii p then Inr ps else Inl NotAscii)"
  by (induction ps) (auto simp: decode_ascii_def raise_if_def)

definition record_ok :: "fav_record \<Rightarrow> bool" where
  "record_ok r \<longleftrightarrow>
     fr_ending r \<in> set line_endings \<and> cr \<notin> set (fr_content r) \<and> lf \<notin> set (fr_content r) \<and>
     is_ascii (fr_content r) \<and> fr_command r # fr_fields r = split_on tab (fr_content r)"

lemma fav_record_Inr:
  "fav_record content ending = Inr r \<longleftrightarrow>
     record_ok r \<and> fr_content r = content \<and> fr_ending r = ending"
  by (cases r)
    (auto simp: fav_record_def record_ok_def res_simps map_decode_ascii split_on_ascii
      split: if_splits; metis list.collapse split_on_not_Nil list.sel)

lemma fav_record_Inl:
  assumes "ending \<in> set line_endings" and "cr \<notin> set content" and "lf \<notin> set content"
  shows "fav_record content ending = Inl e \<longleftrightarrow> \<not> is_ascii content \<and> e = NotAscii"
  using assms by (auto simp: fav_record_def res_simps map_decode_ascii split_on_ascii)

lemma record_ok_eqI:
  "record_ok r \<Longrightarrow> record_ok r' \<Longrightarrow> fr_content r = fr_content r' \<Longrightarrow> fr_ending r = fr_ending r' \<Longrightarrow> r = r'"
  by (metis fav_record_Inr Inr_inject)

section \<open>Lines\<close>

fun lines_of :: "bytes \<Rightarrow> bytes \<Rightarrow> (bytes \<times> bytes) list" where
  "lines_of acc [] = (if acc = [] then [] else [(acc, [])])"
| "lines_of acc (c # cs) =
     (if c = cr then
        (case cs of
           d # ds \<Rightarrow> if d = lf then (acc, [cr, lf]) # lines_of [] ds else (acc, [cr]) # lines_of [] cs
         | [] \<Rightarrow> [(acc, [cr])])
      else if c = lf then (acc, [lf]) # lines_of [] cs
      else lines_of (acc @ [c]) cs)"

lemma split_source_lines_eq:
  "start \<le> index \<Longrightarrow> index \<le> length data \<Longrightarrow>
   split_source_lines data start index = lines_of (py_slice data start index) (drop index data)"
proof (induction data start index rule: split_source_lines.induct)
  case (1 data start index)
  show ?case
  proof (cases "index < length data")
    case False
    then show ?thesis using "1.prems"
      by (subst split_source_lines.simps) (auto simp: py_slice_def)
  next
    case True
    then have d: "drop index data = data ! index # drop (index + 1) data"
      by (simp add: Cons_nth_drop_Suc)
    have snoc: "py_slice data start (index + 1) = py_slice data start index @ [data ! index]"
      using True "1.prems" by (simp add: py_slice_def Suc_diff_le take_Suc_conv_app_nth)
    have d1: "drop (index + 1) data = (if index + 1 < length data
        then data ! (index + 1) # drop (index + 2) data else [])"
      by (auto simp: Cons_nth_drop_Suc)
    have Nil: "py_slice data i i = []" for i by (simp add: py_slice_def)
    note IH = "1.IH" [OF True refl]
    show ?thesis
    proof (cases "data ! index = cr")
      case cr: True
      show ?thesis
      proof (cases "index + 1 < length data \<and> data ! (index + 1) = lf")
        case nl: True
        from IH(1) [OF cr refl nl] nl show ?thesis
          using True cr d d1 by (subst split_source_lines.simps) (simp add: Let_def Nil)
      next
        case nl: False
        from IH(2) [OF cr refl nl] True have
          "split_source_lines data (index + 1) (index + 1) = lines_of [] (drop (index + 1) data)"
          by (simp add: Nil)
        then show ?thesis
          using True cr d d1 nl
          by (subst split_source_lines.simps) (auto simp add: Let_def Nil split: list.splits)
      qed
    next
      case ncr: False
      show ?thesis
      proof (cases "data ! index = lf")
        case nl: True
        from IH(3) [OF ncr nl] True show ?thesis
          using ncr nl d by (subst split_source_lines.simps) (simp add: Let_def Nil)
      next
        case nl: False
        from IH(4) [OF ncr nl] True "1.prems" show ?thesis
          using ncr nl d snoc by (subst split_source_lines.simps) (simp add: Let_def)
      qed
    qed
  qed
qed

lemma split_source_lines_start: "split_source_lines data 0 0 = lines_of [] data"
  using split_source_lines_eq [of 0 0 data] by (simp add: py_slice_def)

lemma lines_of_concat: "concat (map (\<lambda>(c, e). c @ e) (lines_of acc data)) = acc @ data"
  by (induction acc data rule: lines_of.induct) (auto split: list.splits)

text \<open>
  The lines a split produces: no line ending inside a line, only the last may lack one and then is
  not empty, and a line ended by a carriage return is not followed by an empty line ended by a
  line feed (the two endings would have been one).
\<close>

fun lines_canonical :: "(bytes \<times> bytes) list \<Rightarrow> bool" where
  "lines_canonical [] = True"
| "lines_canonical ((c, e) # ls) \<longleftrightarrow>
     e \<in> set line_endings \<and> cr \<notin> set c \<and> lf \<notin> set c \<and>
     (e = [] \<longrightarrow> ls = [] \<and> c \<noteq> []) \<and>
     (e = [cr] \<longrightarrow> ls = [] \<or> hd ls \<noteq> ([], [lf])) \<and>
     lines_canonical ls"

lemma lines_of_prefix: "lines_of acc data = (c, e) # ls \<Longrightarrow> \<exists>t. c = acc @ t"
  by (induction acc data rule: lines_of.induct) (auto split: if_splits list.splits)

lemma lines_of_head: "lines_of [] (d # ds) = ([], [lf]) # ls \<Longrightarrow> d = lf"
  using lines_of_prefix [of "[d]" ds "[]" "[lf]" ls] by (auto split: if_splits list.splits)

lemma lines_of_canonical: "cr \<notin> set acc \<Longrightarrow> lf \<notin> set acc \<Longrightarrow> lines_canonical (lines_of acc data)"
proof (induction acc data rule: lines_of.induct)
  case (1 acc)
  then show ?case by (simp add: line_endings_def)
next
  case (2 acc c cs)
  show ?case
  proof (cases "c = cr")
    case True
    show ?thesis
    proof (cases cs)
      case Nil
      then show ?thesis using True "2.prems" by (simp add: line_endings_def)
    next
      case (Cons d ds)
      show ?thesis
      proof (cases "d = lf")
        case lf: True
        then show ?thesis using 2 True Cons by (simp add: line_endings_def)
      next
        case False
        have "lines_of [] (d # ds) = [] \<or> hd (lines_of [] (d # ds)) \<noteq> ([], [lf])"
          using lines_of_head [of d ds] False by (cases "lines_of [] (d # ds)") auto
        then show ?thesis using 2 True Cons False by (simp add: line_endings_def)
      qed
    qed
  next
    case False
    then show ?thesis using 2 by (auto simp: line_endings_def)
  qed
qed

lemma lines_of_skip: "cr \<notin> set c \<Longrightarrow> lf \<notin> set c \<Longrightarrow> lines_of acc (c @ data) = lines_of (acc @ c) data"
  by (induction c arbitrary: acc) auto

lemma canonical_first:
  assumes "lines_canonical ((c, e) # ls)" and "(c, e) \<noteq> ([], [lf])"
  shows "\<exists>d ds. c @ e @ r = d # ds \<and> d \<noteq> lf"
proof (cases c)
  case Nil
  then show ?thesis using assms by (auto simp: line_endings_def)
next
  case (Cons d ds)
  then show ?thesis using assms by auto
qed

lemma lines_of_canonical_concat:
  "lines_canonical ls \<Longrightarrow> lines_of [] (concat (map (\<lambda>(c, e). c @ e) ls)) = ls"
proof (induction ls)
  case Nil
  then show ?case by simp
next
  case (Cons l ls)
  obtain c e where l: "l = (c, e)" by (cases l)
  define rest where "rest = concat (map (\<lambda>(c, e). c @ e) ls)"
  have can: "e \<in> set line_endings" "cr \<notin> set c" "lf \<notin> set c" "e = [] \<Longrightarrow> ls = [] \<and> c \<noteq> []"
    "e = [cr] \<Longrightarrow> ls = [] \<or> hd ls \<noteq> ([], [lf])" "lines_canonical ls"
    using Cons.prems l by auto
  have IH: "lines_of [] rest = ls" using Cons.IH can(6) by (simp add: rest_def)
  have skip: "lines_of [] (c @ e @ rest) = lines_of c (e @ rest)"
    using lines_of_skip [OF can(2,3), of "[]"] by simp
  consider "e = []" | "e = [cr]" | "e = [lf]" | "e = [cr, lf]"
    using can(1) by (auto simp: line_endings_def)
  then have "lines_of c (e @ rest) = (c, e) # ls"
  proof cases
    case 1
    then show ?thesis using can(4) by (simp add: rest_def)
  next
    case 2
    show ?thesis
    proof (cases ls)
      case Nil
      then show ?thesis using 2 by (simp add: rest_def)
    next
      case (Cons l' ls')
      obtain c' e' where l': "l' = (c', e')" by (cases l')
      have "\<exists>d ds. rest = d # ds \<and> d \<noteq> lf"
        using canonical_first [of c' e' ls' "concat (map (\<lambda>(c, e). c @ e) ls')"] can(5,6) 2 Cons l'
        by (simp add: rest_def)
      then show ?thesis using 2 IH by auto
    qed
  next
    case 3
    then show ?thesis using IH by simp
  next
    case 4
    then show ?thesis using IH by simp
  qed
  with skip show ?case by (simp add: l rest_def)
qed

section \<open>The parser against its specification\<close>

definition record_line :: "fav_record \<Rightarrow> bytes \<times> bytes" where
  "record_line r = (fr_content r, fr_ending r)"

lemma parse_lines_Inr:
  "parse_lines n ls = Inr rs \<longleftrightarrow> list_all record_ok rs \<and> map record_line rs = ls"
proof (induction ls arbitrary: n rs)
  case Nil
  then show ?case by auto
next
  case (Cons l ls)
  show ?case
    by (cases l; cases rs) (auto simp: res_simps Cons.IH fav_record_Inr record_line_def)
qed

lemma lines_ending_butlast:
  "lines_canonical ls \<Longrightarrow> (c, e) \<in> set (butlast ls) \<Longrightarrow> e \<noteq> []"
  by (induction ls rule: lines_canonical.induct) (auto split: if_splits)

lemma butlast_record_line:
  "r \<in> set (butlast rs) \<Longrightarrow> (fr_content r, fr_ending r) \<in> set (butlast (map record_line rs))"
  by (auto simp: map_butlast [symmetric] record_line_def)

lemma parse_favorites_file_Inr:
  "parse_favorites_file data = Inr f \<longleftrightarrow> list_all record_ok f \<and> map record_line f = lines_of [] data"
proof
  assume "parse_favorites_file data = Inr f"
  then show "list_all record_ok f \<and> map record_line f = lines_of [] data"
    by (auto simp: parse_favorites_file_def res_simps fav_file_def parse_lines_Inr
        split_source_lines_start)
next
  assume *: "list_all record_ok f \<and> map record_line f = lines_of [] data"
  then have "lines_canonical (map record_line f)" using lines_of_canonical [of "[]" data] by simp
  then have "\<not> (\<exists>r \<in> set (butlast f). fr_ending r = [])"
    using lines_ending_butlast butlast_record_line by metis
  then have "fav_file f = Inr f" by (simp add: fav_file_def)
  moreover have "parse_lines 1 (lines_of [] data) = Inr f" using * by (simp add: parse_lines_Inr)
  ultimately show "parse_favorites_file data = Inr f"
    by (simp add: parse_favorites_file_def split_source_lines_start)
qed

lemma to_bytes_lines: "to_bytes f = concat (map (\<lambda>(c, e). c @ e) (map record_line f))"
  by (induction f) (simp_all add: to_bytes_def fr_raw_bytes_def record_line_def)

lemma parse_to_bytes_id: "parse_favorites_file data = Inr f \<Longrightarrow> to_bytes f = data"
  using lines_of_concat [of "[]" data] by (auto simp: parse_favorites_file_Inr to_bytes_lines)

lemma parse_lines_Inl:
  assumes "lines_canonical ls" and "parse_lines n ls = Inl e"
  shows "\<exists>i < length ls. e = ParseError (n + i) NotAscii \<and> \<not> is_ascii (fst (ls ! i)) \<and>
    (\<forall>j < i. is_ascii (fst (ls ! j)))"
  using assms
proof (induction ls arbitrary: n)
  case Nil
  then show ?case by simp
next
  case (Cons l ls)
  obtain c e' where l: "l = (c, e')" by (cases l)
  have can: "e' \<in> set line_endings" "cr \<notin> set c" "lf \<notin> set c" "lines_canonical ls"
    using Cons.prems(1) l by auto
  show ?case
  proof (cases "fav_record c e'")
    case (Inl err)
    then have "\<not> is_ascii c" "err = NotAscii" using fav_record_Inl [OF can(1-3)] by auto
    then show ?thesis using Cons.prems(2) Inl l by (intro exI [of _ 0]) auto
  next
    case (Inr r)
    then have asc: "is_ascii c" by (auto simp: fav_record_Inr record_ok_def)
    have "parse_lines (n + 1) ls = Inl e"
      using Cons.prems(2) Inr l by (auto simp: res_simps)
    from Cons.IH [OF can(4) this] obtain i where "i < length ls" "e = ParseError (n + 1 + i) NotAscii"
      "\<not> is_ascii (fst (ls ! i))" "\<forall>j < i. is_ascii (fst (ls ! j))" by auto
    then show ?thesis using asc l
      by (intro exI [of _ "Suc i"]) (auto simp: nth_Cons' less_Suc_eq_0_disj)
  qed
qed

lemma is_ascii_concat: "is_ascii (concat xss) \<longleftrightarrow> (\<forall>xs \<in> set xss. is_ascii xs)"
  by (induction xss) auto

lemma ascii_lines: "is_ascii data \<longleftrightarrow> (\<forall>l \<in> set (lines_of [] data). is_ascii (fst l))"
proof -
  have "lines_canonical ls \<Longrightarrow> (c, e) \<in> set ls \<Longrightarrow> is_ascii e" for ls c e
    by (induction ls rule: lines_canonical.induct) (auto simp: line_endings_def)
  then have "is_ascii (snd l)" if "l \<in> set (lines_of [] data)" for l
    using lines_of_canonical [of "[]" data] that by (cases l) auto
  moreover have "is_ascii data \<longleftrightarrow> (\<forall>l \<in> set (lines_of [] data). is_ascii (fst l @ snd l))"
    using is_ascii_concat [of "map (\<lambda>(c, e). c @ e) (lines_of [] data)"] lines_of_concat [of "[]" data]
    by (simp add: split_beta)
  ultimately show ?thesis by auto
qed

lemma parse_favorites_file_Inl:
  assumes "parse_favorites_file data = Inl e"
  shows "\<exists>i < length (lines_of [] data). e = ParseError (Suc i) NotAscii \<and>
    \<not> is_ascii (fst (lines_of [] data ! i)) \<and> (\<forall>j < i. is_ascii (fst (lines_of [] data ! j)))"
proof -
  have can: "lines_canonical (lines_of [] data)" by (rule lines_of_canonical) simp_all
  have "parse_lines 1 (lines_of [] data) = Inl e"
  proof (cases "parse_lines 1 (lines_of [] data)")
    case (Inl e')
    then show ?thesis using assms by (simp add: parse_favorites_file_def split_source_lines_start)
  next
    case (Inr rs)
    then have "parse_favorites_file data = Inr rs"
      by (auto simp: parse_favorites_file_Inr parse_lines_Inr)
    with assms show ?thesis by simp
  qed
  from parse_lines_Inl [OF can this] show ?thesis by simp
qed

text \<open>What a source file built record by record must satisfy to survive being written and read
  again as the same records.\<close>

definition file_canonical :: "fav_file \<Rightarrow> bool" where
  "file_canonical f \<longleftrightarrow> list_all record_ok f \<and> lines_canonical (map record_line f)"

lemma parse_to_bytes_iff:
  assumes "list_all record_ok f"
  shows "parse_favorites_file (to_bytes f) = Inr f \<longleftrightarrow> file_canonical f"
proof
  assume "parse_favorites_file (to_bytes f) = Inr f"
  then have "map record_line f = lines_of [] (to_bytes f)" by (simp add: parse_favorites_file_Inr)
  then show "file_canonical f"
    using assms lines_of_canonical [of "[]" "to_bytes f"] by (simp add: file_canonical_def)
next
  assume "file_canonical f"
  then show "parse_favorites_file (to_bytes f) = Inr f"
    by (simp add: parse_favorites_file_Inr to_bytes_lines file_canonical_def lines_of_canonical_concat
        del: map_map)
qed

section \<open>Properties\<close>

text \<open>C11: Lossless parsing, and its errors. The index loop that splits a file into lines computes the
  structural specification. Bytes are accepted exactly when all are ASCII, and then the records,
  each with the fields its content splits into, reconstruct the bytes exactly and are canonical;
  otherwise the error is \<open>NotAscii\<close> at the first line (counted from 1) that has a non-ASCII byte.\<close>

theorem favorites_parse_lossless:
  "split_source_lines data 0 0 = lines_of [] data \<and>
   (case parse_favorites_file data of
      Inr f \<Rightarrow> is_ascii data \<and> to_bytes f = data \<and> file_canonical f
    | Inl e \<Rightarrow> \<not> is_ascii data \<and>
        (\<exists>i < length (lines_of [] data). e = ParseError (Suc i) NotAscii \<and>
           \<not> is_ascii (fst (lines_of [] data ! i)) \<and>
           (\<forall>j < i. is_ascii (fst (lines_of [] data ! j)))))"
proof (cases "parse_favorites_file data")
  case (Inl e)
  from parse_favorites_file_Inl [OF Inl] obtain i where i: "i < length (lines_of [] data)"
    "e = ParseError (Suc i) NotAscii" "\<not> is_ascii (fst (lines_of [] data ! i))"
    "\<forall>j < i. is_ascii (fst (lines_of [] data ! j))" by blast
  from nth_mem [OF i(1)] i(3) have "\<not> is_ascii data" using ascii_lines [of data] by blast
  with i Inl split_source_lines_start show ?thesis by auto
next
  case (Inr f)
  then have "list_all record_ok f" "map record_line f = lines_of [] data"
    by (auto simp: parse_favorites_file_Inr)
  moreover from this(1) have "\<forall>l \<in> set (map record_line f). is_ascii (fst l)"
    by (auto simp: record_line_def record_ok_def list_all_iff)
  moreover have "lines_canonical (lines_of [] data)" by (rule lines_of_canonical) simp_all
  ultimately show ?thesis
    using Inr parse_to_bytes_id [OF Inr] split_source_lines_start ascii_lines [of data]
    by (simp add: file_canonical_def)
qed

lemma favorites_parse_lossless_witness:
  "\<exists>f. parse_favorites_file (''Site'' @ [tab] @ ''A'' @ [lf]) = Inr f \<and> to_bytes f = ''Site'' @ [tab] @ ''A'' @ [lf]"
proof -
  have "is_ascii (''Site'' @ [tab] @ ''A'' @ [lf])" by (simp add: is_ascii_def)
  with favorites_parse_lossless [of "''Site'' @ [tab] @ ''A'' @ [lf]"] show ?thesis
    by (simp split: sum.splits)
qed

text \<open>C38: Writing and re-reading records. For well-formed records, parsing the bytes they are written
  as gives the same records back if and only if they are canonical: no record but a non-empty last
  one lacks its line ending, and no record that ends in a carriage return is followed by an empty
  one that ends in a line feed (whose two endings read back as one).\<close>

theorem favorites_reparse_exact:
  assumes "list_all record_ok f"
  shows "parse_favorites_file (to_bytes f) = Inr f \<longleftrightarrow> file_canonical f"
  using assms by (rule parse_to_bytes_iff)

lemma favorites_reparse_exact_witness:
  "let r1 = \<lparr>fr_content = ''A'', fr_ending = [cr], fr_command = ''A'', fr_fields = []\<rparr>;
       r2 = \<lparr>fr_content = [], fr_ending = [lf], fr_command = [], fr_fields = []\<rparr>
   in list_all record_ok [r1, r2] \<and> parse_favorites_file (to_bytes [r1, r2]) \<noteq> Inr [r1, r2] \<and>
      parse_favorites_file (to_bytes [r2, r1]) = Inr [r2, r1]"
proof -
  let ?r1 = "\<lparr>fr_content = ''A'', fr_ending = [cr], fr_command = ''A'', fr_fields = []\<rparr>"
  let ?r2 = "\<lparr>fr_content = [], fr_ending = [lf], fr_command = [], fr_fields = []\<rparr>"
  have ok: "list_all record_ok [?r1, ?r2]" "list_all record_ok [?r2, ?r1]"
    by (simp_all add: record_ok_def line_endings_def)
  have "\<not> file_canonical [?r1, ?r2]" "file_canonical [?r2, ?r1]"
    using ok by (simp_all add: file_canonical_def record_line_def line_endings_def)
  with favorites_reparse_exact [OF ok(1)] favorites_reparse_exact [OF ok(2)] ok(1) show ?thesis
    by (simp add: Let_def)
qed

end
