(* ===== verification/Favorites_Catalog.thy ===== *)
theory Favorites_Catalog
  imports Favorites_File
begin

text \<open>
  \<^verbatim>\<open>src/sds200/favorites_catalog.py\<close>: the projection of \<open>f_list.cfg\<close> records to catalog entries.
\<close>

record catalog_entry =
  ce_source_index :: nat
  ce_source :: fav_record

datatype catalog_error =
    CatalogError nat string
  | InvalidCatalogEntry

definition catalog_entry :: "nat \<Rightarrow> fav_record \<Rightarrow> catalog_error + catalog_entry" where
  "catalog_entry source_index source =
     raise_if (fr_command source \<noteq> ''F-List'') InvalidCatalogEntry
    (raise_if (length (fr_fields source) < 2) InvalidCatalogEntry
      (Inr \<lparr>ce_source_index = source_index, ce_source = source\<rparr>))"

definition ce_name :: "catalog_entry \<Rightarrow> string" where
  "ce_name e = fr_fields (ce_source e) ! 0"

definition ce_filename :: "catalog_entry \<Rightarrow> string" where
  "ce_filename e = fr_fields (ce_source e) ! 1"

record fav_catalog =
  fc_source :: fav_file
  fc_metadata_indexes :: "nat list"
  fc_entries :: "catalog_entry list"
  fc_unclassified_indexes :: "nat list"

fun catalog_step ::
  "nat \<times> fav_record \<Rightarrow> nat list \<times> catalog_entry list \<times> nat list \<Rightarrow>
   catalog_error + nat list \<times> catalog_entry list \<times> nat list" where
  "catalog_step (source_index, r) (metadata, entries, unclassified) =
     (if fr_command r \<in> {''TargetModel'', ''FormatVersion''} then
        Inr (metadata @ [source_index], entries, unclassified)
      else if fr_command r = ''F-List'' then
        raise_if (length (fr_fields r) < 2) (CatalogError source_index (fr_command r))
          (bind_res (catalog_entry source_index r) (\<lambda>e. Inr (metadata, entries @ [e], unclassified)))
      else Inr (metadata, entries, unclassified @ [source_index]))"

definition project_favorites_catalog :: "fav_file \<Rightarrow> catalog_error + fav_catalog" where
  "project_favorites_catalog source =
     bind_res (fold_res catalog_step (List.enumerate 0 source) ([], [], []))
       (\<lambda>(metadata, entries, unclassified).
         Inr \<lparr>fc_source = source, fc_metadata_indexes = metadata, fc_entries = entries,
              fc_unclassified_indexes = unclassified\<rparr>)"

section \<open>Specification\<close>

definition is_metadata :: "fav_record \<Rightarrow> bool" where
  "is_metadata r \<longleftrightarrow> fr_command r \<in> {''TargetModel'', ''FormatVersion''}"

definition is_entry :: "fav_record \<Rightarrow> bool" where
  "is_entry r \<longleftrightarrow> fr_command r = ''F-List''"

definition indexes_where :: "(fav_record \<Rightarrow> bool) \<Rightarrow> fav_file \<Rightarrow> nat list" where
  "indexes_where P f = map fst (filter (P \<circ> snd) (List.enumerate 0 f))"

definition entries_of :: "(nat \<times> fav_record) list \<Rightarrow> catalog_entry list" where
  "entries_of irs = map (\<lambda>(i, r). \<lparr>ce_source_index = i, ce_source = r\<rparr>) (filter (is_entry \<circ> snd) irs)"

lemma catalog_fold:
  "fold_res catalog_step irs (m, es, u) =
     (case filter (\<lambda>(i, r). is_entry r \<and> length (fr_fields r) < 2) irs of
        (i, r) # _ \<Rightarrow> Inl (CatalogError i ''F-List'')
      | [] \<Rightarrow> Inr (m @ map fst (filter (is_metadata \<circ> snd) irs), es @ entries_of irs,
          u @ map fst (filter (\<lambda>(i, r). \<not> is_metadata r \<and> \<not> is_entry r) irs)))"
proof (induction irs arbitrary: m es u)
  case Nil
  then show ?case by (simp add: entries_of_def)
next
  case (Cons ir irs)
  obtain i r where ir: "ir = (i, r)" by (cases ir)
  show ?case
  proof (cases "is_entry r")
    case True
    then have "\<not> is_metadata r" by (simp add: is_entry_def is_metadata_def)
    with True show ?thesis
      by (auto simp: ir Cons.IH catalog_entry_def entries_of_def is_entry_def
          is_metadata_def raise_if_def split: list.splits)
  next
    case False
    then show ?thesis
      by (auto simp: ir Cons.IH entries_of_def is_entry_def is_metadata_def
          split: list.splits)
  qed
qed

text \<open>C37: The catalog is a partition of the file. Every record index is metadata, an entry or
  unclassified according to its command, each list in file order, and each entry carries its
  record; the projection fails exactly when some \<open>F-List\<close> record lacks its two fields, naming the
  first one; the entry constructor's own checks never fail.\<close>

theorem catalog_projection_exact:
  "case project_favorites_catalog f of
     Inr c \<Rightarrow>
       fc_source c = f \<and> fc_metadata_indexes c = indexes_where is_metadata f \<and>
       map ce_source_index (fc_entries c) = indexes_where is_entry f \<and>
       fc_unclassified_indexes c = indexes_where (\<lambda>r. \<not> is_metadata r \<and> \<not> is_entry r) f \<and>
       (\<forall>e \<in> set (fc_entries c). ce_source_index e < length f \<and> ce_source e = f ! ce_source_index e \<and>
          2 \<le> length (fr_fields (ce_source e))) \<and>
       (\<forall>r \<in> set f. is_entry r \<longrightarrow> 2 \<le> length (fr_fields r))
   | Inl err \<Rightarrow>
       (\<exists>i < length f. err = CatalogError i ''F-List'' \<and> is_entry (f ! i) \<and>
          length (fr_fields (f ! i)) < 2 \<and> (\<forall>j < i. is_entry (f ! j) \<longrightarrow> 2 \<le> length (fr_fields (f ! j))))"
proof (cases "filter (\<lambda>(i, r). is_entry r \<and> length (fr_fields r) < 2) (List.enumerate 0 f)")
  case Nil
  have all: "\<forall>r \<in> set f. is_entry r \<longrightarrow> 2 \<le> length (fr_fields r)"
  proof (intro ballI impI)
    fix r assume "r \<in> set f" and r: "is_entry r"
    then obtain i where "i < length f" "r = f ! i" by (auto simp: in_set_conv_nth)
    then have "(i, r) \<in> set (List.enumerate 0 f)" by (simp add: in_set_enumerate0)
    then show "2 \<le> length (fr_fields r)" using Nil r by (auto simp: filter_empty_conv)
  qed
  have "\<forall>e \<in> set (entries_of (List.enumerate 0 f)). ce_source_index e < length f \<and>
      ce_source e = f ! ce_source_index e \<and> 2 \<le> length (fr_fields (ce_source e))"
    using all by (auto simp: entries_of_def in_set_enumerate_eq)
  then show ?thesis
    using Nil all
    by (simp add: project_favorites_catalog_def catalog_fold indexes_where_def comp_def)
      (auto simp add: case_prod_unfold entries_of_def comp_def)
next
  case (Cons ir irs)
  obtain i r where ir: "ir = (i, r)" by (cases ir)
  obtain us vs where split: "List.enumerate 0 f = us @ (i, r) # vs"
    and us: "\<forall>x \<in> set us. \<not> (case x of (i, r) \<Rightarrow> is_entry r \<and> length (fr_fields r) < 2)"
    and r: "is_entry r" "length (fr_fields r) < 2"
    using Cons ir by (auto simp: filter_eq_Cons_iff)
  have len: "length us < length f" using arg_cong [OF split, of length] by simp
  have i: "(i, r) = (length us, f ! length us)"
    using arg_cong [OF split, of "\<lambda>l. l ! length us"] len by (auto simp add: nth_enumerate_eq)
  have "us ! j = (j, f ! j)" if "j < length us" for j
    using arg_cong [OF split, of "\<lambda>l. l ! j"] len that by (simp add: nth_enumerate_eq nth_append)
  then have "\<forall>j < i. is_entry (f ! j) \<longrightarrow> 2 \<le> length (fr_fields (f ! j))"
    using us i nth_mem [of _ us] by fastforce
  then show ?thesis
    using Cons ir r len i by (auto simp: project_favorites_catalog_def catalog_fold)
qed

lemma catalog_projection_exact_witness:
  "project_favorites_catalog
     [\<lparr>fr_content = ''F-List'', fr_ending = [lf], fr_command = ''F-List'', fr_fields = [''A'']\<rparr>] =
   Inl (CatalogError 0 ''F-List'')"
  using catalog_projection_exact [of
      "[\<lparr>fr_content = ''F-List'', fr_ending = [lf], fr_command = ''F-List'', fr_fields = [''A'']\<rparr>]"]
  by (auto simp: is_entry_def split: sum.splits)

end
