(* ===== verification/Favorites_Hierarchy.thy ===== *)
theory Favorites_Hierarchy
  imports Favorites_File
begin

text \<open>
  \<^verbatim>\<open>src/sds200/favorites_hierarchy.py\<close>: the projection of a lossless source file to systems,
  departments, sites and channels. The loop's builders are records; a builder that a
  \<open>current_*\<close> variable refers to is always the last of the list it was appended to, so the
  variable is a flag and mutation through it updates that last element. Freezing a builder copies
  its lists to tuples, which the model does not distinguish.
\<close>

section \<open>Projected values\<close>

record fav_reference =
  ref_index :: nat
  ref_record :: fav_record

abbreviation ref_command :: "fav_reference \<Rightarrow> string" where
  "ref_command r \<equiv> fr_command (ref_record r)"

definition record_name :: "fav_reference \<Rightarrow> string option" where
  "record_name r =
     (let fields = fr_fields (ref_record r) in
      if length fields < 3 then None else Some (fields ! 2))"

record conventional_department =
  cd_source :: fav_reference
  cd_channels :: "fav_reference list"

record conventional_system =
  cs_source :: fav_reference
  cs_quick_key_status :: "fav_reference list"
  cs_departments :: "conventional_department list"
  cs_supplemental :: "fav_reference list"

record trunk_department =
  td_source :: fav_reference
  td_channels :: "fav_reference list"

record trunk_site =
  ts_source :: fav_reference
  ts_frequencies :: "fav_reference list"
  ts_band_plans :: "fav_reference list"

record trunk_system =
  tk_source :: fav_reference
  tk_quick_key_status :: "fav_reference list"
  tk_sites :: "trunk_site list"
  tk_departments :: "trunk_department list"
  tk_supplemental :: "fav_reference list"

datatype fav_system = Conventional conventional_system | Trunk trunk_system

record fav_hierarchy =
  fh_source :: fav_file
  fh_metadata :: "fav_reference list"
  fh_systems :: "fav_system list"
  fh_unclassified :: "fav_reference list"

datatype hierarchy_error = HierarchyError nat string

section \<open>The projection loop\<close>

record hierarchy_state =
  hs_metadata :: "fav_reference list"
  hs_unclassified :: "fav_reference list"
  hs_systems :: "fav_system list"
  hs_conventional_department :: bool
  hs_trunk_department :: bool
  hs_site :: bool

definition hierarchy_init :: hierarchy_state where
  "hierarchy_init = \<lparr>hs_metadata = [], hs_unclassified = [], hs_systems = [],
     hs_conventional_department = False, hs_trunk_department = False, hs_site = False\<rparr>"

definition map_last :: "('a \<Rightarrow> 'a) \<Rightarrow> 'a list \<Rightarrow> 'a list" where
  "map_last f xs = (if xs = [] then [] else butlast xs @ [f (last xs)])"

definition in_conventional :: "hierarchy_state \<Rightarrow> bool" where
  "in_conventional st \<longleftrightarrow>
     (if hs_systems st = [] then False
      else case last (hs_systems st) of Conventional _ \<Rightarrow> True | Trunk _ \<Rightarrow> False)"

definition in_trunk :: "hierarchy_state \<Rightarrow> bool" where
  "in_trunk st \<longleftrightarrow>
     (if hs_systems st = [] then False
      else case last (hs_systems st) of Conventional _ \<Rightarrow> False | Trunk _ \<Rightarrow> True)"

fun on_conventional :: "(conventional_system \<Rightarrow> conventional_system) \<Rightarrow> fav_system \<Rightarrow> fav_system" where
  "on_conventional f (Conventional s) = Conventional (f s)"
| "on_conventional f (Trunk s) = Trunk s"

fun on_trunk :: "(trunk_system \<Rightarrow> trunk_system) \<Rightarrow> fav_system \<Rightarrow> fav_system" where
  "on_trunk f (Conventional s) = Conventional s"
| "on_trunk f (Trunk s) = Trunk (f s)"

fun add_quick_key_status :: "fav_reference \<Rightarrow> fav_system \<Rightarrow> fav_system" where
  "add_quick_key_status r (Conventional s) =
     Conventional (s\<lparr>cs_quick_key_status := cs_quick_key_status s @ [r]\<rparr>)"
| "add_quick_key_status r (Trunk s) =
     Trunk (s\<lparr>tk_quick_key_status := tk_quick_key_status s @ [r]\<rparr>)"

fun add_supplemental :: "fav_reference \<Rightarrow> fav_system \<Rightarrow> fav_system" where
  "add_supplemental r (Conventional s) =
     Conventional (s\<lparr>cs_supplemental := cs_supplemental s @ [r]\<rparr>)"
| "add_supplemental r (Trunk s) = Trunk (s\<lparr>tk_supplemental := tk_supplemental s @ [r]\<rparr>)"

definition hierarchy_raise :: "fav_reference \<Rightarrow> hierarchy_error + 'a" where
  "hierarchy_raise r = Inl (HierarchyError (ref_index r) (ref_command r))"

definition system_supplemental_commands :: "string set" where
  "system_supplemental_commands = {''AvoidTgids'', ''FleetMap'', ''UnitID'', ''UnitIds''}"

definition step_conventional ::
  "fav_reference \<Rightarrow> hierarchy_state \<Rightarrow> (hierarchy_error + hierarchy_state) option" where
  "step_conventional r st =
     (if ref_command r = ''C-Group'' then Some
        (if \<not> in_conventional st then hierarchy_raise r
         else Inr (st\<lparr>hs_systems := map_last (on_conventional (\<lambda>s.
                    s\<lparr>cs_departments := cs_departments s @ [\<lparr>cd_source = r, cd_channels = []\<rparr>]\<rparr>))
                    (hs_systems st),
                  hs_conventional_department := True, hs_trunk_department := False,
                  hs_site := False\<rparr>))
      else if ref_command r = ''C-Freq'' then Some
        (if \<not> in_conventional st \<or> \<not> hs_conventional_department st then hierarchy_raise r
         else Inr (st\<lparr>hs_systems := map_last (on_conventional (\<lambda>s.
                    s\<lparr>cs_departments := map_last (\<lambda>d. d\<lparr>cd_channels := cd_channels d @ [r]\<rparr>)
                       (cs_departments s)\<rparr>)) (hs_systems st)\<rparr>))
      else None)"

definition step_trunk ::
  "fav_reference \<Rightarrow> hierarchy_state \<Rightarrow> (hierarchy_error + hierarchy_state) option" where
  "step_trunk r st =
     (if ref_command r = ''Site'' then Some
        (if \<not> in_trunk st then hierarchy_raise r
         else Inr (st\<lparr>hs_systems := map_last (on_trunk (\<lambda>s. s\<lparr>tk_sites := tk_sites s @
                    [\<lparr>ts_source = r, ts_frequencies = [], ts_band_plans = []\<rparr>]\<rparr>)) (hs_systems st),
                  hs_site := True, hs_trunk_department := False,
                  hs_conventional_department := False\<rparr>))
      else if ref_command r = ''T-Freq'' then Some
        (if \<not> in_trunk st \<or> \<not> hs_site st then hierarchy_raise r
         else Inr (st\<lparr>hs_systems := map_last (on_trunk (\<lambda>s.
                    s\<lparr>tk_sites := map_last (\<lambda>d. d\<lparr>ts_frequencies := ts_frequencies d @ [r]\<rparr>)
                       (tk_sites s)\<rparr>)) (hs_systems st)\<rparr>))
      else if ref_command r \<in> {''BandPlan_Mot'', ''BandPlan_P25''} then Some
        (if \<not> in_trunk st \<or> \<not> hs_site st then hierarchy_raise r
         else Inr (st\<lparr>hs_systems := map_last (on_trunk (\<lambda>s.
                    s\<lparr>tk_sites := map_last (\<lambda>d. d\<lparr>ts_band_plans := ts_band_plans d @ [r]\<rparr>)
                       (tk_sites s)\<rparr>)) (hs_systems st)\<rparr>))
      else if ref_command r = ''T-Group'' then Some
        (if \<not> in_trunk st then hierarchy_raise r
         else Inr (st\<lparr>hs_systems := map_last (on_trunk (\<lambda>s. s\<lparr>tk_departments := tk_departments s @
                    [\<lparr>td_source = r, td_channels = []\<rparr>]\<rparr>)) (hs_systems st),
                  hs_trunk_department := True, hs_site := False,
                  hs_conventional_department := False\<rparr>))
      else if ref_command r = ''TGID'' then Some
        (if \<not> in_trunk st \<or> \<not> hs_trunk_department st then hierarchy_raise r
         else Inr (st\<lparr>hs_systems := map_last (on_trunk (\<lambda>s.
                    s\<lparr>tk_departments := map_last (\<lambda>d. d\<lparr>td_channels := td_channels d @ [r]\<rparr>)
                       (tk_departments s)\<rparr>)) (hs_systems st)\<rparr>))
      else None)"

definition new_system :: "fav_system \<Rightarrow> hierarchy_state \<Rightarrow> hierarchy_state" where
  "new_system s st = st\<lparr>hs_systems := hs_systems st @ [s], hs_conventional_department := False,
     hs_trunk_department := False, hs_site := False\<rparr>"

definition hierarchy_step ::
  "fav_reference \<Rightarrow> hierarchy_state \<Rightarrow> hierarchy_error + hierarchy_state" where
  "hierarchy_step r st =
     (if ref_command r \<in> {''TargetModel'', ''FormatVersion''} then
        Inr (st\<lparr>hs_metadata := hs_metadata st @ [r]\<rparr>)
      else if ref_command r = ''Conventional'' then
        Inr (new_system (Conventional \<lparr>cs_source = r, cs_quick_key_status = [],
               cs_departments = [], cs_supplemental = []\<rparr>) st)
      else if ref_command r = ''Trunk'' then
        Inr (new_system (Trunk \<lparr>tk_source = r, tk_quick_key_status = [], tk_sites = [],
               tk_departments = [], tk_supplemental = []\<rparr>) st)
      else if ref_command r = ''DQKs_Status'' then
        Inr (if hs_systems st = [] then st\<lparr>hs_unclassified := hs_unclassified st @ [r]\<rparr>
             else st\<lparr>hs_systems := map_last (add_quick_key_status r) (hs_systems st)\<rparr>)
      else case step_conventional r st of
        Some result \<Rightarrow> result
      | None \<Rightarrow>
          case step_trunk r st of
            Some result \<Rightarrow> result
          | None \<Rightarrow>
              if ref_command r \<in> system_supplemental_commands then
                Inr (if hs_systems st = [] then st\<lparr>hs_unclassified := hs_unclassified st @ [r]\<rparr>
                     else st\<lparr>hs_systems := map_last (add_supplemental r) (hs_systems st)\<rparr>)
              else Inr (st\<lparr>hs_unclassified := hs_unclassified st @ [r]\<rparr>))"

definition references :: "fav_file \<Rightarrow> fav_reference list" where
  "references f = map (\<lambda>(i, r). \<lparr>ref_index = i, ref_record = r\<rparr>) (List.enumerate 0 f)"

definition project_favorites_hierarchy :: "fav_file \<Rightarrow> hierarchy_error + fav_hierarchy" where
  "project_favorites_hierarchy f =
     bind_res (fold_res hierarchy_step (references f) hierarchy_init) (\<lambda>st.
       Inr \<lparr>fh_source = f, fh_metadata = hs_metadata st, fh_systems = hs_systems st,
            fh_unclassified = hs_unclassified st\<rparr>)"

section \<open>Views of the projection\<close>

text \<open>
  Each view lists, in order, some of the records below the systems. A view of departments lists
  each department's record followed by its channels: as a department's record is a \<open>C-Group\<close> and
  its channels are \<open>C-Freq\<close> records, the list determines which channel belongs to which department.
\<close>

fun quick_key_view :: "fav_system \<Rightarrow> fav_reference list" where
  "quick_key_view (Conventional s) = cs_source s # cs_quick_key_status s"
| "quick_key_view (Trunk s) = tk_source s # tk_quick_key_status s"

fun supplemental_view :: "fav_system \<Rightarrow> fav_reference list" where
  "supplemental_view (Conventional s) = cs_source s # cs_supplemental s"
| "supplemental_view (Trunk s) = tk_source s # tk_supplemental s"

fun department_view :: "fav_system \<Rightarrow> fav_reference list" where
  "department_view (Conventional s) = cs_source s # map cd_source (cs_departments s)"
| "department_view (Trunk s) = tk_source s # map td_source (tk_departments s)"

fun site_view :: "fav_system \<Rightarrow> fav_reference list" where
  "site_view (Conventional s) = [cs_source s]"
| "site_view (Trunk s) = tk_source s # map ts_source (tk_sites s)"

fun conventional_view :: "fav_system \<Rightarrow> fav_reference list" where
  "conventional_view (Conventional s) = concat (map (\<lambda>d. cd_source d # cd_channels d) (cs_departments s))"
| "conventional_view (Trunk s) = []"

fun talkgroup_view :: "fav_system \<Rightarrow> fav_reference list" where
  "talkgroup_view (Conventional s) = []"
| "talkgroup_view (Trunk s) = concat (map (\<lambda>d. td_source d # td_channels d) (tk_departments s))"

fun frequency_view :: "fav_system \<Rightarrow> fav_reference list" where
  "frequency_view (Conventional s) = []"
| "frequency_view (Trunk s) = concat (map (\<lambda>d. ts_source d # ts_frequencies d) (tk_sites s))"

fun band_plan_view :: "fav_system \<Rightarrow> fav_reference list" where
  "band_plan_view (Conventional s) = []"
| "band_plan_view (Trunk s) = concat (map (\<lambda>d. ts_source d # ts_band_plans d) (tk_sites s))"

definition view :: "(fav_system \<Rightarrow> fav_reference list) \<Rightarrow> fav_system list \<Rightarrow> fav_reference list" where
  "view v systems = concat (map v systems)"

text \<open>The part of a file from its first system on, and the records of given commands in it.\<close>

abbreviation system_commands :: "string set" where
  "system_commands \<equiv> {''Conventional'', ''Trunk''}"

definition after_first_system :: "fav_reference list \<Rightarrow> fav_reference list" where
  "after_first_system rs = dropWhile (\<lambda>r. ref_command r \<notin> system_commands) rs"

definition before_first_system :: "fav_reference list \<Rightarrow> fav_reference list" where
  "before_first_system rs = takeWhile (\<lambda>r. ref_command r \<notin> system_commands) rs"

definition commands_in :: "string set \<Rightarrow> fav_reference list \<Rightarrow> fav_reference list" where
  "commands_in C rs = filter (\<lambda>r. ref_command r \<in> C) rs"

text \<open>The commands of metadata, and all commands that have a place once there is a system.\<close>

definition metadata_commands :: "string set" where
  "metadata_commands = {''TargetModel'', ''FormatVersion''}"

definition placed_commands :: "string set" where
  "placed_commands = metadata_commands \<union> system_commands \<union> system_supplemental_commands \<union>
     {''DQKs_Status'', ''C-Group'', ''C-Freq'', ''Site'', ''T-Freq'', ''BandPlan_Mot'', ''BandPlan_P25'',
      ''T-Group'', ''TGID''}"

text \<open>The invariant that flags refer to an element of the last system.\<close>

definition flags_ok :: "hierarchy_state \<Rightarrow> bool" where
  "flags_ok st \<longleftrightarrow>
     (hs_systems st \<noteq> [] \<longrightarrow>
       (case last (hs_systems st) of
          Conventional s \<Rightarrow> (hs_conventional_department st \<longrightarrow> cs_departments s \<noteq> [])
        | Trunk s \<Rightarrow> (hs_trunk_department st \<longrightarrow> tk_departments s \<noteq> []) \<and>
            (hs_site st \<longrightarrow> tk_sites s \<noteq> [])))"

lemma map_last_snoc [simp]: "map_last f (xs @ [x]) = xs @ [f x]"
  by (simp add: map_last_def)

lemma map_last_eq_Nil [simp]: "map_last f xs = [] \<longleftrightarrow> xs = []"
  by (simp add: map_last_def)

lemma concat_map_last:
  "xs \<noteq> [] \<Longrightarrow> (\<And>x. v (f x) = v x @ t) \<Longrightarrow> concat (map v (map_last f xs)) = concat (map v xs) @ t"
  by (cases xs rule: rev_cases) auto

lemma map_map_last: "(\<And>x. v (f x) = v x) \<Longrightarrow> map v (map_last f xs) = map v xs"
  by (cases xs rule: rev_cases) (auto simp: map_last_def)

text \<open>The successful steps, one rule for each place a record can go.\<close>

inductive hierarchy_adds :: "hierarchy_state \<Rightarrow> fav_reference \<Rightarrow> hierarchy_state \<Rightarrow> bool" where
  metadata: "ref_command r \<in> {''TargetModel'', ''FormatVersion''} \<Longrightarrow>
    hierarchy_adds st r (st\<lparr>hs_metadata := hs_metadata st @ [r]\<rparr>)"
| conventional: "ref_command r = ''Conventional'' \<Longrightarrow>
    hierarchy_adds st r (new_system (Conventional \<lparr>cs_source = r, cs_quick_key_status = [],
               cs_departments = [], cs_supplemental = []\<rparr>) st)"
| trunk: "ref_command r = ''Trunk'' \<Longrightarrow>
    hierarchy_adds st r (new_system (Trunk \<lparr>tk_source = r, tk_quick_key_status = [], tk_sites = [],
               tk_departments = [], tk_supplemental = []\<rparr>) st)"
| quick_keys: "ref_command r = ''DQKs_Status'' \<Longrightarrow> hs_systems st = ss @ [s] \<Longrightarrow>
    hierarchy_adds st r (st\<lparr>hs_systems := ss @ [add_quick_key_status r s]\<rparr>)"
| supplemental: "ref_command r \<in> system_supplemental_commands \<Longrightarrow> hs_systems st = ss @ [s] \<Longrightarrow>
    hierarchy_adds st r (st\<lparr>hs_systems := ss @ [add_supplemental r s]\<rparr>)"
| no_system: "ref_command r \<in> insert ''DQKs_Status'' system_supplemental_commands \<Longrightarrow>
    hs_systems st = [] \<Longrightarrow> hierarchy_adds st r (st\<lparr>hs_unclassified := hs_unclassified st @ [r]\<rparr>)"
| group: "ref_command r = ''C-Group'' \<Longrightarrow> hs_systems st = ss @ [Conventional s] \<Longrightarrow>
    hierarchy_adds st r (st\<lparr>hs_systems := ss @ [Conventional (s\<lparr>cs_departments :=
        cs_departments s @ [\<lparr>cd_source = r, cd_channels = []\<rparr>]\<rparr>)],
      hs_conventional_department := True, hs_trunk_department := False, hs_site := False\<rparr>)"
| frequency: "ref_command r = ''C-Freq'' \<Longrightarrow> hs_systems st = ss @ [Conventional s] \<Longrightarrow>
    hs_conventional_department st \<Longrightarrow>
    hierarchy_adds st r (st\<lparr>hs_systems := ss @ [Conventional (s\<lparr>cs_departments :=
        map_last (\<lambda>d. d\<lparr>cd_channels := cd_channels d @ [r]\<rparr>) (cs_departments s)\<rparr>)]\<rparr>)"
| site: "ref_command r = ''Site'' \<Longrightarrow> hs_systems st = ss @ [Trunk s] \<Longrightarrow>
    hierarchy_adds st r (st\<lparr>hs_systems := ss @ [Trunk (s\<lparr>tk_sites := tk_sites s @
        [\<lparr>ts_source = r, ts_frequencies = [], ts_band_plans = []\<rparr>]\<rparr>)],
      hs_site := True, hs_trunk_department := False, hs_conventional_department := False\<rparr>)"
| site_frequency: "ref_command r = ''T-Freq'' \<Longrightarrow> hs_systems st = ss @ [Trunk s] \<Longrightarrow> hs_site st \<Longrightarrow>
    hierarchy_adds st r (st\<lparr>hs_systems := ss @ [Trunk (s\<lparr>tk_sites :=
        map_last (\<lambda>d. d\<lparr>ts_frequencies := ts_frequencies d @ [r]\<rparr>) (tk_sites s)\<rparr>)]\<rparr>)"
| band_plan: "ref_command r \<in> {''BandPlan_Mot'', ''BandPlan_P25''} \<Longrightarrow> hs_systems st = ss @ [Trunk s] \<Longrightarrow>
    hs_site st \<Longrightarrow>
    hierarchy_adds st r (st\<lparr>hs_systems := ss @ [Trunk (s\<lparr>tk_sites :=
        map_last (\<lambda>d. d\<lparr>ts_band_plans := ts_band_plans d @ [r]\<rparr>) (tk_sites s)\<rparr>)]\<rparr>)"
| talkgroups: "ref_command r = ''T-Group'' \<Longrightarrow> hs_systems st = ss @ [Trunk s] \<Longrightarrow>
    hierarchy_adds st r (st\<lparr>hs_systems := ss @ [Trunk (s\<lparr>tk_departments := tk_departments s @
        [\<lparr>td_source = r, td_channels = []\<rparr>]\<rparr>)],
      hs_trunk_department := True, hs_site := False, hs_conventional_department := False\<rparr>)"
| talkgroup: "ref_command r = ''TGID'' \<Longrightarrow> hs_systems st = ss @ [Trunk s] \<Longrightarrow>
    hs_trunk_department st \<Longrightarrow>
    hierarchy_adds st r (st\<lparr>hs_systems := ss @ [Trunk (s\<lparr>tk_departments :=
        map_last (\<lambda>d. d\<lparr>td_channels := td_channels d @ [r]\<rparr>) (tk_departments s)\<rparr>)]\<rparr>)"
| unknown: "ref_command r \<notin> {''TargetModel'', ''FormatVersion'', ''Conventional'', ''Trunk'',
      ''DQKs_Status'', ''C-Group'', ''C-Freq'', ''Site'', ''T-Freq'', ''BandPlan_Mot'',
      ''BandPlan_P25'', ''T-Group'', ''TGID''} \<union> system_supplemental_commands \<Longrightarrow>
    hierarchy_adds st r (st\<lparr>hs_unclassified := hs_unclassified st @ [r]\<rparr>)"

inductive_cases hierarchy_addsE: "hierarchy_adds st r st'"

lemma in_conventionalE:
  assumes "in_conventional st" obtains ss s where "hs_systems st = ss @ [Conventional s]"
  using assms by (cases "hs_systems st" rule: rev_cases) (auto simp: in_conventional_def split: fav_system.splits)

lemma in_trunkE:
  assumes "in_trunk st" obtains ss s where "hs_systems st = ss @ [Trunk s]"
  using assms by (cases "hs_systems st" rule: rev_cases) (auto simp: in_trunk_def split: fav_system.splits)

lemma step_conventional_adds:
  assumes "step_conventional r st = Some (Inr st')" shows "hierarchy_adds st r st'"
proof -
  consider "ref_command r = ''C-Group''" "in_conventional st"
    | "ref_command r = ''C-Freq''" "in_conventional st" "hs_conventional_department st"
    using assms by (auto simp: step_conventional_def hierarchy_raise_def split: if_splits)
  then show ?thesis
  proof cases
    case 1
    from 1(2) obtain ss s where "hs_systems st = ss @ [Conventional s]" by (rule in_conventionalE)
    then show ?thesis using assms 1 hierarchy_adds.group [of r st ss s] by (simp add: step_conventional_def)
  next
    case 2
    from 2(2) obtain ss s where "hs_systems st = ss @ [Conventional s]" by (rule in_conventionalE)
    then show ?thesis using assms 2 hierarchy_adds.frequency [of r st ss s]
      by (simp add: step_conventional_def)
  qed
qed

lemma step_trunk_adds:
  assumes "step_trunk r st = Some (Inr st')" shows "hierarchy_adds st r st'"
proof -
  consider "ref_command r = ''Site''" "in_trunk st"
    | "ref_command r = ''T-Freq''" "in_trunk st" "hs_site st"
    | "ref_command r \<in> {''BandPlan_Mot'', ''BandPlan_P25''}" "in_trunk st" "hs_site st"
    | "ref_command r = ''T-Group''" "in_trunk st"
    | "ref_command r = ''TGID''" "in_trunk st" "hs_trunk_department st"
    using assms by (auto simp: step_trunk_def hierarchy_raise_def split: if_splits)
  then show ?thesis
  proof cases
    case 1
    from 1(2) obtain ss s where "hs_systems st = ss @ [Trunk s]" by (rule in_trunkE)
    then show ?thesis using assms 1 hierarchy_adds.site [of r st ss s] by (simp add: step_trunk_def)
  next
    case 2
    from 2(2) obtain ss s where "hs_systems st = ss @ [Trunk s]" by (rule in_trunkE)
    then show ?thesis using assms 2 hierarchy_adds.site_frequency [of r st ss s]
      by (simp add: step_trunk_def)
  next
    case 3
    from 3(2) obtain ss s where "hs_systems st = ss @ [Trunk s]" by (rule in_trunkE)
    then show ?thesis using assms 3 hierarchy_adds.band_plan [of r st ss s]
      by (auto simp: step_trunk_def)
  next
    case 4
    from 4(2) obtain ss s where "hs_systems st = ss @ [Trunk s]" by (rule in_trunkE)
    then show ?thesis using assms 4 hierarchy_adds.talkgroups [of r st ss s] by (simp add: step_trunk_def)
  next
    case 5
    from 5(2) obtain ss s where "hs_systems st = ss @ [Trunk s]" by (rule in_trunkE)
    then show ?thesis using assms 5 hierarchy_adds.talkgroup [of r st ss s] by (simp add: step_trunk_def)
  qed
qed

lemma step_None_commands:
  "step_conventional r st = None \<Longrightarrow> ref_command r \<notin> {''C-Group'', ''C-Freq''}"
  "step_trunk r st = None \<Longrightarrow>
     ref_command r \<notin> {''Site'', ''T-Freq'', ''BandPlan_Mot'', ''BandPlan_P25'', ''T-Group'', ''TGID''}"
  by (auto simp: step_conventional_def step_trunk_def split: if_splits)

lemma hierarchy_step_adds:
  assumes "hierarchy_step r st = Inr st'" shows "hierarchy_adds st r st'"
proof (cases "ref_command r \<in> {''TargetModel'', ''FormatVersion'', ''Conventional'', ''Trunk'', ''DQKs_Status''}")
  case True
  then show ?thesis
    using assms hierarchy_adds.metadata [of r st] hierarchy_adds.conventional [of r st]
      hierarchy_adds.trunk [of r st] hierarchy_adds.no_system [of r st]
      hierarchy_adds.quick_keys [of r st]
    by (cases "hs_systems st" rule: rev_cases)
      (auto simp: hierarchy_step_def)
next
  case basic: False
  show ?thesis
  proof (cases "step_conventional r st")
    case (Some result)
    then have "step_conventional r st = Some (Inr st')" using assms basic by (simp add: hierarchy_step_def)
    then show ?thesis by (rule step_conventional_adds)
  next
    case conv: None
    show ?thesis
    proof (cases "step_trunk r st")
      case (Some result)
      then have "step_trunk r st = Some (Inr st')" using assms basic conv by (simp add: hierarchy_step_def)
      then show ?thesis by (rule step_trunk_adds)
    next
      case trunk: None
      have none: "ref_command r \<notin> {''TargetModel'', ''FormatVersion'', ''Conventional'', ''Trunk'',
          ''DQKs_Status'', ''C-Group'', ''C-Freq'', ''Site'', ''T-Freq'', ''BandPlan_Mot'',
          ''BandPlan_P25'', ''T-Group'', ''TGID''}"
        using basic step_None_commands(1) [OF conv] step_None_commands(2) [OF trunk] by blast
      show ?thesis
      proof (cases "ref_command r \<in> system_supplemental_commands")
        case True
        then show ?thesis
          using assms basic conv trunk hierarchy_adds.no_system [of r st]
            hierarchy_adds.supplemental [of r st]
          by (cases "hs_systems st" rule: rev_cases) (auto simp: hierarchy_step_def)
      next
        case False
        then show ?thesis
          using assms basic conv trunk none hierarchy_adds.unknown [of r st]
          by (simp add: hierarchy_step_def)
      qed
    qed
  qed
qed

lemma hierarchy_adds_flags: "hierarchy_adds st r st' \<Longrightarrow> flags_ok st \<Longrightarrow> flags_ok st'"
  by (erule hierarchy_addsE)
    (auto simp: flags_ok_def new_system_def split: fav_system.splits elim: add_quick_key_status.elims
      add_supplemental.elims)

text \<open>How one step extends a view: by the record if its command belongs to the view.\<close>

definition view_step ::
  "(fav_system \<Rightarrow> fav_reference list) \<Rightarrow> string set \<Rightarrow> hierarchy_state \<Rightarrow> fav_reference \<Rightarrow> hierarchy_state \<Rightarrow> bool" where
  "view_step v C st r st' \<longleftrightarrow>
     (hs_systems st' = [] \<longleftrightarrow> hs_systems st = [] \<and> ref_command r \<notin> system_commands) \<and>
     view v (hs_systems st') =
       view v (hs_systems st) @ (if hs_systems st' \<noteq> [] \<and> ref_command r \<in> C then [r] else [])"

lemma views_of_additions [simp]:
  "quick_key_view (add_quick_key_status r s) = quick_key_view s @ [r]"
  "supplemental_view (add_supplemental r s) = supplemental_view s @ [r]"
  "supplemental_view (add_quick_key_status r s) = supplemental_view s"
  "quick_key_view (add_supplemental r s) = quick_key_view s"
  "department_view (add_quick_key_status r s) = department_view s"
  "department_view (add_supplemental r s) = department_view s"
  "site_view (add_quick_key_status r s) = site_view s"
  "site_view (add_supplemental r s) = site_view s"
  "conventional_view (add_quick_key_status r s) = conventional_view s"
  "conventional_view (add_supplemental r s) = conventional_view s"
  "talkgroup_view (add_quick_key_status r s) = talkgroup_view s"
  "talkgroup_view (add_supplemental r s) = talkgroup_view s"
  "frequency_view (add_quick_key_status r s) = frequency_view s"
  "frequency_view (add_supplemental r s) = frequency_view s"
  "band_plan_view (add_quick_key_status r s) = band_plan_view s"
  "band_plan_view (add_supplemental r s) = band_plan_view s"
  by (cases s; simp)+

lemma quick_key_view_step:
  assumes "hierarchy_adds st r st'" and "flags_ok st"
  shows "view_step quick_key_view {''Conventional'', ''Trunk'', ''DQKs_Status''} st r st'"
  using assms(1) by cases
    (use assms(2) in \<open>auto simp: view_step_def view_def new_system_def system_supplemental_commands_def
      flags_ok_def map_map_last concat_map_last split: fav_system.splits\<close>)

lemma supplemental_view_step:
  assumes "hierarchy_adds st r st'" and "flags_ok st"
  shows "view_step supplemental_view ({''Conventional'', ''Trunk''} \<union> system_supplemental_commands) st r st'"
  using assms(1) by cases
    (use assms(2) in \<open>auto simp: view_step_def view_def new_system_def system_supplemental_commands_def
      flags_ok_def map_map_last concat_map_last split: fav_system.splits\<close>)

lemma department_view_step:
  assumes "hierarchy_adds st r st'" and "flags_ok st"
  shows "view_step department_view {''Conventional'', ''Trunk'', ''C-Group'', ''T-Group''} st r st'"
  using assms(1) by cases
    (use assms(2) in \<open>auto simp: view_step_def view_def new_system_def system_supplemental_commands_def
      flags_ok_def map_map_last concat_map_last split: fav_system.splits\<close>)

lemma site_view_step:
  assumes "hierarchy_adds st r st'" and "flags_ok st"
  shows "view_step site_view {''Conventional'', ''Trunk'', ''Site''} st r st'"
  using assms(1) by cases
    (use assms(2) in \<open>auto simp: view_step_def view_def new_system_def system_supplemental_commands_def
      flags_ok_def map_map_last concat_map_last split: fav_system.splits\<close>)

lemma conventional_view_step:
  assumes "hierarchy_adds st r st'" and "flags_ok st"
  shows "view_step conventional_view {''C-Group'', ''C-Freq''} st r st'"
  using assms(1) by cases
    (use assms(2) in \<open>auto simp: view_step_def view_def new_system_def system_supplemental_commands_def
      flags_ok_def map_map_last concat_map_last split: fav_system.splits\<close>)

lemma talkgroup_view_step:
  assumes "hierarchy_adds st r st'" and "flags_ok st"
  shows "view_step talkgroup_view {''T-Group'', ''TGID''} st r st'"
  using assms(1) by cases
    (use assms(2) in \<open>auto simp: view_step_def view_def new_system_def system_supplemental_commands_def
      flags_ok_def map_map_last concat_map_last split: fav_system.splits\<close>)

lemma frequency_view_step:
  assumes "hierarchy_adds st r st'" and "flags_ok st"
  shows "view_step frequency_view {''Site'', ''T-Freq''} st r st'"
  using assms(1) by cases
    (use assms(2) in \<open>auto simp: view_step_def view_def new_system_def system_supplemental_commands_def
      flags_ok_def map_map_last concat_map_last split: fav_system.splits\<close>)

lemma band_plan_view_step:
  assumes "hierarchy_adds st r st'" and "flags_ok st"
  shows "view_step band_plan_view {''Site'', ''BandPlan_Mot'', ''BandPlan_P25''} st r st'"
  using assms(1) by cases
    (use assms(2) in \<open>auto simp: view_step_def view_def new_system_def system_supplemental_commands_def
      flags_ok_def map_map_last concat_map_last split: fav_system.splits\<close>)

text \<open>The steps of a whole file, and where every record went.\<close>

fun all_refs :: "fav_system \<Rightarrow> fav_reference list" where
  "all_refs (Conventional s) =
     cs_source s # cs_quick_key_status s @ concat (map (\<lambda>d. cd_source d # cd_channels d) (cs_departments s)) @
     cs_supplemental s"
| "all_refs (Trunk s) =
     tk_source s # tk_quick_key_status s @
     concat (map (\<lambda>d. ts_source d # ts_frequencies d @ ts_band_plans d) (tk_sites s)) @
     concat (map (\<lambda>d. td_source d # td_channels d) (tk_departments s)) @ tk_supplemental s"

definition state_refs :: "hierarchy_state \<Rightarrow> fav_reference multiset" where
  "state_refs st = mset (hs_metadata st) + mset (hs_unclassified st) + mset (view all_refs (hs_systems st))"

lemma mset_concat_map_last:
  "xs \<noteq> [] \<Longrightarrow> (\<And>x. mset (v (f x)) = add_mset r (mset (v x))) \<Longrightarrow>
     mset (concat (map v (map_last f xs))) = add_mset r (mset (concat (map v xs)))"
  by (cases xs rule: rev_cases) auto

lemma all_refs_additions [simp]:
  "mset (all_refs (add_quick_key_status r s)) = add_mset r (mset (all_refs s))"
  "mset (all_refs (add_supplemental r s)) = add_mset r (mset (all_refs s))"
  by (cases s; simp)+

lemma state_refs_step:
  assumes "hierarchy_adds st r st'" and "flags_ok st"
  shows "state_refs st' = add_mset r (state_refs st)"
  using assms(1) by cases
    (use assms(2) in \<open>auto simp: state_refs_def view_def new_system_def flags_ok_def
      mset_concat_map_last simp del: mset_concat split: fav_system.splits\<close>)

lemma hierarchy_step_flags: "hierarchy_step r st = Inr st' \<Longrightarrow> flags_ok st \<Longrightarrow> flags_ok st'"
  by (rule hierarchy_adds_flags [OF hierarchy_step_adds])

lemma fold_flags: "fold_res hierarchy_step rs hierarchy_init = Inr st \<Longrightarrow> flags_ok st"
  by (erule fold_res_invariant [where P = flags_ok])
    (auto intro: hierarchy_step_flags, simp add: flags_ok_def hierarchy_init_def)

lemma fold_snoc:
  assumes "fold_res hierarchy_step (rs @ [r]) hierarchy_init = Inr st'"
  obtains st where "fold_res hierarchy_step rs hierarchy_init = Inr st" and "hierarchy_adds st r st'"
    and "flags_ok st"
proof -
  obtain st where st: "fold_res hierarchy_step rs hierarchy_init = Inr st" "hierarchy_step r st = Inr st'"
    using assms by (cases "fold_res hierarchy_step rs hierarchy_init")
      (auto simp: fold_res_append split: sum.splits)
  show ?thesis by (rule that [OF st(1) hierarchy_step_adds [OF st(2)] fold_flags [OF st(1)]])
qed

lemma after_first_system_snoc:
  "after_first_system (rs @ [r]) =
     (if \<exists>x \<in> set rs. ref_command x \<in> system_commands then after_first_system rs @ [r]
      else if ref_command r \<in> system_commands then [r] else [])"
  by (auto simp: after_first_system_def dropWhile_append dropWhile_eq_Nil_conv)

lemma fold_view:
  assumes "fold_res hierarchy_step rs hierarchy_init = Inr st"
    and step: "\<And>st r st'. hierarchy_adds st r st' \<Longrightarrow> flags_ok st \<Longrightarrow> view_step v C st r st'"
  shows "(hs_systems st \<noteq> [] \<longleftrightarrow> (\<exists>x \<in> set rs. ref_command x \<in> system_commands)) \<and>
    view v (hs_systems st) = commands_in C (after_first_system rs)"
  using assms(1)
proof (induction rs arbitrary: st rule: rev_induct)
  case Nil
  then show ?case by (auto simp: hierarchy_init_def view_def commands_in_def after_first_system_def)
next
  case (snoc r rs)
  obtain st1 where 1: "fold_res hierarchy_step rs hierarchy_init = Inr st1" "hierarchy_adds st1 r st"
    "flags_ok st1" using fold_snoc [OF snoc.prems] .
  have v: "view_step v C st1 r st" by (rule step [OF 1(2,3)])
  have empty: "after_first_system rs = []" if "\<not> (\<exists>x \<in> set rs. ref_command x \<in> system_commands)"
    using that by (auto simp: after_first_system_def dropWhile_eq_Nil_conv)
  show ?case
    using v snoc.IH [OF 1(1)] empty
    by (auto simp: view_step_def commands_in_def after_first_system_snoc)
qed

lemma fold_state_refs: "fold_res hierarchy_step rs hierarchy_init = Inr st \<Longrightarrow> state_refs st = mset rs"
proof (induction rs arbitrary: st rule: rev_induct)
  case Nil
  then show ?case by (auto simp: state_refs_def hierarchy_init_def view_def)
next
  case (snoc r rs)
  obtain st1 where 1: "fold_res hierarchy_step rs hierarchy_init = Inr st1" "hierarchy_adds st1 r st"
    "flags_ok st1" using fold_snoc [OF snoc.prems] .
  show ?case using snoc.IH [OF 1(1)] state_refs_step [OF 1(2,3)] by simp
qed

section \<open>Contexts: the abstract machine of the projection\<close>

datatype hierarchy_context =
    NoSystem | ConventionalSystem | ConventionalDepartment | TrunkSystem | TrunkSite | TrunkDepartment

definition context_step :: "hierarchy_context \<Rightarrow> string \<Rightarrow> hierarchy_context option" where
  "context_step c command =
     (if command = ''Conventional'' then Some ConventionalSystem
      else if command = ''Trunk'' then Some TrunkSystem
      else if command = ''C-Group'' then
        (if c \<in> {ConventionalSystem, ConventionalDepartment} then Some ConventionalDepartment else None)
      else if command = ''C-Freq'' then (if c = ConventionalDepartment then Some c else None)
      else if command = ''Site'' then
        (if c \<in> {TrunkSystem, TrunkSite, TrunkDepartment} then Some TrunkSite else None)
      else if command \<in> {''T-Freq'', ''BandPlan_Mot'', ''BandPlan_P25''} then
        (if c = TrunkSite then Some c else None)
      else if command = ''T-Group'' then
        (if c \<in> {TrunkSystem, TrunkSite, TrunkDepartment} then Some TrunkDepartment else None)
      else if command = ''TGID'' then (if c = TrunkDepartment then Some c else None)
      else Some c)"

fun context_run :: "hierarchy_context \<Rightarrow> string list \<Rightarrow> hierarchy_context option" where
  "context_run c [] = Some c"
| "context_run c (x # xs) = (case context_step c x of None \<Rightarrow> None | Some c' \<Rightarrow> context_run c' xs)"

definition context_of :: "hierarchy_state \<Rightarrow> hierarchy_context" where
  "context_of st =
     (if hs_systems st = [] then NoSystem
      else case last (hs_systems st) of
        Conventional _ \<Rightarrow>
          if hs_conventional_department st then ConventionalDepartment else ConventionalSystem
      | Trunk _ \<Rightarrow>
          if hs_site st then TrunkSite
          else if hs_trunk_department st then TrunkDepartment else TrunkSystem)"

definition flags_exclusive :: "hierarchy_state \<Rightarrow> bool" where
  "flags_exclusive st \<longleftrightarrow> \<not> (hs_site st \<and> hs_trunk_department st)"

lemma add_kind [simp]:
  "(case add_quick_key_status r s of Conventional x \<Rightarrow> a | Trunk y \<Rightarrow> b) =
     (case s of Conventional x \<Rightarrow> a | Trunk y \<Rightarrow> b)"
  "(case add_supplemental r s of Conventional x \<Rightarrow> a | Trunk y \<Rightarrow> b) =
     (case s of Conventional x \<Rightarrow> a | Trunk y \<Rightarrow> b)"
  by (cases s; simp)+

lemma context_step_simps [simp]:
  "context_step c ''Conventional'' = Some ConventionalSystem"
  "context_step c ''Trunk'' = Some TrunkSystem"
  "context_step c ''C-Group'' =
     (if c \<in> {ConventionalSystem, ConventionalDepartment} then Some ConventionalDepartment else None)"
  "context_step c ''C-Freq'' = (if c = ConventionalDepartment then Some c else None)"
  "context_step c ''Site'' =
     (if c \<in> {TrunkSystem, TrunkSite, TrunkDepartment} then Some TrunkSite else None)"
  "context_step c ''T-Freq'' = (if c = TrunkSite then Some c else None)"
  "context_step c ''BandPlan_Mot'' = (if c = TrunkSite then Some c else None)"
  "context_step c ''BandPlan_P25'' = (if c = TrunkSite then Some c else None)"
  "context_step c ''T-Group'' =
     (if c \<in> {TrunkSystem, TrunkSite, TrunkDepartment} then Some TrunkDepartment else None)"
  "context_step c ''TGID'' = (if c = TrunkDepartment then Some c else None)"
  by (simp_all add: context_step_def)

lemma context_step_other:
  "x \<notin> {''Conventional'', ''Trunk'', ''C-Group'', ''C-Freq'', ''Site'', ''T-Freq'', ''BandPlan_Mot'',
     ''BandPlan_P25'', ''T-Group'', ''TGID''} \<Longrightarrow> context_step c x = Some c"
  by (simp add: context_step_def)

lemma context_step_ignored:
  "x \<in> {''TargetModel'', ''FormatVersion'', ''DQKs_Status''} \<Longrightarrow> context_step c x = Some c"
  "x \<in> system_supplemental_commands \<Longrightarrow> context_step c x = Some c"
  unfolding system_supplemental_commands_def
  by (elim insertE emptyE; simp add: context_step_def)+

lemma in_context:
  "in_conventional st \<longleftrightarrow> context_of st \<in> {ConventionalSystem, ConventionalDepartment}"
  "in_trunk st \<longleftrightarrow> context_of st \<in> {TrunkSystem, TrunkSite, TrunkDepartment}"
  "context_of st = ConventionalDepartment \<longleftrightarrow> in_conventional st \<and> hs_conventional_department st"
  "context_of st = TrunkSite \<longleftrightarrow> in_trunk st \<and> hs_site st"
  "context_of st = TrunkDepartment \<longleftrightarrow> in_trunk st \<and> \<not> hs_site st \<and> hs_trunk_department st"
  by (auto simp: in_conventional_def in_trunk_def context_of_def split: fav_system.splits)

lemma not_in_context:
  "\<not> in_conventional st \<Longrightarrow> context_of st \<notin> {ConventionalSystem, ConventionalDepartment}"
  "\<not> in_trunk st \<Longrightarrow> context_of st \<notin> {TrunkSystem, TrunkSite, TrunkDepartment}"
  "\<not> in_conventional st \<or> \<not> hs_conventional_department st \<Longrightarrow> context_of st \<noteq> ConventionalDepartment"
  "\<not> in_trunk st \<or> \<not> hs_site st \<Longrightarrow> context_of st \<noteq> TrunkSite"
  "\<not> in_trunk st \<or> \<not> hs_trunk_department st \<Longrightarrow> context_of st \<noteq> TrunkDepartment"
  using in_context [of st] by blast+

lemma hierarchy_adds_context:
  assumes "hierarchy_adds st r st'" and "flags_exclusive st"
  shows "context_step (context_of st) (ref_command r) = Some (context_of st') \<and> flags_exclusive st'"
  using assms(1)
proof cases
  case unknown
  have "context_step (context_of st) (ref_command r) = Some (context_of st)"
    using unknown(2) by (intro context_step_other) blast
  then show ?thesis using unknown(1) assms(2) by (simp add: context_of_def flags_exclusive_def)
qed (use assms(2) in \<open>auto simp: context_step_ignored context_of_def new_system_def flags_exclusive_def\<close>)

lemma hierarchy_step_Inl:
  assumes "hierarchy_step r st = Inl e" and "flags_exclusive st"
  shows "context_step (context_of st) (ref_command r) = None \<and> e = HierarchyError (ref_index r) (ref_command r)"
proof -
  consider "step_conventional r st = Some (Inl e)" | "step_trunk r st = Some (Inl e)"
    using assms(1) by (auto simp: hierarchy_step_def split: if_splits option.splits)
  then show ?thesis
  proof cases
    case 1
    then consider "ref_command r = ''C-Group''" "\<not> in_conventional st"
      | "ref_command r = ''C-Freq''" "\<not> in_conventional st \<or> \<not> hs_conventional_department st"
      by (auto simp: step_conventional_def split: if_splits)
    then show ?thesis
      using 1 not_in_context [of st]
      by cases (simp_all add: step_conventional_def hierarchy_raise_def)
  next
    case 2
    then consider "ref_command r = ''Site''" "\<not> in_trunk st"
      | "ref_command r = ''T-Freq''" "\<not> in_trunk st \<or> \<not> hs_site st"
      | "ref_command r = ''BandPlan_Mot''" "\<not> in_trunk st \<or> \<not> hs_site st"
      | "ref_command r = ''BandPlan_P25''" "\<not> in_trunk st \<or> \<not> hs_site st"
      | "ref_command r = ''T-Group''" "\<not> in_trunk st"
      | "ref_command r = ''TGID''" "\<not> in_trunk st \<or> \<not> hs_trunk_department st"
      by (auto simp: step_trunk_def split: if_splits)
    then show ?thesis
      using 2 not_in_context [of st]
      by cases (simp_all add: step_trunk_def hierarchy_raise_def)
  qed
qed

lemma fold_context:
  assumes "flags_exclusive st"
  shows "case fold_res hierarchy_step rs st of
      Inr st' \<Rightarrow> context_run (context_of st) (map ref_command rs) = Some (context_of st')
    | Inl (HierarchyError i c) \<Rightarrow>
        (\<exists>us r vs x. rs = us @ r # vs \<and> i = ref_index r \<and> c = ref_command r \<and>
           context_run (context_of st) (map ref_command us) = Some x \<and> context_step x c = None)"
  using assms
proof (induction rs arbitrary: st)
  case Nil
  then show ?case by simp
next
  case (Cons r rs)
  show ?case
  proof (cases "hierarchy_step r st")
    case (Inl e)
    from hierarchy_step_Inl [OF Inl Cons.prems] Inl show ?thesis
      by (auto intro!: exI [of _ "[]"])
  next
    case (Inr st1)
    note 1 = hierarchy_adds_context [OF hierarchy_step_adds [OF Inr] Cons.prems]
    show ?thesis
    proof (cases "fold_res hierarchy_step rs st1")
      case (Inr st2)
      then show ?thesis using \<open>hierarchy_step r st = Inr st1\<close> 1 Cons.IH [of st1] by simp
    next
      case (Inl e)
      obtain i c where e: "e = HierarchyError i c" by (cases e)
      then obtain us r' vs x where "rs = us @ r' # vs" "i = ref_index r'" "c = ref_command r'"
        "context_run (context_of st1) (map ref_command us) = Some x" "context_step x c = None"
        using Cons.IH [of st1] 1 Inl by auto
      then show ?thesis
        using \<open>hierarchy_step r st = Inr st1\<close> 1 Inl e
        by (auto intro!: exI [of _ "r # us"])
    qed
  qed
qed

section \<open>Every record in its own place\<close>

fun kinds_ok :: "fav_system \<Rightarrow> bool" where
  "kinds_ok (Conventional s) \<longleftrightarrow>
     ref_command (cs_source s) = ''Conventional'' \<and>
     (\<forall>r \<in> set (cs_quick_key_status s). ref_command r = ''DQKs_Status'') \<and>
     (\<forall>r \<in> set (cs_supplemental s). ref_command r \<in> system_supplemental_commands) \<and>
     (\<forall>d \<in> set (cs_departments s). ref_command (cd_source d) = ''C-Group'' \<and>
        (\<forall>c \<in> set (cd_channels d). ref_command c = ''C-Freq''))"
| "kinds_ok (Trunk s) \<longleftrightarrow>
     ref_command (tk_source s) = ''Trunk'' \<and>
     (\<forall>r \<in> set (tk_quick_key_status s). ref_command r = ''DQKs_Status'') \<and>
     (\<forall>r \<in> set (tk_supplemental s). ref_command r \<in> system_supplemental_commands) \<and>
     (\<forall>d \<in> set (tk_departments s). ref_command (td_source d) = ''T-Group'' \<and>
        (\<forall>c \<in> set (td_channels d). ref_command c = ''TGID'')) \<and>
     (\<forall>d \<in> set (tk_sites s). ref_command (ts_source d) = ''Site'' \<and>
        (\<forall>c \<in> set (ts_frequencies d). ref_command c = ''T-Freq'') \<and>
        (\<forall>c \<in> set (ts_band_plans d). ref_command c \<in> {''BandPlan_Mot'', ''BandPlan_P25''}))"

lemma ball_map_last:
  "(\<forall>x \<in> set (map_last f xs). P x) \<longleftrightarrow> xs = [] \<or> (\<forall>x \<in> set (butlast xs). P x) \<and> P (f (last xs))"
  by (auto simp: map_last_def)

lemma kinds_ok_additions [simp]:
  "kinds_ok (add_quick_key_status r s) \<longleftrightarrow> kinds_ok s \<and> ref_command r = ''DQKs_Status''"
  "kinds_ok (add_supplemental r s) \<longleftrightarrow> kinds_ok s \<and> ref_command r \<in> system_supplemental_commands"
  by (cases s; auto)+

lemma hierarchy_adds_kinds:
  assumes "hierarchy_adds st r st'" and "list_all kinds_ok (hs_systems st)"
  shows "list_all kinds_ok (hs_systems st')"
  using assms(1) by cases
    (use assms(2) in \<open>auto simp: new_system_def ball_map_last dest: in_set_butlastD\<close>)

lemma fold_kinds:
  "fold_res hierarchy_step rs hierarchy_init = Inr st \<Longrightarrow> list_all kinds_ok (hs_systems st)"
  by (erule fold_res_invariant [where P = "\<lambda>st. list_all kinds_ok (hs_systems st)"])
    (auto intro: hierarchy_adds_kinds hierarchy_step_adds, auto simp: hierarchy_init_def)

text \<open>Metadata and unclassified records are kept in file order.\<close>

lemma hierarchy_adds_outside:
  assumes "hierarchy_adds st r st'"
  shows "hs_metadata st' = hs_metadata st @ commands_in metadata_commands [r]"
    and "hs_unclassified st' = hs_unclassified st @
      (if ref_command r \<notin> (if hs_systems st = [] then metadata_commands \<union> system_commands
         else placed_commands) then [r] else [])"
  using assms by (cases; auto simp: new_system_def commands_in_def metadata_commands_def
    placed_commands_def system_supplemental_commands_def)+

lemma before_first_system_snoc:
  "before_first_system (rs @ [r]) =
     (if \<exists>x \<in> set rs. ref_command x \<in> system_commands then before_first_system rs
      else if ref_command r \<in> system_commands then rs else rs @ [r])"
  by (auto simp: before_first_system_def takeWhile_append)

lemma fold_outside:
  assumes "fold_res hierarchy_step rs hierarchy_init = Inr st"
  shows "hs_metadata st = commands_in metadata_commands rs \<and>
    hs_unclassified st = filter (\<lambda>r. ref_command r \<notin> metadata_commands) (before_first_system rs) @
      filter (\<lambda>r. ref_command r \<notin> placed_commands) (after_first_system rs)"
  using assms
proof (induction rs arbitrary: st rule: rev_induct)
  case Nil
  then show ?case
    by (auto simp: hierarchy_init_def commands_in_def before_first_system_def after_first_system_def)
next
  case (snoc r rs)
  obtain st1 where 1: "fold_res hierarchy_step rs hierarchy_init = Inr st1" "hierarchy_adds st1 r st"
    "flags_ok st1" using fold_snoc [OF snoc.prems] .
  note systems = conjunct1 [OF fold_view [OF 1(1) quick_key_view_step]]
  have none: "after_first_system rs = []" "before_first_system rs = rs"
    if "\<not> (\<exists>x \<in> set rs. ref_command x \<in> system_commands)"
    using that by (auto simp: after_first_system_def before_first_system_def dropWhile_eq_Nil_conv
        takeWhile_eq_all_conv)
  have "r' \<in> system_commands \<Longrightarrow> r' \<in> placed_commands" for r' by (auto simp: placed_commands_def)
  then show ?case
    using hierarchy_adds_outside [OF 1(2)] snoc.IH [OF 1(1)] systems none
    by (cases "hs_systems st1 = []")
      (auto simp: commands_in_def after_first_system_snoc before_first_system_snoc)
qed

section \<open>Properties\<close>

text \<open>C10: The projection loses and invents nothing. Every record of the file is referenced exactly once,
  as metadata, below a system, or unclassified. The metadata are exactly the \<open>TargetModel\<close> and
  \<open>FormatVersion\<close> records, wherever they stand, and the unclassified records exactly the others
  before the first system and those of unknown commands after it, both in file order. Below the
  systems every reference has the kind of its place, and each kind of record appears in file order:
  systems with their quick-key, supplemental, site and
  department records, conventional departments with their channels, talk-group departments with
  their talk groups, and sites with their frequencies and with their band plans, each list being
  exactly the records of those commands from the first system on. So every channel belongs to the
  nearest department before it, and every department and site to the nearest system.\<close>

theorem hierarchy_projection_faithful:
  assumes "project_favorites_hierarchy f = Inr h"
  shows "mset (fh_metadata h) + mset (fh_unclassified h) + mset (view all_refs (fh_systems h)) =
      mset (references f) \<and>
    fh_metadata h = commands_in metadata_commands (references f) \<and>
    fh_unclassified h =
      filter (\<lambda>r. ref_command r \<notin> metadata_commands) (before_first_system (references f)) @
      filter (\<lambda>r. ref_command r \<notin> placed_commands) (after_first_system (references f)) \<and>
    list_all kinds_ok (fh_systems h) \<and> fh_source h = f \<and>
    (let body = after_first_system (references f); systems = fh_systems h in
      view quick_key_view systems = commands_in {''Conventional'', ''Trunk'', ''DQKs_Status''} body \<and>
      view supplemental_view systems =
        commands_in ({''Conventional'', ''Trunk''} \<union> system_supplemental_commands) body \<and>
      view department_view systems =
        commands_in {''Conventional'', ''Trunk'', ''C-Group'', ''T-Group''} body \<and>
      view site_view systems = commands_in {''Conventional'', ''Trunk'', ''Site''} body \<and>
      view conventional_view systems = commands_in {''C-Group'', ''C-Freq''} body \<and>
      view talkgroup_view systems = commands_in {''T-Group'', ''TGID''} body \<and>
      view frequency_view systems = commands_in {''Site'', ''T-Freq''} body \<and>
      view band_plan_view systems = commands_in {''Site'', ''BandPlan_Mot'', ''BandPlan_P25''} body)"
proof -
  obtain st where fold: "fold_res hierarchy_step (references f) hierarchy_init = Inr st"
    and h: "h = \<lparr>fh_source = f, fh_metadata = hs_metadata st, fh_systems = hs_systems st,
      fh_unclassified = hs_unclassified st\<rparr>"
    using assms by (auto simp: project_favorites_hierarchy_def res_simps)
  note views = fold_view [OF fold quick_key_view_step] fold_view [OF fold supplemental_view_step]
    fold_view [OF fold department_view_step] fold_view [OF fold site_view_step]
    fold_view [OF fold conventional_view_step] fold_view [OF fold talkgroup_view_step]
    fold_view [OF fold frequency_view_step] fold_view [OF fold band_plan_view_step]
  show ?thesis
    using views fold_state_refs [OF fold] fold_kinds [OF fold] fold_outside [OF fold]
    by (simp add: h state_refs_def Let_def)
qed

definition sample_source :: "string \<Rightarrow> fav_record" where
  "sample_source command =
     \<lparr>fr_content = command, fr_ending = [lf], fr_command = command, fr_fields = []\<rparr>"

lemma hierarchy_projection_faithful_witness:
  "let f = map sample_source [''TargetModel'', ''UnitID'', ''Conventional'', ''C-Group'', ''C-Freq'',
        ''Trunk'', ''T-Group'', ''TGID'', ''Site'', ''T-Freq'']
   in \<exists>h. project_favorites_hierarchy f = Inr h \<and> length (fh_systems h) = 2 \<and>
      map ref_index (view conventional_view (fh_systems h)) = [3, 4]"
proof -
  define f where "f = map sample_source [''TargetModel'', ''UnitID'', ''Conventional'', ''C-Group'',
    ''C-Freq'', ''Trunk'', ''T-Group'', ''TGID'', ''Site'', ''T-Freq'']"
  obtain h where h: "project_favorites_hierarchy f = Inr h" "length (fh_systems h) = 2"
    by (simp add: f_def project_favorites_hierarchy_def references_def hierarchy_init_def
        hierarchy_step_def step_conventional_def step_trunk_def sample_source_def new_system_def
        in_conventional_def in_trunk_def system_supplemental_commands_def map_last_def)
  have "view conventional_view (fh_systems h) =
      commands_in {''C-Group'', ''C-Freq''} (after_first_system (references f))"
    using hierarchy_projection_faithful [OF h(1)] by (simp add: Let_def)
  then have "map ref_index (view conventional_view (fh_systems h)) = [3, 4]"
    by (simp add: f_def commands_in_def after_first_system_def references_def sample_source_def)
  with h show ?thesis by (simp add: f_def Let_def)
qed

text \<open>C26: The projection refines its context machine. It succeeds exactly when the machine accepts
  the commands of the file, and otherwise reports the first record, by index and command, that the
  machine rejects in the context reached there; nothing else makes it fail.\<close>

theorem hierarchy_refines_contexts:
  "case project_favorites_hierarchy f of
     Inr h \<Rightarrow> context_run NoSystem (map fr_command f) \<noteq> None
   | Inl (HierarchyError i c) \<Rightarrow>
       i < length f \<and> c = fr_command (f ! i) \<and>
       (\<exists>x. context_run NoSystem (map fr_command (take i f)) = Some x \<and> context_step x c = None)"
proof -
  have init: "flags_exclusive hierarchy_init" "context_of hierarchy_init = NoSystem"
    by (simp_all add: flags_exclusive_def hierarchy_init_def context_of_def)
  have refs: "map ref_command (references f) = map fr_command f"
    by (rule nth_equalityI) (simp_all add: references_def nth_enumerate_eq)
  show ?thesis
  proof (cases "fold_res hierarchy_step (references f) hierarchy_init")
    case (Inr st)
    then show ?thesis
      using fold_context [OF init(1), of "references f"] init(2) refs
      by (simp add: project_favorites_hierarchy_def)
  next
    case (Inl e)
    obtain i c where e: "e = HierarchyError i c" by (cases e)
    obtain us r vs x where *: "references f = us @ r # vs" "i = ref_index r" "c = ref_command r"
      "context_run NoSystem (map ref_command us) = Some x" "context_step x c = None"
      using fold_context [OF init(1), of "references f"] init(2) Inl e by auto
    have len: "length us < length f" "references f ! length us = r"
      using *(1) by (simp_all add: references_def) (metis length_append length_enumerate length_map
          less_add_same_cancel1 list.size(4) zero_less_Suc add_Suc_right add_gr_0)+
    then have r: "r = \<lparr>ref_index = length us, ref_record = f ! length us\<rparr>"
      by (simp add: references_def nth_enumerate_eq)
    have "map ref_command us = map fr_command (take (length us) f)"
      using arg_cong [OF *(1), of "\<lambda>l. take (length us) (map ref_command l)"] refs
      by (simp add: take_map)
    with *(2-5) r len(1) Inl e show ?thesis by (simp add: project_favorites_hierarchy_def)
  qed
qed

end
