(* ===== verification/Favorites_Workspace.thy ===== *)
theory Favorites_Workspace
  imports Favorites_Catalog Favorites_Hierarchy
begin

text \<open>
  \<^verbatim>\<open>src/sds200/favorites_workspace.py\<close>: binding catalog entries to the supplied hierarchy
  documents by exact file name. The dictionary of documents by file name is a map to the list of
  its documents; the counters of \<open>_duplicates_in_order\<close> are a total function that is 0 where the
  dictionary has no entry.
\<close>

record hierarchy_document =
  hd_filename :: string
  hd_hierarchy :: fav_hierarchy

record workspace_binding =
  wb_entry :: catalog_entry
  wb_document :: hierarchy_document

datatype binding_error = FilenameMismatch

definition workspace_binding ::
  "catalog_entry \<Rightarrow> hierarchy_document \<Rightarrow> binding_error + workspace_binding" where
  "workspace_binding entry document =
     raise_if (ce_filename entry \<noteq> hd_filename document) FilenameMismatch
       (Inr \<lparr>wb_entry = entry, wb_document = document\<rparr>)"

record fav_workspace =
  fw_catalog :: fav_catalog
  fw_documents :: "hierarchy_document list"
  fw_bindings :: "workspace_binding list"
  fw_missing :: "catalog_entry list"
  fw_ambiguous :: "catalog_entry list"
  fw_duplicate_catalog :: "string list"
  fw_duplicate_documents :: "string list"
  fw_orphans :: "hierarchy_document list"

section \<open>Duplicates in order\<close>

definition count_values :: "'a list \<Rightarrow> 'a \<Rightarrow> nat" where
  "count_values values = fold (\<lambda>v counts. counts(v := counts v + 1)) values (\<lambda>_. 0)"

fun emit_duplicates :: "('a \<Rightarrow> nat) \<Rightarrow> 'a list \<Rightarrow> 'a set \<Rightarrow> 'a list" where
  "emit_duplicates counts [] emitted = []"
| "emit_duplicates counts (v # vs) emitted =
     (if counts v \<le> 1 \<or> v \<in> emitted then emit_duplicates counts vs emitted
      else v # emit_duplicates counts vs (insert v emitted))"

definition duplicates_in_order :: "'a list \<Rightarrow> 'a list" where
  "duplicates_in_order values = emit_duplicates (count_values values) values {}"

section \<open>Binding\<close>

definition documents_by_filename :: "hierarchy_document list \<Rightarrow> string \<rightharpoonup> hierarchy_document list" where
  "documents_by_filename documents =
     fold (\<lambda>d m. m(hd_filename d \<mapsto> (case m (hd_filename d) of None \<Rightarrow> [] | Some ds \<Rightarrow> ds) @ [d]))
       documents Map.empty"

fun bind_step ::
  "(string \<rightharpoonup> hierarchy_document list) \<Rightarrow> catalog_entry \<Rightarrow>
   workspace_binding list \<times> catalog_entry list \<times> catalog_entry list \<Rightarrow>
   binding_error + workspace_binding list \<times> catalog_entry list \<times> catalog_entry list" where
  "bind_step by_filename entry (bindings, missing, ambiguous) =
     (case by_filename (ce_filename entry) of
        None \<Rightarrow> Inr (bindings, missing @ [entry], ambiguous)
      | Some matching \<Rightarrow>
          if length matching \<noteq> 1 then Inr (bindings, missing, ambiguous @ [entry])
          else bind_res (workspace_binding entry (matching ! 0)) (\<lambda>b.
            Inr (bindings @ [b], missing, ambiguous)))"

definition bind_favorites_workspace ::
  "fav_catalog \<Rightarrow> hierarchy_document list \<Rightarrow> binding_error + fav_workspace" where
  "bind_favorites_workspace catalog documents =
     bind_res (fold_res (bind_step (documents_by_filename documents)) (fc_entries catalog) ([], [], []))
       (\<lambda>(bindings, missing, ambiguous).
         let catalog_filenames = map ce_filename (fc_entries catalog) in
         Inr \<lparr>fw_catalog = catalog, fw_documents = documents, fw_bindings = bindings,
              fw_missing = missing, fw_ambiguous = ambiguous,
              fw_duplicate_catalog = duplicates_in_order catalog_filenames,
              fw_duplicate_documents = duplicates_in_order (map hd_filename documents),
              fw_orphans = filter (\<lambda>d. hd_filename d \<notin> set catalog_filenames) documents\<rparr>)"

section \<open>Correctness\<close>

lemma count_values: "count_values vs v = count_list vs v"
proof -
  have "fold (\<lambda>v counts. counts(v := counts v + 1)) vs c v = c v + count_list vs v" for c
    by (induction vs arbitrary: c) auto
  then show ?thesis by (simp add: count_values_def)
qed

text \<open>The first occurrences, in order, of the values that occur more than once.\<close>

fun first_occurrences :: "'a list \<Rightarrow> 'a list" where
  "first_occurrences [] = []"
| "first_occurrences (v # vs) = v # filter (\<lambda>w. w \<noteq> v) (first_occurrences vs)"

lemma first_occurrences_filter:
  "first_occurrences (filter P vs) = filter P (first_occurrences vs)"
proof (induction vs)
  case (Cons a vs)
  have "filter (\<lambda>x. P x \<and> x \<noteq> a) xs = filter P xs" if "\<not> P a" for xs
    using that by (intro filter_cong) auto
  with Cons show ?case by (auto simp: conj_commute)
qed simp

lemma set_first_occurrences [simp]: "set (first_occurrences vs) = set vs"
  by (induction vs) auto

lemma distinct_first_occurrences [simp]: "distinct (first_occurrences vs)"
  by (induction vs) auto

lemma emit_duplicates_eq:
  "emit_duplicates counts vs emitted =
     filter (\<lambda>v. 1 < counts v \<and> v \<notin> emitted) (first_occurrences vs)"
  by (induction counts vs emitted rule: emit_duplicates.induct)
    (auto intro: filter_cong)

lemma duplicates_in_order_eq:
  "duplicates_in_order vs = filter (\<lambda>v. 1 < count_list vs v) (first_occurrences vs)"
  by (simp add: duplicates_in_order_def emit_duplicates_eq count_values)

lemma documents_by_filename:
  "documents_by_filename documents name =
     (case filter (\<lambda>d. hd_filename d = name) documents of [] \<Rightarrow> None | ds \<Rightarrow> Some ds)"
proof (induction documents rule: rev_induct)
  case Nil
  then show ?case by (simp add: documents_by_filename_def)
next
  case (snoc d documents)
  then show ?case by (auto simp: documents_by_filename_def split: list.splits)
qed

definition matching :: "hierarchy_document list \<Rightarrow> catalog_entry \<Rightarrow> hierarchy_document list" where
  "matching documents e = filter (\<lambda>d. hd_filename d = ce_filename e) documents"

lemma bind_fold:
  "fold_res (bind_step (documents_by_filename documents)) es (bs, ms, as) =
     Inr (bs @ map (\<lambda>e. \<lparr>wb_entry = e, wb_document = hd (matching documents e)\<rparr>)
             (filter (\<lambda>e. length (matching documents e) = 1) es),
          ms @ filter (\<lambda>e. matching documents e = []) es,
          as @ filter (\<lambda>e. 1 < length (matching documents e)) es)"
proof (induction es arbitrary: bs ms as)
  case Nil
  then show ?case by simp
next
  case (Cons e es)
  have look: "documents_by_filename documents (ce_filename e) =
      (if matching documents e = [] then None else Some (matching documents e))"
    by (auto simp: documents_by_filename matching_def split: list.splits)
  consider (none) "matching documents e = []" | (one) d where "matching documents e = [d]"
    | (many) "1 < length (matching documents e)"
    by (cases "matching documents e" rule: remdups_adj.cases) auto
  then show ?case
  proof cases
    case none
    then show ?thesis using look Cons.IH by simp
  next
    case one
    then have "d \<in> set (matching documents e)" by simp
    then have "hd_filename d = ce_filename e" by (simp add: matching_def)
    with one show ?thesis using look Cons.IH by (simp add: workspace_binding_def)
  next
    case many
    then have "matching documents e \<noteq> []" "length (matching documents e) \<noteq> 1" by auto
    with many show ?thesis using look Cons.IH by simp
  qed
qed

text \<open>C30: Binding classifies every catalog entry by how many documents carry its exact file name:
  exactly one binds it to that document, none makes it missing, several make it ambiguous, each
  list in catalog order. The duplicate lists are the values that occur more than once, each once,
  in order of first occurrence; the orphans are the documents no entry names. Binding never raises.\<close>

theorem workspace_binding_exact:
  "\<exists>w. bind_favorites_workspace catalog documents = Inr w \<and>
     fw_catalog w = catalog \<and> fw_documents w = documents \<and>
     (let es = fc_entries catalog; names = map ce_filename es in
      fw_bindings w = map (\<lambda>e. \<lparr>wb_entry = e, wb_document = hd (matching documents e)\<rparr>)
        (filter (\<lambda>e. length (matching documents e) = 1) es) \<and>
      fw_missing w = filter (\<lambda>e. length (matching documents e) = 0) es \<and>
      fw_ambiguous w = filter (\<lambda>e. 1 < length (matching documents e)) es \<and>
      length (fw_bindings w) + length (fw_missing w) + length (fw_ambiguous w) = length es \<and>
      fw_duplicate_catalog w = filter (\<lambda>v. 1 < count_list names v) (first_occurrences names) \<and>
      fw_duplicate_documents w =
        filter (\<lambda>v. 1 < count_list (map hd_filename documents) v)
          (first_occurrences (map hd_filename documents)) \<and>
      fw_orphans w = filter (\<lambda>d. \<forall>e \<in> set es. matching [d] e = []) documents)"
proof -
  have three: "length (filter (\<lambda>e. length (f e) = 1) es) + length (filter (\<lambda>e. f e = []) es) +
      length (filter (\<lambda>e. 1 < length (f e)) es) = length es" for f :: "catalog_entry \<Rightarrow> hierarchy_document list" and es
    by (induction es) (auto simp: less_Suc_eq_0_disj neq_Nil_conv length_Suc_conv)
  have orphan: "hd_filename d \<notin> set (map ce_filename es) \<longleftrightarrow> (\<forall>e \<in> set es. matching [d] e = [])" for d es
    by (auto simp: matching_def)
  show ?thesis
    using three [of "matching documents" "fc_entries catalog"]
    by (simp add: bind_favorites_workspace_def bind_fold Let_def duplicates_in_order_eq orphan
        del: set_map)
qed

lemma workspace_binding_exact_witness:
  "\<exists>w. bind_favorites_workspace \<lparr>fc_source = [], fc_metadata_indexes = [], fc_entries =
       [\<lparr>ce_source_index = 0, ce_source =
          \<lparr>fr_content = [], fr_ending = [], fr_command = ''F-List'', fr_fields = [''A'', ''f.hpd'']\<rparr>\<rparr>],
     fc_unclassified_indexes = []\<rparr> [] = Inr w \<and> length (fw_missing w) = 1 \<and> fw_bindings w = []"
  using workspace_binding_exact [of "\<lparr>fc_source = [], fc_metadata_indexes = [], fc_entries =
       [\<lparr>ce_source_index = 0, ce_source =
          \<lparr>fr_content = [], fr_ending = [], fr_command = ''F-List'', fr_fields = [''A'', ''f.hpd'']\<rparr>\<rparr>],
     fc_unclassified_indexes = []\<rparr>" "[]"]
  by (auto simp: Let_def matching_def)

end
