(* ===== verification/Favorites_Storage.thy ===== *)
theory Favorites_Storage
  imports Favorites_Workspace
begin

text \<open>
  \<^verbatim>\<open>src/sds200/favorites_storage.py\<close>: immutable storage snapshots, their projection to a
  workspace through the parser, catalog, hierarchy and binding, and the export back.
  \<open>PureWindowsPath(name).drive\<close> is only asked for names without separators, where (from Python
  3.12 on) it is the first two characters when the second is a colon. Python 3.11 asks for a letter
  before the colon and so accepts names like \<open>1:x\<close>; no result below uses more of the drive rule
  than that unsafe names are refused.
\<close>

datatype storage_error =
    UnsafeFilename string "nat option"
  | StorageParse favorites_error
  | StorageCatalog catalog_error
  | StorageHierarchy hierarchy_error
  | StorageBinding binding_error

definition windows_drive :: "string \<Rightarrow> string" where
  "windows_drive name = (if 2 \<le> length name \<and> name ! 1 = CHR '':'' then take 2 name else [])"

definition unsafe_filename :: "string \<Rightarrow> bool" where
  "unsafe_filename filename \<longleftrightarrow>
     filename = [] \<or> filename \<in> {''.'', ''..''} \<or> CHR ''/'' \<in> set filename \<or>
     CHR 0x5C \<in> set filename \<or> CHR 0x00 \<in> set filename \<or> windows_drive filename \<noteq> []"

definition validate_storage_filename :: "string \<Rightarrow> nat option \<Rightarrow> storage_error + string" where
  "validate_storage_filename filename source_index =
     raise_if (unsafe_filename filename) (UnsafeFilename filename source_index) (Inr filename)"

record storage_document =
  sd_filename :: string
  sd_content :: bytes

definition storage_document :: "string \<Rightarrow> bytes \<Rightarrow> storage_error + storage_document" where
  "storage_document filename content =
     bind_res (validate_storage_filename filename None) (\<lambda>_.
       Inr \<lparr>sd_filename = filename, sd_content = content\<rparr>)"

record storage_snapshot =
  sn_catalog_bytes :: bytes
  sn_documents :: "storage_document list"

definition project_document :: "storage_document \<Rightarrow> storage_error + hierarchy_document" where
  "project_document d =
     bind_res (map_error StorageParse (parse_favorites_file (sd_content d))) (\<lambda>source.
     bind_res (map_error StorageHierarchy (project_favorites_hierarchy source)) (\<lambda>hierarchy.
     Inr \<lparr>hd_filename = sd_filename d, hd_hierarchy = hierarchy\<rparr>))"

definition project_favorites_storage_snapshot :: "storage_snapshot \<Rightarrow> storage_error + fav_workspace" where
  "project_favorites_storage_snapshot snapshot =
     bind_res (map_error StorageParse (parse_favorites_file (sn_catalog_bytes snapshot)))
       (\<lambda>catalog_source.
     bind_res (map_error StorageCatalog (project_favorites_catalog catalog_source)) (\<lambda>catalog.
     bind_res (map_res (\<lambda>e. validate_storage_filename (ce_filename e) (Some (ce_source_index e)))
         (fc_entries catalog)) (\<lambda>_.
     bind_res (map_res project_document (sn_documents snapshot)) (\<lambda>documents.
     map_error StorageBinding (bind_favorites_workspace catalog documents)))))"

definition export_favorites_workspace_snapshot :: "fav_workspace \<Rightarrow> storage_error + storage_snapshot" where
  "export_favorites_workspace_snapshot w =
     bind_res (map_res (\<lambda>d. storage_document (hd_filename d) (to_bytes (fh_source (hd_hierarchy d))))
         (fw_documents w)) (\<lambda>documents.
     Inr \<lparr>sn_catalog_bytes = to_bytes (fc_source (fw_catalog w)), sn_documents = documents\<rparr>)"

text \<open>The snapshots that exist: their documents have passed the constructor.\<close>

definition snapshot_ok :: "storage_snapshot \<Rightarrow> bool" where
  "snapshot_ok s \<longleftrightarrow> (\<forall>d \<in> set (sn_documents s). \<not> unsafe_filename (sd_filename d))"

lemma validate_Inr [res_simps]:
  "validate_storage_filename n i = Inr m \<longleftrightarrow> \<not> unsafe_filename n \<and> m = n"
  by (auto simp: validate_storage_filename_def res_simps)

lemma storage_document_Inr:
  "storage_document n c = Inr d \<longleftrightarrow> \<not> unsafe_filename n \<and> d = \<lparr>sd_filename = n, sd_content = c\<rparr>"
  by (auto simp: storage_document_def res_simps)

lemma project_hierarchy_source: "project_favorites_hierarchy f = Inr h \<Longrightarrow> fh_source h = f"
  by (auto simp: project_favorites_hierarchy_def res_simps)

lemma project_catalog_source: "project_favorites_catalog f = Inr c \<Longrightarrow> fc_source c = f"
  by (auto simp: project_favorites_catalog_def res_simps)

lemma bind_keeps:
  "bind_favorites_workspace c ds = Inr w \<Longrightarrow> fw_catalog w = c \<and> fw_documents w = ds"
  by (auto simp: bind_favorites_workspace_def bind_fold Let_def)

lemma project_document_Inr:
  assumes "project_document d = Inr h"
  shows "hd_filename h = sd_filename d" and "to_bytes (fh_source (hd_hierarchy h)) = sd_content d"
  using assms parse_to_bytes_id
  by (auto simp: project_document_def res_simps dest: project_hierarchy_source)

lemma project_snapshot_Inr:
  assumes "project_favorites_storage_snapshot s = Inr w"
  shows "to_bytes (fc_source (fw_catalog w)) = sn_catalog_bytes s"
    and "list_all2 (\<lambda>d h. project_document d = Inr h) (sn_documents s) (fw_documents w)"
    and "\<forall>e \<in> set (fc_entries (fw_catalog w)). \<not> unsafe_filename (ce_filename e)"
proof -
  obtain src c names ds where 1: "parse_favorites_file (sn_catalog_bytes s) = Inr src"
    "project_favorites_catalog src = Inr c"
    "map_res (\<lambda>e. validate_storage_filename (ce_filename e) (Some (ce_source_index e))) (fc_entries c) = Inr names"
    "map_res project_document (sn_documents s) = Inr ds" "bind_favorites_workspace c ds = Inr w"
    using assms unfolding project_favorites_storage_snapshot_def bind_res_eq_Inr map_error_eq_Inr by blast
  have w: "fw_catalog w = c" "fw_documents w = ds" using bind_keeps [OF 1(5)] by simp_all
  show "to_bytes (fc_source (fw_catalog w)) = sn_catalog_bytes s"
    using parse_to_bytes_id [OF 1(1)] project_catalog_source [OF 1(2)] w by simp
  show "list_all2 (\<lambda>d h. project_document d = Inr h) (sn_documents s) (fw_documents w)"
    using 1(4) w by (simp add: res_simps)
  show "\<forall>e \<in> set (fc_entries (fw_catalog w)). \<not> unsafe_filename (ce_filename e)"
    using 1(3) w by (auto simp: map_res_eq_Inr res_simps list_all2_conv_all_nth in_set_conv_nth)
qed

lemma project_names:
  assumes "project_favorites_storage_snapshot s = Inr w"
  shows "map hd_filename (fw_documents w) = map sd_filename (sn_documents s)"
  using project_snapshot_Inr(2) [OF assms]
  by (induction rule: list_all2_induct) (simp_all add: project_document_Inr)

lemma export_project:
  assumes "snapshot_ok s" and "project_favorites_storage_snapshot s = Inr w"
  shows "export_favorites_workspace_snapshot w = Inr s"
proof -
  note 1 = project_snapshot_Inr [OF assms(2)]
  have "list_all2 (\<lambda>h d. storage_document (hd_filename h) (to_bytes (fh_source (hd_hierarchy h))) = Inr d)
      (fw_documents w) (sn_documents s)"
    using 1(2) assms(1)
    by (auto simp: list_all2_conv_all_nth storage_document_Inr snapshot_ok_def project_document_Inr)
  then show ?thesis
    using 1(1) by (auto simp: export_favorites_workspace_snapshot_def bind_res_eq_Inr map_res_eq_Inr
        intro!: exI [of _ "sn_documents s"])
qed

text \<open>C12: Export undoes projection. Projecting a snapshot and exporting the workspace gives back the
  snapshot, byte for byte: the catalog and every document, with its name and in its order.\<close>

theorem storage_export_project:
  assumes "snapshot_ok s" and "project_favorites_storage_snapshot s = Inr w"
  shows "export_favorites_workspace_snapshot w = Inr s"
  using assms by (rule export_project)

definition sample_snapshot :: storage_snapshot where
  "sample_snapshot =
     \<lparr>sn_catalog_bytes = ''F-List'' @ [tab] @ ''Home'' @ [tab] @ ''f_1.hpd'' @ [cr, lf],
      sn_documents = [\<lparr>sd_filename = ''f_1.hpd'', sd_content = ''Trunk'' @ [lf] @ ''Site''\<rparr>]\<rparr>"

lemma sample_snapshot_projects:
  "\<exists>w. project_favorites_storage_snapshot sample_snapshot = Inr w \<and> length (fw_bindings w) = 1"
  by (simp add: sample_snapshot_def project_favorites_storage_snapshot_def parse_favorites_file_def
      split_source_lines_start fav_record_def line_endings_def decode_ascii_def fav_file_def
      project_favorites_catalog_def catalog_entry_def validate_storage_filename_def
      unsafe_filename_def windows_drive_def ce_filename_def project_document_def
      project_favorites_hierarchy_def references_def hierarchy_init_def hierarchy_step_def
      step_conventional_def step_trunk_def new_system_def in_trunk_def map_last_def
      bind_favorites_workspace_def documents_by_filename_def workspace_binding_def Let_def)

lemma storage_export_project_witness:
  "\<exists>w. project_favorites_storage_snapshot sample_snapshot = Inr w \<and> length (fw_bindings w) = 1 \<and>
     export_favorites_workspace_snapshot w = Inr sample_snapshot"
proof -
  obtain w where w: "project_favorites_storage_snapshot sample_snapshot = Inr w" "length (fw_bindings w) = 1"
    using sample_snapshot_projects by blast
  have "snapshot_ok sample_snapshot"
    by (simp add: snapshot_ok_def sample_snapshot_def unsafe_filename_def windows_drive_def)
  from storage_export_project [OF this w(1)] w show ?thesis by blast
qed

end
