(* ===== verification/Favorites_Schema.thy ===== *)
theory Favorites_Schema
  imports Favorites_Storage "HOL-Library.Product_Lexorder"
begin

text \<open>
  \<^verbatim>\<open>src/sds200/favorites_schema.py\<close>: schema diagnostics over a workspace. A diagnostic is a
  record without its message text (every message is a non-empty literal or format string); its
  constructor and the constructor of the validation result check provenance and canonical order,
  which the model keeps. Object identity of a diagnostic's record with the record at its source
  index is equality in the model, where a record is a value.
\<close>

section \<open>Rules\<close>

datatype source_kind = CatalogSource | HpdSource

datatype severity = SeverityError | SeverityWarning | SeverityInfo

datatype schema_rule =
    MissingRequiredMetadata
  | InvalidTargetModel
  | InvalidFormatVersion
  | UnvalidatedFormatVersion
  | TooFewFields
  | UnvalidatedExtraFields
  | InvalidNameTag
  | UnsupportedCommand

fun rule_severity :: "schema_rule \<Rightarrow> severity" where
  "rule_severity MissingRequiredMetadata = SeverityError"
| "rule_severity InvalidTargetModel = SeverityError"
| "rule_severity InvalidFormatVersion = SeverityError"
| "rule_severity UnvalidatedFormatVersion = SeverityWarning"
| "rule_severity TooFewFields = SeverityError"
| "rule_severity UnvalidatedExtraFields = SeverityWarning"
| "rule_severity InvalidNameTag = SeverityError"
| "rule_severity UnsupportedCommand = SeverityInfo"

definition field_rules :: "schema_rule set" where
  "field_rules = {InvalidTargetModel, InvalidFormatVersion, UnvalidatedFormatVersion, InvalidNameTag}"

definition required_metadata :: "string list" where
  "required_metadata = [''TargetModel'', ''FormatVersion'']"

definition required_metadata_order :: "string \<Rightarrow> int" where
  "required_metadata_order command = (if command = ''TargetModel'' then 0 else 1)"

fun record_rule_order :: "schema_rule \<Rightarrow> int" where
  "record_rule_order InvalidTargetModel = 1"
| "record_rule_order InvalidFormatVersion = 1"
| "record_rule_order UnvalidatedFormatVersion = 1"
| "record_rule_order InvalidNameTag = 2"
| "record_rule_order _ = 0"

section \<open>Diagnostics\<close>

record diagnostic =
  dg_rule :: schema_rule
  dg_severity :: severity
  dg_source_kind :: source_kind
  dg_document_index :: "nat option"
  dg_filename :: "string option"
  dg_source_index :: "nat option"
  dg_command :: string
  dg_field_index :: "nat option"
  dg_record :: "fav_record option"

datatype schema_error =
    SeverityMismatch
  | CatalogWithDocumentIndex
  | CatalogWithFilename
  | HpdWithoutDocumentIndex
  | HpdWithoutFilename
  | IndexRecordMismatch
  | CommandMismatch
  | FieldIndexWithoutRecord
  | FieldIndexOutOfRange
  | MissingMetadataCommand
  | MissingMetadataNotFileLevel
  | RecordDiagnosticWithoutRecord
  | FieldRuleWithoutIndex
  | NonFieldRuleWithIndex
  | DocumentNotPresent
  | FilenameNotDocument
  | SourceIndexNotPresent
  | RecordNotSource
  | MetadataPresent
  | NotCanonicalOrder

definition check_source_kind :: "diagnostic \<Rightarrow> schema_error + unit" where
  "check_source_kind d =
     (case dg_source_kind d of
        CatalogSource \<Rightarrow>
          raise_if (dg_document_index d \<noteq> None) CatalogWithDocumentIndex
         (raise_if (dg_filename d \<noteq> None) CatalogWithFilename (Inr ()))
      | HpdSource \<Rightarrow>
          raise_if (dg_document_index d = None) HpdWithoutDocumentIndex
         (raise_if (dg_filename d = None) HpdWithoutFilename (Inr ())))"

definition check_record :: "diagnostic \<Rightarrow> schema_error + unit" where
  "check_record d =
     raise_if ((dg_source_index d = None) \<noteq> (dg_record d = None)) IndexRecordMismatch
    (raise_if (case dg_record d of None \<Rightarrow> False | Some r \<Rightarrow> dg_command d \<noteq> fr_command r) CommandMismatch
    (case dg_field_index d of
       None \<Rightarrow> Inr ()
     | Some i \<Rightarrow>
         (case dg_record d of
            None \<Rightarrow> Inl FieldIndexWithoutRecord
          | Some r \<Rightarrow> raise_if (i \<ge> length (fr_fields r)) FieldIndexOutOfRange (Inr ()))))"

definition check_rule :: "diagnostic \<Rightarrow> schema_error + unit" where
  "check_rule d =
     bind_res
      (if dg_rule d = MissingRequiredMetadata then
         raise_if (dg_command d \<notin> set required_metadata) MissingMetadataCommand
        (raise_if (dg_source_index d \<noteq> None \<or> dg_record d \<noteq> None \<or> dg_field_index d \<noteq> None)
           MissingMetadataNotFileLevel (Inr ()))
       else raise_if (dg_record d = None) RecordDiagnosticWithoutRecord (Inr ()))
      (\<lambda>_.
       if dg_rule d \<in> field_rules
       then raise_if (dg_field_index d = None) FieldRuleWithoutIndex (Inr ())
       else raise_if (dg_field_index d \<noteq> None) NonFieldRuleWithIndex (Inr ()))"

definition diagnostic :: "diagnostic \<Rightarrow> schema_error + diagnostic" where
  "diagnostic d =
     raise_if (dg_severity d \<noteq> rule_severity (dg_rule d)) SeverityMismatch
    (bind_res (check_source_kind d) (\<lambda>_.
     bind_res (check_record d) (\<lambda>_.
     bind_res (check_rule d) (\<lambda>_. Inr d))))"

section \<open>The validation result\<close>

definition diagnostic_source :: "fav_workspace \<Rightarrow> diagnostic \<Rightarrow> schema_error + fav_file" where
  "diagnostic_source w d =
     (case dg_source_kind d of
        CatalogSource \<Rightarrow> Inr (fc_source (fw_catalog w))
      | HpdSource \<Rightarrow>
          (case dg_document_index d of
             None \<Rightarrow> Inl DocumentNotPresent
           | Some i \<Rightarrow>
               raise_if (i \<ge> length (fw_documents w)) DocumentNotPresent
              (raise_if (dg_filename d \<noteq> Some (hd_filename (fw_documents w ! i))) FilenameNotDocument
                (Inr (fh_source (hd_hierarchy (fw_documents w ! i)))))))"

definition diagnostic_order_key :: "diagnostic \<Rightarrow> int \<times> int \<times> int \<times> int \<times> int" where
  "diagnostic_order_key d =
     (let (source_kind_order, document_order) =
        (case dg_source_kind d of
           CatalogSource \<Rightarrow> (0, 0)
         | HpdSource \<Rightarrow> (1, case dg_document_index d of Some i \<Rightarrow> int i | None \<Rightarrow> -1))
      in if dg_rule d = MissingRequiredMetadata
         then (source_kind_order, document_order, 0, required_metadata_order (dg_command d), 0)
         else (source_kind_order, document_order, 1,
               (case dg_source_index d of Some i \<Rightarrow> int i | None \<Rightarrow> -1),
               record_rule_order (dg_rule d)))"

definition validate_diagnostic_provenance :: "fav_workspace \<Rightarrow> diagnostic \<Rightarrow> schema_error + unit" where
  "validate_diagnostic_provenance w d =
     bind_res (diagnostic_source w d) (\<lambda>source.
     bind_res
       (case dg_source_index d of
          None \<Rightarrow> Inr ()
        | Some i \<Rightarrow>
            raise_if (i \<ge> length source) SourceIndexNotPresent
           (raise_if (dg_record d \<noteq> Some (source ! i)) RecordNotSource (Inr ())))
       (\<lambda>_. raise_if (dg_rule d = MissingRequiredMetadata \<and>
              (\<exists>r \<in> set source. fr_command r = dg_command d)) MetadataPresent (Inr ())))"

record schema_validation =
  sv_workspace :: fav_workspace
  sv_diagnostics :: "diagnostic list"

fun check_diagnostics ::
  "fav_workspace \<Rightarrow> (int \<times> int \<times> int \<times> int \<times> int) option \<Rightarrow> diagnostic list \<Rightarrow> schema_error + unit" where
  "check_diagnostics w previous_key [] = Inr ()"
| "check_diagnostics w previous_key (d # ds) =
     bind_res (validate_diagnostic_provenance w d) (\<lambda>_.
       let order_key = diagnostic_order_key d in
       raise_if (case previous_key of None \<Rightarrow> False | Some k \<Rightarrow> order_key < k) NotCanonicalOrder
         (check_diagnostics w (Some order_key) ds))"

definition schema_validation :: "fav_workspace \<Rightarrow> diagnostic list \<Rightarrow> schema_error + schema_validation" where
  "schema_validation w ds =
     bind_res (check_diagnostics w None ds) (\<lambda>_. Inr \<lparr>sv_workspace = w, sv_diagnostics = ds\<rparr>)"

definition sv_is_valid :: "schema_validation \<Rightarrow> bool" where
  "sv_is_valid v \<longleftrightarrow> \<not> (\<exists>d \<in> set (sv_diagnostics v). dg_severity d = SeverityError)"

section \<open>Shapes\<close>

datatype shape =
    FixedShape nat "nat set"
  | RangeShape nat nat

definition exactly :: "nat \<Rightarrow> shape" where
  "exactly n = FixedShape n {n}"

definition catalog_shapes :: "(string \<times> shape) list" where
  "catalog_shapes =
     [(''TargetModel'', exactly 2), (''FormatVersion'', exactly 2), (''F-List'', exactly 117)]"

definition hpd_shapes :: "(string \<times> shape) list" where
  "hpd_shapes =
     [(''TargetModel'', exactly 2), (''FormatVersion'', exactly 2),
      (''Conventional'', exactly 15), (''Trunk'', exactly 22),
      (''AreaState'', exactly 3), (''AreaCounty'', exactly 3),
      (''FleetMap'', exactly 10), (''UnitIds'', exactly 9), (''UnitID'', exactly 1),
      (''Site'', exactly 19), (''Rectangle'', exactly 6), (''BandPlan_Mot'', exactly 26),
      (''BandPlan_P25'', FixedShape 34 {34, 50}), (''DQKs_Status'', exactly 102),
      (''C-Group'', exactly 11), (''T-Group'', exactly 10), (''C-Freq'', exactly 18),
      (''TGID'', FixedShape 17 {17, 18}), (''T-Freq'', FixedShape 8 {8, 9}),
      (''AvoidTgids'', RangeShape 3 18)]"

fun shapes_of :: "source_kind \<Rightarrow> string \<Rightarrow> shape option" where
  "shapes_of CatalogSource = map_of catalog_shapes"
| "shapes_of HpdSource = map_of hpd_shapes"

fun name_fields :: "source_kind \<Rightarrow> string \<Rightarrow> nat option" where
  "name_fields CatalogSource = map_of [(''F-List'', 0)]"
| "name_fields HpdSource = map_of
     [(''Conventional'', 2), (''Trunk'', 2), (''UnitIds'', 2), (''Site'', 2), (''C-Group'', 2),
      (''T-Group'', 2), (''C-Freq'', 2), (''TGID'', 2)]"

fun shape_minimum :: "shape \<Rightarrow> nat" where
  "shape_minimum (FixedShape m _) = m"
| "shape_minimum (RangeShape m _) = m"

fun shape_accepts :: "shape \<Rightarrow> nat \<Rightarrow> bool" where
  "shape_accepts (FixedShape _ counts) n \<longleftrightarrow> n \<in> counts"
| "shape_accepts (RangeShape _ m) n \<longleftrightarrow> n \<le> m"

definition is_digit :: "char \<Rightarrow> bool" where
  "is_digit c \<longleftrightarrow> (48 :: nat) \<le> of_char c \<and> of_char c \<le> (57 :: nat)"

text \<open>\<open>fullmatch\<close> of \<open>[0-9][.][0-9]{2}\<close>.\<close>

definition format_version_matches :: "string \<Rightarrow> bool" where
  "format_version_matches v \<longleftrightarrow>
     length v = 4 \<and> is_digit (v ! 0) \<and> v ! 1 = CHR ''.'' \<and> is_digit (v ! 2) \<and> is_digit (v ! 3)"

definition name_is_supported :: "string \<Rightarrow> bool" where
  "name_is_supported v \<longleftrightarrow>
     length v \<le> 64 \<and> list_all (\<lambda>c. (0x20 :: nat) \<le> of_char c \<and> of_char c \<le> (0x7E :: nat)) v"

section \<open>Validating\<close>

text \<open>Where a diagnostic points: its file, and the record in it.\<close>

record source_place =
  pl_kind :: source_kind
  pl_document :: "nat option"
  pl_filename :: "string option"

definition make_diagnostic ::
  "schema_rule \<Rightarrow> source_place \<Rightarrow> nat option \<Rightarrow> string \<Rightarrow> nat option \<Rightarrow> fav_record option \<Rightarrow>
   schema_error + diagnostic" where
  "make_diagnostic rule place source_index command field_index r =
     diagnostic \<lparr>dg_rule = rule, dg_severity = rule_severity rule, dg_source_kind = pl_kind place,
       dg_document_index = pl_document place, dg_filename = pl_filename place,
       dg_source_index = source_index, dg_command = command, dg_field_index = field_index,
       dg_record = r\<rparr>"

definition emit_if :: "bool \<Rightarrow> schema_error + diagnostic \<Rightarrow> schema_error + diagnostic list \<Rightarrow>
   schema_error + diagnostic list" where
  "emit_if b d rest = (if b then bind_res d (\<lambda>x. bind_res rest (\<lambda>xs. Inr (x # xs))) else rest)"

definition shape_diagnostic ::
  "shape \<Rightarrow> source_place \<Rightarrow> nat \<Rightarrow> fav_record \<Rightarrow> schema_error + diagnostic option" where
  "shape_diagnostic shape place source_index r =
     (let count = fr_field_count r in
      if count < shape_minimum shape then
        bind_res (make_diagnostic TooFewFields place (Some source_index) (fr_command r) None (Some r))
          (\<lambda>d. Inr (Some d))
      else if shape_accepts shape count then Inr None
      else
        bind_res (make_diagnostic UnvalidatedExtraFields place (Some source_index) (fr_command r) None
            (Some r)) (\<lambda>d. Inr (Some d)))"

definition validate_record ::
  "source_place \<Rightarrow> nat \<times> fav_record \<Rightarrow> schema_error + diagnostic list" where
  "validate_record place ir =
     (case ir of (i, r) \<Rightarrow>
      let make = (\<lambda>rule field_index.
            make_diagnostic rule place (Some i) (fr_command r) field_index (Some r)) in
      case shapes_of (pl_kind place) (fr_command r) of
        None \<Rightarrow> emit_if True (make UnsupportedCommand None) (Inr [])
      | Some shape \<Rightarrow>
          bind_res (shape_diagnostic shape place i r) (\<lambda>shape_diag.
          bind_res
           (emit_if (fr_command r = ''TargetModel'' \<and> fr_fields r \<noteq> [] \<and> fr_fields r ! 0 \<noteq> ''BCDx36HP'')
              (make InvalidTargetModel (Some 0))
            (emit_if (fr_command r = ''FormatVersion'' \<and> fr_fields r \<noteq> [] \<and>
                \<not> format_version_matches (fr_fields r ! 0))
              (make InvalidFormatVersion (Some 0))
            (emit_if (fr_command r = ''FormatVersion'' \<and> fr_fields r \<noteq> [] \<and>
                format_version_matches (fr_fields r ! 0) \<and> fr_fields r ! 0 \<noteq> ''1.00'')
              (make UnvalidatedFormatVersion (Some 0))
            (case name_fields (pl_kind place) (fr_command r) of
               None \<Rightarrow> Inr []
             | Some k \<Rightarrow>
                 emit_if (k < length (fr_fields r) \<and> \<not> name_is_supported (fr_fields r ! k))
                   (make InvalidNameTag (Some k)) (Inr [])))))
           (\<lambda>ds. Inr ((case shape_diag of None \<Rightarrow> [] | Some d \<Rightarrow> [d]) @ ds))))"

definition validate_metadata :: "source_place \<Rightarrow> fav_file \<Rightarrow> schema_error + diagnostic list" where
  "validate_metadata place source =
     map_res (\<lambda>command. make_diagnostic MissingRequiredMetadata place None command None None)
       (filter (\<lambda>command. command \<notin> set (map fr_command source)) required_metadata)"

definition validate_source :: "source_place \<Rightarrow> fav_file \<Rightarrow> schema_error + diagnostic list" where
  "validate_source place source =
     bind_res (validate_metadata place source) (\<lambda>missing.
     bind_res (map_res (validate_record place) (List.enumerate 0 source)) (\<lambda>dss.
     Inr (missing @ concat dss)))"

definition catalog_place :: source_place where
  "catalog_place = \<lparr>pl_kind = CatalogSource, pl_document = None, pl_filename = None\<rparr>"

definition document_place :: "nat \<Rightarrow> string \<Rightarrow> source_place" where
  "document_place i filename = \<lparr>pl_kind = HpdSource, pl_document = Some i, pl_filename = Some filename\<rparr>"

definition validate_favorites_workspace :: "fav_workspace \<Rightarrow> schema_error + schema_validation" where
  "validate_favorites_workspace w =
     bind_res (validate_source catalog_place (fc_source (fw_catalog w))) (\<lambda>ds.
     bind_res (map_res (\<lambda>(i, d). validate_source (document_place i (hd_filename d))
         (fh_source (hd_hierarchy d))) (List.enumerate 0 (fw_documents w))) (\<lambda>dss.
     schema_validation w (ds @ concat dss)))"

section \<open>What validation reports\<close>

text \<open>The rules one record breaks, with the field they point at, and those a file breaks.\<close>

definition when_list :: "bool \<Rightarrow> 'a \<Rightarrow> 'a list" where
  "when_list b x = (if b then [x] else [])"

lemma when_list_simps [simp]:
  "x \<in> set (when_list b y) \<longleftrightarrow> b \<and> x = y" "map f (when_list b y) = when_list b (f y)"
  "sorted (when_list b (z :: 'b :: linorder))"
  by (auto simp: when_list_def)

definition record_issues :: "source_kind \<Rightarrow> fav_record \<Rightarrow> (schema_rule \<times> nat option) list" where
  "record_issues kind r =
     (case shapes_of kind (fr_command r) of
        None \<Rightarrow> [(UnsupportedCommand, None)]
      | Some shape \<Rightarrow>
          (let few = fr_field_count r < shape_minimum shape;
               first = fr_fields r ! 0;
               version = fr_command r = ''FormatVersion'' \<and> fr_fields r \<noteq> [];
               name = name_fields kind (fr_command r)
           in when_list few (TooFewFields, None) @
              when_list (\<not> few \<and> \<not> shape_accepts shape (fr_field_count r)) (UnvalidatedExtraFields, None) @
              when_list (fr_command r = ''TargetModel'' \<and> fr_fields r \<noteq> [] \<and> first \<noteq> ''BCDx36HP'')
                (InvalidTargetModel, Some 0) @
              when_list (version \<and> \<not> format_version_matches first) (InvalidFormatVersion, Some 0) @
              when_list (version \<and> format_version_matches first \<and> first \<noteq> ''1.00'')
                (UnvalidatedFormatVersion, Some 0) @
              when_list (name \<noteq> None \<and> the name < length (fr_fields r) \<and>
                  \<not> name_is_supported (fr_fields r ! the name)) (InvalidNameTag, name)))"

definition record_diagnostic ::
  "source_place \<Rightarrow> nat \<Rightarrow> fav_record \<Rightarrow> schema_rule \<times> nat option \<Rightarrow> diagnostic" where
  "record_diagnostic place i r issue =
     \<lparr>dg_rule = fst issue, dg_severity = rule_severity (fst issue), dg_source_kind = pl_kind place,
      dg_document_index = pl_document place, dg_filename = pl_filename place,
      dg_source_index = Some i, dg_command = fr_command r, dg_field_index = snd issue,
      dg_record = Some r\<rparr>"

definition missing_diagnostic :: "source_place \<Rightarrow> string \<Rightarrow> diagnostic" where
  "missing_diagnostic place command =
     \<lparr>dg_rule = MissingRequiredMetadata, dg_severity = SeverityError, dg_source_kind = pl_kind place,
      dg_document_index = pl_document place, dg_filename = pl_filename place,
      dg_source_index = None, dg_command = command, dg_field_index = None, dg_record = None\<rparr>"

definition missing_metadata :: "fav_file \<Rightarrow> string list" where
  "missing_metadata source = filter (\<lambda>c. c \<notin> set (map fr_command source)) required_metadata"

definition source_diagnostics :: "source_place \<Rightarrow> fav_file \<Rightarrow> diagnostic list" where
  "source_diagnostics place source =
     map (missing_diagnostic place) (missing_metadata source) @
     concat (map (\<lambda>(i, r). map (record_diagnostic place i r) (record_issues (pl_kind place) r))
       (List.enumerate 0 source))"

definition workspace_diagnostics :: "fav_workspace \<Rightarrow> diagnostic list" where
  "workspace_diagnostics w =
     source_diagnostics catalog_place (fc_source (fw_catalog w)) @
     concat (map (\<lambda>(i, d). source_diagnostics (document_place i (hd_filename d)) (fh_source (hd_hierarchy d)))
       (List.enumerate 0 (fw_documents w)))"

subsection \<open>The constructors of diagnostics accept what validation passes them\<close>

definition place_ok :: "source_place \<Rightarrow> bool" where
  "place_ok place \<longleftrightarrow>
     (case pl_kind place of
        CatalogSource \<Rightarrow> pl_document place = None \<and> pl_filename place = None
      | HpdSource \<Rightarrow> pl_document place \<noteq> None \<and> pl_filename place \<noteq> None)"

lemma places_ok [simp]: "place_ok catalog_place" "place_ok (document_place i n)"
  by (simp_all add: place_ok_def catalog_place_def document_place_def)

definition issue_ok :: "fav_record \<Rightarrow> schema_rule \<times> nat option \<Rightarrow> bool" where
  "issue_ok r issue \<longleftrightarrow>
     fst issue \<noteq> MissingRequiredMetadata \<and> (fst issue \<in> field_rules \<longleftrightarrow> snd issue \<noteq> None) \<and>
     (\<forall>k. snd issue = Some k \<longrightarrow> k < length (fr_fields r))"

lemma make_record_diagnostic:
  assumes "place_ok place" and "issue_ok r (rule, k)"
  shows "make_diagnostic rule place (Some i) (fr_command r) k (Some r) =
    Inr (record_diagnostic place i r (rule, k))"
  using assms
  by (auto simp: make_diagnostic_def diagnostic_def record_diagnostic_def place_ok_def issue_ok_def
      check_source_kind_def check_record_def check_rule_def split: source_kind.splits option.splits)

lemma make_missing_diagnostic:
  assumes "place_ok place" and "c \<in> set required_metadata"
  shows "make_diagnostic MissingRequiredMetadata place None c None None = Inr (missing_diagnostic place c)"
  using assms
  by (auto simp: make_diagnostic_def diagnostic_def missing_diagnostic_def place_ok_def
      check_source_kind_def check_record_def check_rule_def field_rules_def split: source_kind.splits)

lemma record_issues_ok: "issue \<in> set (record_issues kind r) \<Longrightarrow> issue_ok r issue"
  by (cases "shapes_of kind (fr_command r)"; cases "name_fields kind (fr_command r)")
    (auto simp: record_issues_def issue_ok_def field_rules_def Let_def)

lemma emit_if_eq:
  "(b \<Longrightarrow> d = Inr x) \<Longrightarrow> rest = Inr xs \<Longrightarrow> emit_if b d rest = Inr (when_list b x @ xs)"
  by (auto simp: emit_if_def when_list_def)

lemma shape_diagnostic_eq:
  assumes "place_ok place"
  shows "shape_diagnostic shape place i r =
    Inr (let few = fr_field_count r < shape_minimum shape in
      if few then Some (record_diagnostic place i r (TooFewFields, None))
      else if \<not> shape_accepts shape (fr_field_count r)
        then Some (record_diagnostic place i r (UnvalidatedExtraFields, None)) else None)"
  using make_record_diagnostic [OF assms, of r TooFewFields None i]
    make_record_diagnostic [OF assms, of r UnvalidatedExtraFields None i]
  by (simp add: shape_diagnostic_def Let_def issue_ok_def field_rules_def)

lemma validate_record_eq:
  assumes "place_ok place"
  shows "validate_record place (i, r) =
    Inr (map (record_diagnostic place i r) (record_issues (pl_kind place) r))"
proof (cases "shapes_of (pl_kind place) (fr_command r)")
  case None
  have "issue_ok r (UnsupportedCommand, None)" by (simp add: issue_ok_def field_rules_def)
  with None show ?thesis
    by (simp add: validate_record_def record_issues_def emit_if_def make_record_diagnostic [OF assms])
next
  case (Some shape)
  have field: "make_diagnostic rule place (Some i) (fr_command r) (Some k) (Some r) =
      Inr (record_diagnostic place i r (rule, Some k))"
    if "rule \<in> field_rules" "k < length (fr_fields r)" for rule k
    using that by (intro make_record_diagnostic [OF assms]) (auto simp: issue_ok_def field_rules_def)
  have rules: "InvalidTargetModel \<in> field_rules" "InvalidFormatVersion \<in> field_rules"
    "UnvalidatedFormatVersion \<in> field_rules" "InvalidNameTag \<in> field_rules"
    by (simp_all add: field_rules_def)
  define name where "name = name_fields (pl_kind place) (fr_command r)"
  have tail: "(case name of None \<Rightarrow> Inr []
      | Some k \<Rightarrow> emit_if (k < length (fr_fields r) \<and> \<not> name_is_supported (fr_fields r ! k))
          (make_diagnostic InvalidNameTag place (Some i) (fr_command r) (Some k) (Some r)) (Inr [])) =
      Inr (when_list (name \<noteq> None \<and> the name < length (fr_fields r) \<and>
        \<not> name_is_supported (fr_fields r ! the name)) (record_diagnostic place i r (InvalidNameTag, name)))"
    using field [OF rules(4)] by (cases name) (auto simp: emit_if_def when_list_def)
  have head: "(case (let few = fr_field_count r < shape_minimum shape in
        if few then Some (record_diagnostic place i r (TooFewFields, None))
        else if \<not> shape_accepts shape (fr_field_count r)
          then Some (record_diagnostic place i r (UnvalidatedExtraFields, None)) else None) of
        None \<Rightarrow> [] | Some d \<Rightarrow> [d]) =
      when_list (fr_field_count r < shape_minimum shape) (record_diagnostic place i r (TooFewFields, None)) @
      when_list (\<not> fr_field_count r < shape_minimum shape \<and> \<not> shape_accepts shape (fr_field_count r))
        (record_diagnostic place i r (UnvalidatedExtraFields, None))"
    by (auto simp: Let_def when_list_def)
  show ?thesis
    by (simp add: validate_record_def Some Let_def shape_diagnostic_eq [OF assms, unfolded Let_def]
        record_issues_def tail [unfolded name_def] head [unfolded Let_def]
        emit_if_eq [OF field [OF rules(1)] refl] emit_if_eq [OF field [OF rules(2)] refl]
        emit_if_eq [OF field [OF rules(3)] refl])
qed

lemma validate_source_eq:
  assumes "place_ok place"
  shows "validate_source place source = Inr (source_diagnostics place source)"
proof -
  have 1: "validate_metadata place source = Inr (map (missing_diagnostic place) (missing_metadata source))"
    unfolding validate_metadata_def missing_metadata_def
    by (rule map_res_Inr_map) (auto intro: make_missing_diagnostic [OF assms])
  have 2: "map_res (validate_record place) (List.enumerate 0 source) =
      Inr (map (\<lambda>(i, r). map (record_diagnostic place i r) (record_issues (pl_kind place) r))
        (List.enumerate 0 source))"
    by (rule map_res_Inr_map) (auto simp: validate_record_eq [OF assms])
  show ?thesis by (simp add: validate_source_def 1 2 source_diagnostics_def)
qed

subsection \<open>Canonical order\<close>

lemma sorted_blocks:
  assumes "\<forall>x \<in> set xs. sorted (map key (g x))"
    and "sorted_wrt (\<lambda>x y. \<forall>a \<in> set (g x). \<forall>b \<in> set (g y). key a \<le> key b) xs"
  shows "sorted (map key (concat (map g xs)))"
  using assms by (induction xs) (auto simp: sorted_append)

lemma sorted_wrt_enumerate: "sorted_wrt (\<lambda>x y. fst x < fst y) (List.enumerate n xs)"
  by (induction xs arbitrary: n) (auto simp: in_set_enumerate_eq)

abbreviation place_key :: "source_place \<Rightarrow> int \<times> int" where
  "place_key place \<equiv>
     (case pl_kind place of
        CatalogSource \<Rightarrow> (0, 0)
      | HpdSource \<Rightarrow> (1, case pl_document place of Some i \<Rightarrow> int i | None \<Rightarrow> -1))"

lemma diagnostic_keys:
  "diagnostic_order_key (missing_diagnostic place c) =
     (fst (place_key place), snd (place_key place), 0, required_metadata_order c, 0)"
  "fst issue \<noteq> MissingRequiredMetadata \<Longrightarrow>
   diagnostic_order_key (record_diagnostic place i r issue) =
     (fst (place_key place), snd (place_key place), 1, int i, record_rule_order (fst issue))"
  by (auto simp: diagnostic_order_key_def missing_diagnostic_def record_diagnostic_def Let_def
      split: source_kind.splits)

lemma record_issues_sorted: "sorted (map (record_rule_order \<circ> fst) (record_issues kind r))"
  by (cases "shapes_of kind (fr_command r)") (auto simp: record_issues_def sorted_append Let_def)

lemma record_block_sorted:
  "sorted (map diagnostic_order_key (map (record_diagnostic place i r) (record_issues kind r)))"
proof -
  have keys: "map diagnostic_order_key (map (record_diagnostic place i r) is) =
      map (\<lambda>k. (fst (place_key place), snd (place_key place), 1, int i, k)) (map (record_rule_order \<circ> fst) is)"
    if "\<forall>issue \<in> set is. issue_ok r issue" for "is"
    using that by (auto simp: diagnostic_keys issue_ok_def)
  have "sorted ks \<Longrightarrow> sorted (map (\<lambda>k. (a, b, c, d, k)) ks)" for ks :: "int list" and a b c d :: int
    by (induction ks) auto
  then show ?thesis
    using record_issues_sorted record_issues_ok keys [of "record_issues kind r"] by metis
qed

lemma source_diagnostics_sorted: "sorted (map diagnostic_order_key (source_diagnostics place source))"
proof -
  define blocks where "blocks = map (\<lambda>(i, r). map (record_diagnostic place i r)
    (record_issues (pl_kind place) r)) (List.enumerate 0 source)"
  have rest: "sorted (map diagnostic_order_key (concat blocks))"
    unfolding blocks_def
  proof (rule sorted_blocks)
    show "sorted_wrt (\<lambda>x y. \<forall>a \<in> set (case x of (i, r) \<Rightarrow> map (record_diagnostic place i r)
          (record_issues (pl_kind place) r)). \<forall>b \<in> set (case y of (i, r) \<Rightarrow>
          map (record_diagnostic place i r) (record_issues (pl_kind place) r)).
        diagnostic_order_key a \<le> diagnostic_order_key b) (List.enumerate 0 source)"
      by (rule sorted_wrt_mono_rel [OF _ sorted_wrt_enumerate])
        (auto simp: diagnostic_keys dest!: record_issues_ok simp: issue_ok_def)
  qed (auto simp: record_block_sorted simp del: map_map)
  have "sorted (map diagnostic_order_key (map (missing_diagnostic place) (missing_metadata source)))"
    by (auto simp: missing_metadata_def required_metadata_def diagnostic_keys required_metadata_order_def)
  moreover have "\<forall>a \<in> set (map (missing_diagnostic place) (missing_metadata source)).
      \<forall>b \<in> set (concat blocks). diagnostic_order_key a \<le> diagnostic_order_key b"
    by (auto simp: blocks_def diagnostic_keys dest!: record_issues_ok simp: issue_ok_def)
  ultimately show ?thesis
    using rest by (auto simp: source_diagnostics_def sorted_append simp flip: blocks_def)
qed

lemma source_diagnostics_place:
  "d \<in> set (source_diagnostics place source) \<Longrightarrow>
     \<exists>a b c. diagnostic_order_key d = (fst (place_key place), snd (place_key place), a, b, c)"
  by (auto simp: source_diagnostics_def diagnostic_keys dest!: record_issues_ok simp: issue_ok_def)

lemma workspace_diagnostics_sorted: "sorted (map diagnostic_order_key (workspace_diagnostics w))"
proof -
  define blocks where "blocks = map (\<lambda>(i, d). source_diagnostics (document_place i (hd_filename d))
    (fh_source (hd_hierarchy d))) (List.enumerate 0 (fw_documents w))"
  have keys: "\<exists>a b c. diagnostic_order_key x = (1, int i, a, b, c)"
    if "x \<in> set (source_diagnostics (document_place i n) f)" for x i n f
    using source_diagnostics_place [OF that] by (simp add: document_place_def)
  have catalog: "\<exists>a b c. diagnostic_order_key x = (0, 0, a, b, c)"
    if "x \<in> set (source_diagnostics catalog_place f)" for x f
    using source_diagnostics_place [OF that] by (simp add: catalog_place_def)
  have "sorted (map diagnostic_order_key (concat blocks))"
    unfolding blocks_def
  proof (rule sorted_blocks)
    show "sorted_wrt (\<lambda>x y. \<forall>a \<in> set (case x of (i, d) \<Rightarrow> source_diagnostics
          (document_place i (hd_filename d)) (fh_source (hd_hierarchy d))).
        \<forall>b \<in> set (case y of (i, d) \<Rightarrow> source_diagnostics (document_place i (hd_filename d))
          (fh_source (hd_hierarchy d))). diagnostic_order_key a \<le> diagnostic_order_key b)
        (List.enumerate 0 (fw_documents w))"
      by (rule sorted_wrt_mono_rel [OF _ sorted_wrt_enumerate]) (auto dest!: keys)
  qed (auto simp: source_diagnostics_sorted)
  moreover have "\<forall>a \<in> set (source_diagnostics catalog_place (fc_source (fw_catalog w))).
      \<forall>b \<in> set (concat blocks). diagnostic_order_key a \<le> diagnostic_order_key b"
    by (auto simp: blocks_def dest!: catalog keys)
  ultimately show ?thesis
    using source_diagnostics_sorted
    by (auto simp: workspace_diagnostics_def sorted_append simp flip: blocks_def)
qed

subsection \<open>The validation result accepts what validation passes it\<close>

lemma source_provenance:
  assumes "d \<in> set (source_diagnostics place source)" and "diagnostic_source w d = Inr source"
  shows "validate_diagnostic_provenance w d = Inr ()"
  using assms
  by (auto simp: source_diagnostics_def validate_diagnostic_provenance_def missing_diagnostic_def
      record_diagnostic_def missing_metadata_def in_set_enumerate_eq image_iff raise_if_def
      dest!: record_issues_ok simp: issue_ok_def)

lemma source_diagnostic_fields:
  assumes "d \<in> set (source_diagnostics place source)"
  shows "dg_source_kind d = pl_kind place" and "dg_document_index d = pl_document place"
    and "dg_filename d = pl_filename place" and "dg_severity d = rule_severity (dg_rule d)"
  using assms by (auto simp: source_diagnostics_def missing_diagnostic_def record_diagnostic_def)

lemma workspace_provenance:
  assumes "d \<in> set (workspace_diagnostics w)"
  shows "validate_diagnostic_provenance w d = Inr ()"
proof -
  from assms consider
      (catalog) "d \<in> set (source_diagnostics catalog_place (fc_source (fw_catalog w)))"
    | (document) i where "i < length (fw_documents w)"
        "d \<in> set (source_diagnostics (document_place i (hd_filename (fw_documents w ! i)))
           (fh_source (hd_hierarchy (fw_documents w ! i))))"
    by (auto simp: workspace_diagnostics_def in_set_enumerate_eq)
  then show ?thesis
  proof cases
    case catalog
    then show ?thesis
      by (rule source_provenance)
        (simp add: diagnostic_source_def source_diagnostic_fields [OF catalog] catalog_place_def)
  next
    case document
    then show ?thesis
      by (intro source_provenance [OF document(2)])
        (simp add: diagnostic_source_def source_diagnostic_fields [OF document(2)] document_place_def)
  qed
qed

lemma check_diagnostics_sorted:
  assumes "\<forall>d \<in> set ds. validate_diagnostic_provenance w d = Inr ()"
    and "sorted (map diagnostic_order_key ds)"
    and "\<forall>d \<in> set ds. case previous of None \<Rightarrow> True | Some k \<Rightarrow> k \<le> diagnostic_order_key d"
  shows "check_diagnostics w previous ds = Inr ()"
  using assms
  by (induction ds arbitrary: previous) (auto simp: raise_if_def Let_def leD split: option.splits)

lemma validate_workspace_eq:
  "validate_favorites_workspace w = Inr \<lparr>sv_workspace = w, sv_diagnostics = workspace_diagnostics w\<rparr>"
proof -
  have "map_res (\<lambda>(i, d). validate_source (document_place i (hd_filename d)) (fh_source (hd_hierarchy d)))
      (List.enumerate 0 (fw_documents w)) =
    Inr (map (\<lambda>(i, d). source_diagnostics (document_place i (hd_filename d)) (fh_source (hd_hierarchy d)))
      (List.enumerate 0 (fw_documents w)))"
    by (rule map_res_Inr_map) (auto simp: validate_source_eq)
  moreover have "check_diagnostics w None (workspace_diagnostics w) = Inr ()"
    by (rule check_diagnostics_sorted) (simp_all add: workspace_provenance workspace_diagnostics_sorted)
  ultimately show ?thesis
    by (simp add: validate_favorites_workspace_def validate_source_eq schema_validation_def
        workspace_diagnostics_def)
qed

section \<open>Validity\<close>

text \<open>What a valid file is, said of its records alone.\<close>

definition record_conforms :: "source_kind \<Rightarrow> fav_record \<Rightarrow> bool" where
  "record_conforms kind r \<longleftrightarrow>
     (case shapes_of kind (fr_command r) of
        None \<Rightarrow> True
      | Some shape \<Rightarrow>
          shape_minimum shape \<le> fr_field_count r \<and>
          (fr_fields r = [] \<or>
            (fr_command r = ''TargetModel'' \<longrightarrow> fr_fields r ! 0 = ''BCDx36HP'') \<and>
            (fr_command r = ''FormatVersion'' \<longrightarrow> format_version_matches (fr_fields r ! 0))) \<and>
          (case name_fields kind (fr_command r) of
             None \<Rightarrow> True
           | Some k \<Rightarrow> k < length (fr_fields r) \<longrightarrow> name_is_supported (fr_fields r ! k)))"

definition file_conforms :: "source_kind \<Rightarrow> fav_file \<Rightarrow> bool" where
  "file_conforms kind source \<longleftrightarrow>
     set required_metadata \<subseteq> fr_command ` set source \<and> list_all (record_conforms kind) source"

definition workspace_conforms :: "fav_workspace \<Rightarrow> bool" where
  "workspace_conforms w \<longleftrightarrow>
     file_conforms CatalogSource (fc_source (fw_catalog w)) \<and>
     list_all (\<lambda>d. file_conforms HpdSource (fh_source (hd_hierarchy d))) (fw_documents w)"

lemma when_list_ball: "(\<forall>x \<in> set (when_list b y). P x) \<longleftrightarrow> (b \<longrightarrow> P y)"
  by (auto simp: when_list_def)

lemma record_issues_conform:
  "(\<forall>issue \<in> set (record_issues kind r). rule_severity (fst issue) \<noteq> SeverityError) \<longleftrightarrow>
   record_conforms kind r"
  by (cases "shapes_of kind (fr_command r)"; cases "name_fields kind (fr_command r)")
    (simp_all add: record_issues_def record_conforms_def Let_def ball_Un when_list_ball, auto)

lemma source_diagnostics_conform:
  "(\<forall>d \<in> set (source_diagnostics place source). dg_severity d \<noteq> SeverityError) \<longleftrightarrow>
   file_conforms (pl_kind place) source"
proof -
  have "(\<forall>ir \<in> set (List.enumerate 0 source).
        \<forall>issue \<in> set (record_issues (pl_kind place) (snd ir)). rule_severity (fst issue) \<noteq> SeverityError) \<longleftrightarrow>
      list_all (record_conforms (pl_kind place)) source"
    unfolding record_issues_conform
    by (simp add: list_all_length all_set_conv_all_nth nth_enumerate_eq)
  moreover have "missing_metadata source = [] \<longleftrightarrow> set required_metadata \<subseteq> fr_command ` set source"
    by (auto simp: missing_metadata_def filter_empty_conv)
  ultimately show ?thesis
    by (auto simp: source_diagnostics_def missing_diagnostic_def record_diagnostic_def
        file_conforms_def ball_Un split_beta)
qed

lemma workspace_diagnostics_conform:
  "(\<forall>d \<in> set (workspace_diagnostics w). dg_severity d \<noteq> SeverityError) \<longleftrightarrow> workspace_conforms w"
proof -
  have "(\<forall>x \<in> set (List.enumerate 0 (fw_documents w)). file_conforms HpdSource (fh_source (hd_hierarchy (snd x)))) \<longleftrightarrow>
      list_all (\<lambda>d. file_conforms HpdSource (fh_source (hd_hierarchy d))) (fw_documents w)"
    by (simp add: list_all_length all_set_conv_all_nth nth_enumerate_eq)
  moreover have "(\<forall>d \<in> set (workspace_diagnostics w). dg_severity d \<noteq> SeverityError) \<longleftrightarrow>
      (\<forall>d \<in> set (source_diagnostics catalog_place (fc_source (fw_catalog w))). dg_severity d \<noteq> SeverityError) \<and>
      (\<forall>x \<in> set (List.enumerate 0 (fw_documents w)).
         \<forall>d \<in> set (source_diagnostics (document_place (fst x) (hd_filename (snd x)))
           (fh_source (hd_hierarchy (snd x)))). dg_severity d \<noteq> SeverityError)"
    by (auto simp: workspace_diagnostics_def)
  ultimately show ?thesis
    by (simp add: source_diagnostics_conform workspace_conforms_def catalog_place_def document_place_def)
qed

section \<open>Properties\<close>

text \<open>C27: Validation is total, complete and ordered. It raises for no workspace, although the
  constructors of its diagnostics and of its result check provenance and canonical order; the
  diagnostics are, for the catalog and then each document, the missing metadata commands and the
  rules each record breaks, in record order; and their order keys ascend.\<close>

theorem schema_validation_total:
  "\<exists>v. validate_favorites_workspace w = Inr v \<and> sv_workspace v = w \<and>
     sv_diagnostics v = workspace_diagnostics w \<and>
     sorted (map diagnostic_order_key (sv_diagnostics v))"
  by (simp add: validate_workspace_eq workspace_diagnostics_sorted)

text \<open>C23: Validity means conformance. The validation result is valid exactly when the catalog and
  every document contain both required metadata commands and every record of a supported command
  has at least its minimum of fields, the right model, a format version of the right form and a
  supported name; unsupported commands, extra fields and unknown versions never make it invalid.\<close>

theorem schema_validity_exact:
  assumes "validate_favorites_workspace w = Inr v"
  shows "sv_is_valid v \<longleftrightarrow> workspace_conforms w"
  using assms workspace_diagnostics_conform [of w]
  by (auto simp: validate_workspace_eq sv_is_valid_def)

lemma schema_validity_exact_witness:
  "\<exists>v. validate_favorites_workspace
     \<lparr>fw_catalog = \<lparr>fc_source = [], fc_metadata_indexes = [], fc_entries = [], fc_unclassified_indexes = []\<rparr>,
      fw_documents = [], fw_bindings = [], fw_missing = [], fw_ambiguous = [], fw_duplicate_catalog = [],
      fw_duplicate_documents = [], fw_orphans = []\<rparr> = Inr v \<and> \<not> sv_is_valid v"
  using schema_validity_exact [OF validate_workspace_eq]
  by (simp add: validate_workspace_eq workspace_conforms_def file_conforms_def required_metadata_def)

end
