(* ===== verification/Favorites_Editing.thy ===== *)
theory Favorites_Editing
  imports Favorites_Schema Py_Text
begin

text \<open>
  \<^verbatim>\<open>src/sds200/favorites_editing.py\<close>: pure edits of one record of a storage snapshot, addressed by
  a target that carries the record it was selected from. Indexes given by a caller are integers,
  since the code checks their sign. A document of the workspace is compared by value where the code
  compares by identity: at that point its file name is known to be unique among the documents.
  Names and field values are Python strings (code points); what they encode to are bytes.
\<close>

section \<open>Targets\<close>

datatype record_source_kind = CatalogRecord | HpdRecord

datatype edit_error =
    EditStorage storage_error
  | EditRecord record_error
  | EditFile file_error
  | EditSchema schema_error
  | TargetIndexNegative
  | CatalogTargetWithDocument
  | CatalogTargetWithFilename
  | HpdTargetDocument
  | HpdTargetFilename
  | DuplicateCatalogFilename
  | ResolvesToDuplicateDocuments
  | MappedDocumentMissing
  | MappedDocumentAmbiguous
  | DuplicateDocuments
  | ReferencedByDuplicates
  | DocumentNotBound
  | DocumentOwnershipAmbiguous
  | SourceIndexNegative
  | CatalogPositionMissing
  | DocumentIndexNegative
  | DocumentPositionMissing
  | HpdPositionMissing
  | SourceKindChanged
  | FilenameChanged
  | RecordChanged
  | AssertionFailed
  | NameNotSupported
  | NoNameField
  | NameFieldMissing
  | FieldIndexNegative
  | FieldIndexOutside
  | FieldNotAscii
  | FieldHasSeparator
  | CatalogDeletion
  | CommandNotDeletable
  | AnchorNotHpd
  | CommandNotCreatable
  | AnchorNotAllowed
  | AnchorWithoutEnding
  | TemplateWithoutEnding
  | CreatedNotValid

record record_target =
  rt_source_kind :: record_source_kind
  rt_source_index :: int
  rt_record :: fav_record
  rt_document_index :: "int option"
  rt_filename :: "string option"

definition record_target :: "record_target \<Rightarrow> edit_error + record_target" where
  "record_target t =
     raise_if (rt_source_index t < 0) TargetIndexNegative
    (case rt_source_kind t of
       CatalogRecord \<Rightarrow>
         raise_if (rt_document_index t \<noteq> None) CatalogTargetWithDocument
        (raise_if (rt_filename t \<noteq> None) CatalogTargetWithFilename (Inr t))
     | HpdRecord \<Rightarrow>
         raise_if (case rt_document_index t of None \<Rightarrow> True | Some i \<Rightarrow> i < 0) HpdTargetDocument
        (raise_if (rt_filename t = None \<or> rt_filename t = Some []) HpdTargetFilename (Inr t)))"

fun name_field_index :: "string \<Rightarrow> nat option" where
  "name_field_index command = map_of
     [(''F-List'', 0), (''Conventional'', 2), (''Trunk'', 2), (''UnitIds'', 2), (''Site'', 2),
      (''C-Group'', 2), (''T-Group'', 2), (''C-Freq'', 2), (''TGID'', 2)] command"

definition deletable_hpd_commands :: "string set" where
  "deletable_hpd_commands = {''C-Freq'', ''TGID'', ''T-Freq'', ''BandPlan_Mot'', ''BandPlan_P25''}"

definition creatable_hpd_commands :: "string set" where
  "creatable_hpd_commands = deletable_hpd_commands"

definition create_after_commands :: "string \<rightharpoonup> string set" where
  "create_after_commands =
     (let site_anchors = {''Site'', ''T-Freq'', ''BandPlan_Mot'', ''BandPlan_P25''} in map_of
       [(''C-Freq'', {''C-Group'', ''C-Freq''}), (''TGID'', {''T-Group'', ''TGID''}),
        (''T-Freq'', site_anchors), (''BandPlan_Mot'', site_anchors), (''BandPlan_P25'', site_anchors)])"

section \<open>Selecting a record\<close>

definition require_unambiguous_catalog_entry :: "fav_workspace \<Rightarrow> int \<Rightarrow> edit_error + unit" where
  "require_unambiguous_catalog_entry w source_index =
     (case List.find (\<lambda>e. int (ce_source_index e) = source_index) (fc_entries (fw_catalog w)) of
        None \<Rightarrow> Inr ()
      | Some entry \<Rightarrow>
          raise_if (ce_filename entry \<in> set (fw_duplicate_catalog w)) DuplicateCatalogFilename
         (raise_if (ce_filename entry \<in> set (fw_duplicate_documents w)) ResolvesToDuplicateDocuments
         (raise_if (entry \<in> set (fw_missing w)) MappedDocumentMissing
         (raise_if (entry \<in> set (fw_ambiguous w)) MappedDocumentAmbiguous (Inr ())))))"

definition require_unambiguous_document :: "fav_workspace \<Rightarrow> int \<Rightarrow> edit_error + unit" where
  "require_unambiguous_document w document_index =
     (let document = fw_documents w ! nat document_index;
          filename = hd_filename document
      in raise_if (filename \<in> set (fw_duplicate_documents w)) DuplicateDocuments
        (raise_if (filename \<in> set (fw_duplicate_catalog w)) ReferencedByDuplicates
        (let bindings = filter (\<lambda>b. wb_document b = document) (fw_bindings w) in
         raise_if (bindings = []) DocumentNotBound
        (raise_if (length bindings \<noteq> 1) DocumentOwnershipAmbiguous (Inr ())))))"

definition select_target ::
  "storage_snapshot \<Rightarrow> int \<Rightarrow> int option \<Rightarrow> edit_error + record_target \<times> fav_file" where
  "select_target snapshot source_index document_index =
     raise_if (source_index < 0) SourceIndexNegative
    (bind_res (map_error EditStorage (project_favorites_storage_snapshot snapshot)) (\<lambda>w.
     case document_index of
       None \<Rightarrow>
         let source = fc_source (fw_catalog w) in
         raise_if (source_index \<ge> int (length source)) CatalogPositionMissing
        (bind_res (require_unambiguous_catalog_entry w source_index) (\<lambda>_.
         bind_res (record_target
             \<lparr>rt_source_kind = CatalogRecord, rt_source_index = source_index,
              rt_record = source ! nat source_index, rt_document_index = None, rt_filename = None\<rparr>)
           (\<lambda>target. Inr (target, source))))
     | Some d \<Rightarrow>
         raise_if (d < 0) DocumentIndexNegative
        (raise_if (d \<ge> int (length (fw_documents w))) DocumentPositionMissing
        (bind_res (require_unambiguous_document w d) (\<lambda>_.
         let document = fw_documents w ! nat d;
             source = fh_source (hd_hierarchy document)
         in raise_if (source_index \<ge> int (length source)) HpdPositionMissing
           (bind_res (record_target
               \<lparr>rt_source_kind = HpdRecord, rt_source_index = source_index,
                rt_record = source ! nat source_index, rt_document_index = Some d,
                rt_filename = Some (hd_filename document)\<rparr>)
             (\<lambda>target. Inr (target, source))))))))"

definition select_favorites_record_target ::
  "storage_snapshot \<Rightarrow> int \<Rightarrow> int option \<Rightarrow> edit_error + record_target" where
  "select_favorites_record_target snapshot source_index document_index =
     bind_res (select_target snapshot source_index document_index) (\<lambda>(target, _). Inr target)"

definition require_current_target :: "storage_snapshot \<Rightarrow> record_target \<Rightarrow> edit_error + fav_file" where
  "require_current_target snapshot target =
     bind_res (select_target snapshot (rt_source_index target) (rt_document_index target))
       (\<lambda>(current, source).
         raise_if (rt_source_kind current \<noteq> rt_source_kind target) SourceKindChanged
        (raise_if (rt_filename current \<noteq> rt_filename target) FilenameChanged
        (raise_if (rt_record current \<noteq> rt_record target) RecordChanged (Inr source))))"

definition snapshot_with_source ::
  "storage_snapshot \<Rightarrow> record_target \<Rightarrow> fav_file \<Rightarrow> edit_error + storage_snapshot" where
  "snapshot_with_source snapshot target source =
     (case rt_source_kind target of
        CatalogRecord \<Rightarrow>
          Inr \<lparr>sn_catalog_bytes = to_bytes source, sn_documents = sn_documents snapshot\<rparr>
      | HpdRecord \<Rightarrow>
          (case rt_document_index target of
             None \<Rightarrow> Inl AssertionFailed
           | Some d \<Rightarrow>
               let original = sn_documents snapshot ! nat d in
               bind_res (map_error EditStorage
                   (storage_document (sd_filename original) (to_bytes source))) (\<lambda>document.
               Inr \<lparr>sn_catalog_bytes = sn_catalog_bytes snapshot,
                    sn_documents = (sn_documents snapshot)[nat d := document]\<rparr>)))"

section \<open>Edits\<close>

definition validate_name :: "pystr \<Rightarrow> edit_error + bytes" where
  "validate_name name =
     raise_if (length name > 64 \<or> (\<exists>c \<in> set name. \<not> (0x20 \<le> c \<and> c \<le> 0x7E))) NameNotSupported
       (Inr (map char_of name))"

definition record_with_name :: "fav_record \<Rightarrow> pystr \<Rightarrow> edit_error + fav_record" where
  "record_with_name r name =
     (case name_field_index (fr_command r) of
        None \<Rightarrow> Inl NoNameField
      | Some field_index \<Rightarrow>
          raise_if (field_index \<ge> length (fr_fields r)) NameFieldMissing
         (bind_res (validate_name name) (\<lambda>encoded_name.
          map_error EditRecord (fav_record
            (join_tab ((split_on tab (fr_content r))[field_index + 1 := encoded_name]))
            (fr_ending r)))))"

text \<open>The common end of every edit: the new snapshot must still project.\<close>

definition intended_snapshot ::
  "storage_snapshot \<Rightarrow> record_target \<Rightarrow> fav_record list \<Rightarrow> edit_error + storage_snapshot \<times> fav_workspace" where
  "intended_snapshot snapshot target records =
     bind_res (map_error EditFile (fav_file records)) (\<lambda>file.
     bind_res (snapshot_with_source snapshot target file) (\<lambda>intended.
     bind_res (map_error EditStorage (project_favorites_storage_snapshot intended)) (\<lambda>w.
     Inr (intended, w))))"

definition replace_favorites_record_field ::
  "storage_snapshot \<Rightarrow> record_target \<Rightarrow> int \<Rightarrow> pystr \<Rightarrow> edit_error + storage_snapshot" where
  "replace_favorites_record_field snapshot target field_index value =
     bind_res (require_current_target snapshot target) (\<lambda>source.
     raise_if (field_index < 0) FieldIndexNegative
    (raise_if (field_index \<ge> int (length (fr_fields (rt_record target)))) FieldIndexOutside
    (raise_if (\<exists>c \<in> set value. 128 \<le> c) FieldNotAscii
    (let encoded_value = map char_of value in
     raise_if (tab \<in> set encoded_value \<or> cr \<in> set encoded_value \<or> lf \<in> set encoded_value)
       FieldHasSeparator
    (bind_res (map_error EditRecord (fav_record
         (join_tab ((split_on tab (fr_content (rt_record target)))[nat field_index + 1 := encoded_value]))
         (fr_ending (rt_record target)))) (\<lambda>replacement.
     bind_res (intended_snapshot snapshot target (source[nat (rt_source_index target) := replacement]))
       (\<lambda>(intended, _). Inr intended)))))))"

definition rename_favorites_record ::
  "storage_snapshot \<Rightarrow> record_target \<Rightarrow> pystr \<Rightarrow> edit_error + storage_snapshot" where
  "rename_favorites_record snapshot target name =
     bind_res (require_current_target snapshot target) (\<lambda>source.
     bind_res (record_with_name (rt_record target) name) (\<lambda>replacement.
     bind_res (intended_snapshot snapshot target (source[nat (rt_source_index target) := replacement]))
       (\<lambda>(intended, _). Inr intended)))"

definition delete_at :: "nat \<Rightarrow> 'a list \<Rightarrow> 'a list" where
  "delete_at i xs = take i xs @ drop (Suc i) xs"

definition insert_at :: "nat \<Rightarrow> 'a \<Rightarrow> 'a list \<Rightarrow> 'a list" where
  "insert_at i x xs = take i xs @ x # drop i xs"

definition delete_favorites_record ::
  "storage_snapshot \<Rightarrow> record_target \<Rightarrow> edit_error + storage_snapshot" where
  "delete_favorites_record snapshot target =
     bind_res (require_current_target snapshot target) (\<lambda>source.
     raise_if (rt_source_kind target \<noteq> HpdRecord) CatalogDeletion
    (raise_if (fr_command (rt_record target) \<notin> deletable_hpd_commands) CommandNotDeletable
    (bind_res (intended_snapshot snapshot target (delete_at (nat (rt_source_index target)) source))
       (\<lambda>(intended, _). Inr intended))))"

definition created_errors ::
  "schema_validation \<Rightarrow> record_target \<Rightarrow> nat \<Rightarrow> diagnostic list" where
  "created_errors validation anchor insertion_index =
     filter (\<lambda>d. dg_severity d = SeverityError \<and>
         map_option int (dg_document_index d) = rt_document_index anchor \<and>
         dg_source_index d = Some insertion_index) (sv_diagnostics validation)"

definition create_favorites_record_after ::
  "storage_snapshot \<Rightarrow> record_target \<Rightarrow> fav_record \<Rightarrow> pystr option \<Rightarrow> edit_error + storage_snapshot" where
  "create_favorites_record_after snapshot anchor template name =
     bind_res (require_current_target snapshot anchor) (\<lambda>source.
     raise_if (rt_source_kind anchor \<noteq> HpdRecord) AnchorNotHpd
    (raise_if (fr_command template \<notin> creatable_hpd_commands) CommandNotCreatable
    (raise_if (fr_command (rt_record anchor) \<notin> the (create_after_commands (fr_command template)))
       AnchorNotAllowed
    (raise_if (fr_ending (rt_record anchor) = []) AnchorWithoutEnding
    (let insertion_index = nat (rt_source_index anchor) + 1 in
     raise_if (insertion_index < length source \<and> fr_ending template = []) TemplateWithoutEnding
    (bind_res (case name of None \<Rightarrow> Inr template | Some n \<Rightarrow> record_with_name template n)
       (\<lambda>replacement.
     bind_res (intended_snapshot snapshot anchor (insert_at insertion_index replacement source))
       (\<lambda>(intended, w).
     bind_res (map_error EditSchema (validate_favorites_workspace w)) (\<lambda>validation.
     raise_if (created_errors validation anchor insertion_index \<noteq> []) CreatedNotValid
       (Inr intended))))))))))"

section \<open>Where a target points\<close>

definition target_bytes :: "storage_snapshot \<Rightarrow> record_target \<Rightarrow> bytes" where
  "target_bytes s t =
     (case rt_source_kind t of
        CatalogRecord \<Rightarrow> sn_catalog_bytes s
      | HpdRecord \<Rightarrow> sd_content (sn_documents s ! nat (the (rt_document_index t))))"

text \<open>The snapshot that differs from \<open>s\<close> in the bytes of the target's file only.\<close>

definition with_target_bytes :: "storage_snapshot \<Rightarrow> record_target \<Rightarrow> bytes \<Rightarrow> storage_snapshot" where
  "with_target_bytes s t b =
     (case rt_source_kind t of
        CatalogRecord \<Rightarrow> \<lparr>sn_catalog_bytes = b, sn_documents = sn_documents s\<rparr>
      | HpdRecord \<Rightarrow>
          let d = nat (the (rt_document_index t)) in
          \<lparr>sn_catalog_bytes = sn_catalog_bytes s,
           sn_documents = (sn_documents s)[d :=
             \<lparr>sd_filename = sd_filename (sn_documents s ! d), sd_content = b\<rparr>]\<rparr>)"

definition target_located :: "storage_snapshot \<Rightarrow> record_target \<Rightarrow> bool" where
  "target_located s t \<longleftrightarrow>
     (case rt_source_kind t of
        CatalogRecord \<Rightarrow> rt_document_index t = None
      | HpdRecord \<Rightarrow> (\<exists>d. rt_document_index t = Some (int d) \<and> d < length (sn_documents s)))"

lemma target_bytes_with [simp]:
  "target_located s t \<Longrightarrow> target_bytes (with_target_bytes s t b) t = b"
  by (auto simp: target_bytes_def with_target_bytes_def target_located_def Let_def
      split: record_source_kind.splits)

lemma rebuild_storage [simp]:
  "\<lparr>sd_filename = sd_filename d, sd_content = sd_content d\<rparr> = d"
  "\<lparr>sn_catalog_bytes = sn_catalog_bytes s, sn_documents = sn_documents s\<rparr> = s"
  by (cases d; simp) (cases s; simp)

lemma with_target_bytes_twice [simp]:
  "with_target_bytes (with_target_bytes s t b) t b' = with_target_bytes s t b'"
  by (cases "nat (the (rt_document_index t)) < length (sn_documents s)")
    (auto simp: with_target_bytes_def Let_def list_update_beyond not_less split: record_source_kind.splits)

lemma with_target_bytes_same [simp]: "with_target_bytes s t (target_bytes s t) = s"
  by (auto simp: with_target_bytes_def target_bytes_def Let_def split: record_source_kind.splits)

lemma snapshot_with_source_Inr:
  assumes "target_located s t"
  shows "snapshot_with_source s t f = Inr s' \<Longrightarrow> s' = with_target_bytes s t (to_bytes f)"
    and "snapshot_ok s \<Longrightarrow> snapshot_with_source s t f = Inr (with_target_bytes s t (to_bytes f))"
  using assms
  by (auto simp: snapshot_with_source_def with_target_bytes_def target_located_def Let_def
      storage_document_def validate_storage_filename_def snapshot_ok_def res_simps
      split: record_source_kind.splits)

lemma fav_file_Inr:
  "fav_file rs = Inr f \<longleftrightarrow> f = rs \<and> (\<forall>r \<in> set (butlast rs). fr_ending r \<noteq> [])"
  by (auto simp: fav_file_def res_simps)

section \<open>Names that are bound once\<close>

lemma bind_workspace_eq:
  "bind_favorites_workspace c ds = Inr w \<longleftrightarrow>
     w = \<lparr>fw_catalog = c, fw_documents = ds,
       fw_bindings = map (\<lambda>e. \<lparr>wb_entry = e, wb_document = hd (matching ds e)\<rparr>)
         (filter (\<lambda>e. length (matching ds e) = 1) (fc_entries c)),
       fw_missing = filter (\<lambda>e. matching ds e = []) (fc_entries c),
       fw_ambiguous = filter (\<lambda>e. 1 < length (matching ds e)) (fc_entries c),
       fw_duplicate_catalog = duplicates_in_order (map ce_filename (fc_entries c)),
       fw_duplicate_documents = duplicates_in_order (map hd_filename ds),
       fw_orphans = filter (\<lambda>d. hd_filename d \<notin> set (map ce_filename (fc_entries c))) ds\<rparr>"
  by (auto simp: bind_favorites_workspace_def bind_fold Let_def)

definition bound_once :: "fav_workspace \<Rightarrow> string \<Rightarrow> bool" where
  "bound_once w name \<longleftrightarrow>
     count_list (map ce_filename (fc_entries (fw_catalog w))) name = 1 \<and>
     count_list (map hd_filename (fw_documents w)) name = 1"

lemma length_matching: "length (matching ds e) = count_list (map hd_filename ds) (ce_filename e)"
  by (induction ds) (auto simp: matching_def)

lemma in_duplicates: "v \<in> set (duplicates_in_order vs) \<longleftrightarrow> 1 < count_list vs v"
proof -
  have "1 < count_list vs v \<Longrightarrow> v \<in> set vs" by (rule ccontr) simp
  then show ?thesis by (auto simp: duplicates_in_order_eq)
qed

lemma matching_unique:
  assumes "count_list (map hd_filename ds) (hd_filename d) = 1" and "d \<in> set ds"
    and "ce_filename e = hd_filename d"
  shows "matching ds e = [d]"
proof -
  have "length (matching ds e) = 1" using assms(1,3) by (simp add: length_matching)
  moreover have "d \<in> set (matching ds e)" using assms(2,3) by (simp add: matching_def)
  ultimately show ?thesis by (auto simp: length_Suc_conv)
qed

lemma length_filter_count: "length (filter (\<lambda>e. f e = v) es) = count_list (map f es) v"
  by (induction es) auto

lemma require_unambiguous_document_iff:
  assumes bind: "bind_favorites_workspace c ds = Inr w" and d: "nat d < length ds"
  shows "require_unambiguous_document w d = Inr () \<longleftrightarrow> bound_once w (hd_filename (ds ! nat d))"
proof -
  let ?doc = "ds ! nat d"
  let ?n = "count_list (map hd_filename ds) (hd_filename ?doc)"
  let ?m = "count_list (map ce_filename (fc_entries c)) (hd_filename ?doc)"
  have mem: "?doc \<in> set ds" using d by simp
  then have pos: "0 < ?n" by (simp add: zero_less_iff_neq_zero count_list_0_iff)
  have bindings: "length (filter (\<lambda>b. wb_document b = ?doc) (fw_bindings w)) = ?m" if "?n = 1"
  proof -
    have "filter (\<lambda>b. wb_document b = ?doc) (fw_bindings w) =
        map (\<lambda>e. \<lparr>wb_entry = e, wb_document = hd (matching ds e)\<rparr>)
          (filter (\<lambda>e. length (matching ds e) = 1 \<and> hd (matching ds e) = ?doc) (fc_entries c))"
      using bind by (simp add: bind_workspace_eq filter_map comp_def conj_commute)
    moreover have "length (matching ds e) = 1 \<and> hd (matching ds e) = ?doc \<longleftrightarrow>
        ce_filename e = hd_filename ?doc" for e
    proof
      assume *: "length (matching ds e) = 1 \<and> hd (matching ds e) = ?doc"
      then have "?doc \<in> set (matching ds e)" by (auto simp: length_Suc_conv)
      then show "ce_filename e = hd_filename ?doc" by (simp add: matching_def)
    qed (use matching_unique [OF that mem] in simp)
    ultimately show ?thesis by (simp add: length_filter_count)
  qed
  have w: "fw_catalog w = c" "fw_documents w = ds"
    "fw_duplicate_catalog w = duplicates_in_order (map ce_filename (fc_entries c))"
    "fw_duplicate_documents w = duplicates_in_order (map hd_filename ds)"
    using bind by (auto simp: bind_workspace_eq)
  have "require_unambiguous_document w d = Inr () \<longleftrightarrow> \<not> 1 < ?n \<and> \<not> 1 < ?m \<and>
      length (filter (\<lambda>b. wb_document b = ?doc) (fw_bindings w)) = 1"
    by (auto simp: require_unambiguous_document_def w Let_def res_simps in_duplicates)
  then show ?thesis using bindings pos w by (auto simp: bound_once_def)
qed

lemma require_unambiguous_catalog_entry_iff:
  assumes bind: "bind_favorites_workspace c ds = Inr w"
  shows "require_unambiguous_catalog_entry w i = Inr () \<longleftrightarrow>
    (case List.find (\<lambda>e. int (ce_source_index e) = i) (fc_entries c) of
       None \<Rightarrow> True | Some e \<Rightarrow> bound_once w (ce_filename e))"
proof (cases "List.find (\<lambda>e. int (ce_source_index e) = i) (fc_entries c)")
  case None
  then show ?thesis using bind by (auto simp: require_unambiguous_catalog_entry_def bind_workspace_eq)
next
  case (Some e)
  then have e: "e \<in> set (fc_entries c)" by (auto simp: find_Some_iff)
  then have "0 < count_list (map ce_filename (fc_entries c)) (ce_filename e)"
    by (auto simp: zero_less_iff_neq_zero count_list_0_iff)
  moreover have w: "fw_catalog w = c" "fw_documents w = ds"
    "fw_duplicate_catalog w = duplicates_in_order (map ce_filename (fc_entries c))"
    "fw_duplicate_documents w = duplicates_in_order (map hd_filename ds)"
    "e \<in> set (fw_missing w) \<longleftrightarrow> length (matching ds e) = 0"
    "e \<in> set (fw_ambiguous w) \<longleftrightarrow> 1 < length (matching ds e)"
    using bind e by (auto simp: bind_workspace_eq)
  ultimately show ?thesis
    by (auto simp: require_unambiguous_catalog_entry_def w Some res_simps in_duplicates bound_once_def
        length_matching)
qed

section \<open>Selecting\<close>

lemma project_snapshot_parts:
  assumes "project_favorites_storage_snapshot s = Inr w"
  obtains src c where "parse_favorites_file (sn_catalog_bytes s) = Inr src"
    and "project_favorites_catalog src = Inr c"
    and "bind_favorites_workspace c (fw_documents w) = Inr w"
    and "list_all2 (\<lambda>d h. project_document d = Inr h) (sn_documents s) (fw_documents w)"
    and "fw_catalog w = c" and "fc_source c = src"
proof -
  obtain src c names ds where 1: "parse_favorites_file (sn_catalog_bytes s) = Inr src"
    "project_favorites_catalog src = Inr c"
    "map_res project_document (sn_documents s) = Inr ds" "bind_favorites_workspace c ds = Inr w"
    using assms unfolding project_favorites_storage_snapshot_def bind_res_eq_Inr map_error_eq_Inr by blast
  with bind_keeps [OF 1(4)] project_catalog_source [OF 1(2)] show thesis
    by (intro that [of src c]) (auto simp: res_simps)
qed

lemma project_document_parse:
  "project_document d = Inr h \<Longrightarrow> parse_favorites_file (sd_content d) = Inr (fh_source (hd_hierarchy h))"
  by (auto simp: project_document_def res_simps dest: project_hierarchy_source)

lemma select_catalog_iff:
  assumes "project_favorites_storage_snapshot s = Inr w"
  shows "select_target s i None = Inr (t, f) \<longleftrightarrow>
    0 \<le> i \<and> nat i < length f \<and> f = fc_source (fw_catalog w) \<and>
    (case List.find (\<lambda>e. int (ce_source_index e) = i) (fc_entries (fw_catalog w)) of
       None \<Rightarrow> True | Some e \<Rightarrow> bound_once w (ce_filename e)) \<and>
    t = \<lparr>rt_source_kind = CatalogRecord, rt_source_index = i, rt_record = f ! nat i,
         rt_document_index = None, rt_filename = None\<rparr>"
proof -
  obtain c where c: "bind_favorites_workspace c (fw_documents w) = Inr w" "fw_catalog w = c"
    using project_snapshot_parts [OF assms] by metis
  show ?thesis
    using assms c(2)
    by (auto simp: select_target_def res_simps record_target_def Let_def
        require_unambiguous_catalog_entry_iff [OF c(1)])
qed

lemma select_document_iff:
  assumes "project_favorites_storage_snapshot s = Inr w"
  shows "select_target s i (Some d) = Inr (t, f) \<longleftrightarrow>
    0 \<le> i \<and> nat i < length f \<and> 0 \<le> d \<and> nat d < length (fw_documents w) \<and>
    (let doc = fw_documents w ! nat d in
     f = fh_source (hd_hierarchy doc) \<and> bound_once w (hd_filename doc) \<and> hd_filename doc \<noteq> [] \<and>
     t = \<lparr>rt_source_kind = HpdRecord, rt_source_index = i, rt_record = f ! nat i,
          rt_document_index = Some d, rt_filename = Some (hd_filename doc)\<rparr>)"
proof -
  obtain c where c: "bind_favorites_workspace c (fw_documents w) = Inr w" "fw_catalog w = c"
    using project_snapshot_parts [OF assms] by metis
  show ?thesis
    using assms c(2)
    by (auto simp: select_target_def res_simps record_target_def Let_def
        require_unambiguous_document_iff [OF c(1)])
qed

lemma current_target:
  assumes "require_current_target s t = Inr f"
  obtains w where "project_favorites_storage_snapshot s = Inr w"
    and "select_target s (rt_source_index t) (rt_document_index t) = Inr (t, f)"
    and "target_located s t" and "parse_favorites_file (target_bytes s t) = Inr f"
    and "0 \<le> rt_source_index t" and "nat (rt_source_index t) < length f"
    and "f ! nat (rt_source_index t) = rt_record t"
proof -
  obtain cur where sel: "select_target s (rt_source_index t) (rt_document_index t) = Inr (cur, f)"
    and eqs: "rt_source_kind cur = rt_source_kind t" "rt_filename cur = rt_filename t"
      "rt_record cur = rt_record t"
    using assms by (auto simp: require_current_target_def res_simps)
  then obtain w where w: "project_favorites_storage_snapshot s = Inr w"
    by (auto simp: select_target_def res_simps)
  show thesis
  proof (cases "rt_document_index t")
    case None
    note sel' = sel [unfolded None select_catalog_iff [OF w]]
    then have cur: "rt_source_kind cur = CatalogRecord" "rt_document_index cur = None"
      "rt_source_index cur = rt_source_index t" "rt_record cur = f ! nat (rt_source_index t)"
      "0 \<le> rt_source_index t" "nat (rt_source_index t) < length f" "f = fc_source (fw_catalog w)"
      by auto
    have t: "cur = t" using eqs cur(2,3) None by (cases t, cases cur) auto
    have "parse_favorites_file (sn_catalog_bytes s) = Inr f"
      using project_snapshot_parts [OF w] cur(7) by metis
    with cur sel t w None show thesis
      by (intro that [of w]) (auto simp: target_located_def target_bytes_def)
  next
    case (Some d)
    note sel' = sel [unfolded Some select_document_iff [OF w] Let_def]
    then have cur: "rt_source_kind cur = HpdRecord" "rt_document_index cur = Some d"
      "rt_source_index cur = rt_source_index t" "rt_record cur = f ! nat (rt_source_index t)"
      "0 \<le> rt_source_index t" "nat (rt_source_index t) < length f" "0 \<le> d"
      "nat d < length (fw_documents w)" "f = fh_source (hd_hierarchy (fw_documents w ! nat d))"
      by auto
    have t: "cur = t" using eqs cur(2,3) Some by (cases t, cases cur) auto
    have docs: "list_all2 (\<lambda>d h. project_document d = Inr h) (sn_documents s) (fw_documents w)"
      using project_snapshot_parts [OF w] by metis
    then have "project_document (sn_documents s ! nat d) = Inr (fw_documents w ! nat d)"
      using cur(8) by (auto simp: list_all2_conv_all_nth)
    from project_document_parse [OF this] t cur sel Some w list_all2_lengthD [OF docs] show thesis
      by (intro that [of w]) (auto simp: target_located_def target_bytes_def intro!: exI [of _ "nat d"])
  qed
qed

section \<open>Editing the lines of a file\<close>

text \<open>Which line may follow which: the adjacency that \<open>lines_canonical\<close> asks for.\<close>

definition line_ok :: "bytes \<times> bytes \<Rightarrow> bool" where
  "line_ok l \<longleftrightarrow> snd l \<in> set line_endings \<and> cr \<notin> set (fst l) \<and> lf \<notin> set (fst l) \<and>
     (snd l = [] \<longrightarrow> fst l \<noteq> [])"

definition joins :: "bytes \<times> bytes \<Rightarrow> bytes \<times> bytes \<Rightarrow> bool" where
  "joins l l' \<longleftrightarrow> snd l \<noteq> [] \<and> (snd l = [cr] \<longrightarrow> l' \<noteq> ([], [lf]))"

lemma lines_canonical_iff: "lines_canonical ls \<longleftrightarrow> list_all line_ok ls \<and> successively joins ls"
proof (induction ls)
  case (Cons l ls)
  then show ?case by (cases l; cases ls) (auto simp: line_ok_def joins_def)
qed simp

lemma canonical_replace:
  assumes "lines_canonical (xs @ (c, e) # ys)" and "line_ok (c', e)" and "c' \<noteq> []"
  shows "lines_canonical (xs @ (c', e) # ys)"
  using assms
  by (cases ys) (auto simp: lines_canonical_iff successively_append_iff successively_Cons joins_def)

lemma canonical_delete:
  assumes "lines_canonical (xs @ l # ys)"
  shows "lines_canonical (xs @ ys) \<longleftrightarrow>
    \<not> (xs \<noteq> [] \<and> ys \<noteq> [] \<and> snd (last xs) = [cr] \<and> hd ys = ([], [lf]))"
  using assms
  by (cases ys; cases "xs = []")
    (auto simp: lines_canonical_iff successively_append_iff successively_Cons joins_def)

lemma canonical_insert:
  assumes "lines_canonical (xs @ ys)" and "xs \<noteq> []" and "snd (last xs) \<noteq> []" and "line_ok l"
    and "fst l \<noteq> []"
  shows "lines_canonical (xs @ l # ys) \<longleftrightarrow>
    ys = [] \<or> snd l \<noteq> [] \<and> \<not> (snd l = [cr] \<and> hd ys = ([], [lf]))"
  using assms
  by (cases ys)
    (auto simp: lines_canonical_iff successively_append_iff successively_Cons joins_def)

text \<open>A record with one field replaced.\<close>

definition with_field :: "nat \<Rightarrow> string \<Rightarrow> fav_record \<Rightarrow> fav_record" where
  "with_field k v r =
     \<lparr>fr_content = join_tab (fr_command r # (fr_fields r)[k := v]), fr_ending = fr_ending r,
      fr_command = fr_command r, fr_fields = (fr_fields r)[k := v]\<rparr>"

lemma is_ascii_iff: "is_ascii s \<longleftrightarrow> (\<forall>c \<in> set s. of_char c < (128 :: nat))"
  by (simp add: is_ascii_def list_all_iff)

lemma record_parts:
  assumes "record_ok r" and "p \<in> insert (fr_command r) (set (fr_fields r))"
  shows "tab \<notin> set p" and "cr \<notin> set p" and "lf \<notin> set p" and "is_ascii p"
proof -
  have "p \<in> set (split_on tab (fr_content r))"
    using assms by (metis list.simps(15) record_ok_def)
  with set_split_on [of tab "fr_content r"] have "set p \<subseteq> set (fr_content r) - {tab}" by blast
  then show "tab \<notin> set p" "cr \<notin> set p" "lf \<notin> set p" "is_ascii p"
    using assms(1) by (auto simp: record_ok_def is_ascii_iff)
qed

lemma with_field_ok:
  assumes "record_ok r" and "tab \<notin> set v" and "cr \<notin> set v" and "lf \<notin> set v" and "is_ascii v"
  shows "record_ok (with_field k v r)"
proof -
  define ps where "ps = fr_command r # (fr_fields r)[k := v]"
  have parts: "tab \<notin> set p" "cr \<notin> set p" "lf \<notin> set p" "is_ascii p" if "p \<in> set ps" for p
  proof -
    have "p = v \<or> p \<in> insert (fr_command r) (set (fr_fields r))"
      using that set_update_subset_insert [of "fr_fields r" k v] by (auto simp: ps_def)
    with assms record_parts [OF assms(1)] show "tab \<notin> set p" "cr \<notin> set p" "lf \<notin> set p" "is_ascii p"
      by auto
  qed
  then have split: "split_on tab (join_tab ps) = ps" by (intro split_join_on) (auto simp: ps_def)
  have chars: "c = tab \<or> (\<exists>p \<in> set ps. c \<in> set p)" if "c \<in> set (join_tab ps)" for c
    using set_join_on [of tab ps] that by blast
  have "cr \<notin> set (join_tab ps)" "lf \<notin> set (join_tab ps)" using chars parts(2,3) by fastforce+
  moreover have "is_ascii (join_tab ps)"
    unfolding is_ascii_iff
  proof
    fix c assume "c \<in> set (join_tab ps)"
    from chars [OF this] parts(4) show "of_char c < (128 :: nat)" by (auto simp: is_ascii_iff)
  qed
  ultimately show ?thesis
    using assms(1) split by (auto simp: record_ok_def with_field_def simp flip: ps_def)
qed

lemma fav_record_with_field:
  assumes "record_ok r" and "tab \<notin> set v" and "cr \<notin> set v" and "lf \<notin> set v" and "is_ascii v"
  shows "fav_record (join_tab ((split_on tab (fr_content r))[k + 1 := v])) (fr_ending r) =
    Inr (with_field k v r)"
proof -
  have "split_on tab (fr_content r) = fr_command r # fr_fields r"
    using assms(1) by (simp add: record_ok_def)
  then show ?thesis
    using with_field_ok [OF assms] by (simp add: fav_record_Inr with_field_def)
qed

lemma validate_name_Inr:
  assumes "validate_name n = Inr v"
  shows "v = map char_of n" and "tab \<notin> set v" and "cr \<notin> set v" and "lf \<notin> set v" and "is_ascii v"
    and "name_is_supported v"
proof -
  have v: "v = map char_of n" and range: "\<forall>c \<in> set n. 0x20 \<le> c \<and> c \<le> 0x7E"
    using assms by (auto simp: validate_name_def res_simps)
  then have code: "of_char x \<in> {0x20 .. (0x7E :: nat)}" if "x \<in> set v" for x
    using that by (auto simp: of_char_of)
  show "v = map char_of n" by (fact v)
  show "tab \<notin> set v" "cr \<notin> set v" "lf \<notin> set v" using code [of tab] code [of cr] code [of lf] by auto
  show "is_ascii v" using code by (fastforce simp: is_ascii_iff)
  have "length v \<le> 64" using assms by (auto simp: validate_name_def res_simps)
  then show "name_is_supported v" using code by (auto simp: name_is_supported_def list_all_iff)
qed

lemma record_with_name_Inr:
  assumes "record_ok r" and "record_with_name r n = Inr r'"
  obtains k v where "name_field_index (fr_command r) = Some k" and "k < length (fr_fields r)"
    and "validate_name n = Inr v" and "r' = with_field k v r" and "record_ok r'"
proof -
  obtain k v where "name_field_index (fr_command r) = Some k" "k < length (fr_fields r)"
    "validate_name n = Inr v"
    "fav_record (join_tab ((split_on tab (fr_content r))[k + 1 := v])) (fr_ending r) = Inr r'"
    using assms(2)
    by (auto simp: record_with_name_def res_simps simp del: name_field_index.simps split: option.splits)
  moreover from this fav_record_with_field [OF assms(1) validate_name_Inr(2-5) [OF this(3)]]
  have "r' = with_field k v r" by simp
  moreover have "record_ok r'" using calculation(4) by (simp add: fav_record_Inr)
  ultimately show thesis using that by blast
qed

lemma with_field_line:
  assumes "k < length (fr_fields r)"
  shows "fr_content (with_field k v r) \<noteq> []" and "fr_ending (with_field k v r) = fr_ending r"
    and "fr_command (with_field k v r) = fr_command r"
  using assms by (auto simp: with_field_def join_on_eq_Nil)

section \<open>What an edit does to the snapshot\<close>

lemma intended_Inr:
  assumes "intended_snapshot s t rs = Inr (s', w')" and "target_located s t"
  shows "s' = with_target_bytes s t (to_bytes rs)" and "project_favorites_storage_snapshot s' = Inr w'"
  using assms snapshot_with_source_Inr(1) [OF assms(2)]
  by (auto simp: intended_snapshot_def res_simps fav_file_Inr)

lemma intended_intro:
  assumes "target_located s t" and "snapshot_ok s" and "\<forall>r \<in> set (butlast rs). fr_ending r \<noteq> []"
    and "project_favorites_storage_snapshot (with_target_bytes s t (to_bytes rs)) = Inr w'"
  shows "intended_snapshot s t rs = Inr (with_target_bytes s t (to_bytes rs), w')"
  using assms snapshot_with_source_Inr(2) [OF assms(1,2)]
  by (simp add: intended_snapshot_def fav_file_Inr [THEN iffD2])

lemma parsed_canonical: "parse_favorites_file b = Inr f \<Longrightarrow> file_canonical f"
  by (metis parse_favorites_file_Inr parse_to_bytes_id parse_to_bytes_iff)

lemma file_canonical_split:
  "file_canonical (xs @ r # ys) \<longleftrightarrow>
     list_all record_ok xs \<and> record_ok r \<and> list_all record_ok ys \<and>
     lines_canonical (map record_line xs @ (fr_content r, fr_ending r) # map record_line ys)"
  by (auto simp: file_canonical_def record_line_def)

lemma canonical_replace_record:
  assumes "file_canonical f" and "i < length f" and "record_ok r'"
    and "fr_ending r' = fr_ending (f ! i)" and "fr_content r' \<noteq> []"
  shows "file_canonical (f[i := r'])"
proof -
  have f: "f = take i f @ f ! i # drop (Suc i) f" by (rule id_take_nth_drop [OF assms(2)])
  have can: "list_all record_ok (take i f)" "list_all record_ok (drop (Suc i) f)"
    "lines_canonical (map record_line (take i f) @ (fr_content (f ! i), fr_ending (f ! i)) #
       map record_line (drop (Suc i) f))"
    using assms(1) f file_canonical_split by metis+
  have "line_ok (fr_content r', fr_ending (f ! i))"
    using assms(3-5) by (auto simp: line_ok_def record_ok_def)
  from canonical_replace [OF can(3) this assms(5)] can(1,2) assms(3,4) show ?thesis
    by (simp add: upd_conv_take_nth_drop [OF assms(2)] file_canonical_split)
qed

lemma canonical_delete_record:
  assumes "file_canonical f" and "i < length f"
  shows "file_canonical (delete_at i f) \<longleftrightarrow>
    \<not> (0 < i \<and> Suc i < length f \<and> fr_ending (f ! (i - 1)) = [cr] \<and>
       fr_content (f ! Suc i) = [] \<and> fr_ending (f ! Suc i) = [lf])"
proof -
  let ?xs = "map record_line (take i f)" and ?ys = "map record_line (drop (Suc i) f)"
  have "f = take i f @ f ! i # drop (Suc i) f" by (rule id_take_nth_drop [OF assms(2)])
  then have can: "list_all record_ok (take i f)" "list_all record_ok (drop (Suc i) f)"
    "lines_canonical (?xs @ (fr_content (f ! i), fr_ending (f ! i)) # ?ys)"
    using assms(1) file_canonical_split by metis+
  have last: "?xs \<noteq> [] \<Longrightarrow> snd (last ?xs) = fr_ending (f ! (i - 1))"
    using assms(2) by (auto simp: last_conv_nth record_line_def min_def)
  have hd: "?ys \<noteq> [] \<Longrightarrow> hd ?ys = (fr_content (f ! Suc i), fr_ending (f ! Suc i))"
    by (auto simp: hd_drop_conv_nth record_line_def hd_map)
  have empty: "?xs \<noteq> [] \<longleftrightarrow> 0 < i" "?ys \<noteq> [] \<longleftrightarrow> Suc i < length f" using assms(2) by auto
  have "file_canonical (delete_at i f) \<longleftrightarrow> lines_canonical (?xs @ ?ys)"
    using can(1,2) by (simp add: file_canonical_def delete_at_def)
  then show ?thesis using canonical_delete [OF can(3)] last hd empty by auto
qed

lemma canonical_insert_record:
  assumes "file_canonical f" and "i < length f" and "fr_ending (f ! i) \<noteq> []" and "record_ok r"
    and "fr_content r \<noteq> []"
  shows "file_canonical (insert_at (Suc i) r f) \<longleftrightarrow>
    Suc i = length f \<or> fr_ending r \<noteq> [] \<and>
      \<not> (fr_ending r = [cr] \<and> fr_content (f ! Suc i) = [] \<and> fr_ending (f ! Suc i) = [lf])"
proof -
  let ?xs = "map record_line (take (Suc i) f)" and ?ys = "map record_line (drop (Suc i) f)"
  have can: "list_all record_ok (take (Suc i) f)" "list_all record_ok (drop (Suc i) f)"
    "lines_canonical (?xs @ ?ys)"
    using assms(1) by (simp_all add: file_canonical_def flip: map_append)
      (metis append_take_drop_id list_all_append)+
  have last: "snd (last ?xs) = fr_ending (f ! i)" "?xs \<noteq> []"
    using assms(2) by (auto simp: take_Suc_conv_app_nth record_line_def)
  have hd: "?ys \<noteq> [] \<Longrightarrow> hd ?ys = (fr_content (f ! Suc i), fr_ending (f ! Suc i))"
    by (auto simp: hd_drop_conv_nth record_line_def hd_map)
  have empty: "?ys = [] \<longleftrightarrow> Suc i = length f" using assms(2) by auto
  have "line_ok (record_line r)" using assms(4,5) by (auto simp: line_ok_def record_ok_def record_line_def)
  then have "lines_canonical (?xs @ record_line r # ?ys) \<longleftrightarrow>
      ?ys = [] \<or> fr_ending r \<noteq> [] \<and> \<not> (fr_ending r = [cr] \<and> hd ?ys = ([], [lf]))"
    using canonical_insert [OF can(3) last(2)] last(1) assms(3,5) by (simp add: record_line_def)
  moreover have "file_canonical (insert_at (Suc i) r f) \<longleftrightarrow>
      lines_canonical (?xs @ record_line r # ?ys)"
    using can(1,2) assms(4) by (simp add: file_canonical_def insert_at_def)
  ultimately show ?thesis using hd empty by auto
qed

lemma rename_Inr:
  assumes "rename_favorites_record s t n = Inr s'"
  obtains f k v w' where "require_current_target s t = Inr f"
    and "name_field_index (fr_command (rt_record t)) = Some k" and "k < length (fr_fields (rt_record t))"
    and "validate_name n = Inr v"
    and "s' = with_target_bytes s t (to_bytes (f[nat (rt_source_index t) := with_field k v (rt_record t)]))"
    and "file_canonical (f[nat (rt_source_index t) := with_field k v (rt_record t)])"
    and "project_favorites_storage_snapshot s' = Inr w'"
proof -
  obtain f r' w' where 1: "require_current_target s t = Inr f" "record_with_name (rt_record t) n = Inr r'"
    "intended_snapshot s t (f[nat (rt_source_index t) := r']) = Inr (s', w')"
    using assms by (auto simp: rename_favorites_record_def res_simps)
  from 1(1) have cur: "target_located s t" "parse_favorites_file (target_bytes s t) = Inr f"
    "nat (rt_source_index t) < length f" "f ! nat (rt_source_index t) = rt_record t"
    by (auto elim: current_target)
  have can: "file_canonical f" by (rule parsed_canonical [OF cur(2)])
  with cur(3,4) have "record_ok (rt_record t)" by (auto simp: file_canonical_def list_all_length)
  from record_with_name_Inr [OF this 1(2)] obtain k v where
    k: "name_field_index (fr_command (rt_record t)) = Some k" "k < length (fr_fields (rt_record t))"
      "validate_name n = Inr v" "r' = with_field k v (rt_record t)" "record_ok r'" .
  have "file_canonical (f[nat (rt_source_index t) := r'])"
    using canonical_replace_record [OF can cur(3) k(5)] cur(4) with_field_line [OF k(2)] k(4) by simp
  with 1 k intended_Inr [OF 1(3) cur(1)] show thesis by (intro that [of f k v w']) auto
qed

lemma delete_Inr:
  assumes "delete_favorites_record s t = Inr s'"
  obtains f w' where "require_current_target s t = Inr f" and "rt_source_kind t = HpdRecord"
    and "fr_command (rt_record t) \<in> deletable_hpd_commands"
    and "s' = with_target_bytes s t (to_bytes (delete_at (nat (rt_source_index t)) f))"
    and "project_favorites_storage_snapshot s' = Inr w'"
proof -
  obtain f w' where 1: "require_current_target s t = Inr f" "rt_source_kind t = HpdRecord"
    "fr_command (rt_record t) \<in> deletable_hpd_commands"
    "intended_snapshot s t (delete_at (nat (rt_source_index t)) f) = Inr (s', w')"
    using assms by (auto simp: delete_favorites_record_def res_simps)
  from 1(1) have "target_located s t" by (auto elim: current_target)
  with 1 intended_Inr [OF 1(4)] show thesis by (intro that) auto
qed

lemma create_Inr:
  assumes "create_favorites_record_after s t template n = Inr s'"
  obtains f r w' where "require_current_target s t = Inr f" and "rt_source_kind t = HpdRecord"
    and "fr_command template \<in> creatable_hpd_commands"
    and "fr_command (rt_record t) \<in> the (create_after_commands (fr_command template))"
    and "fr_ending (rt_record t) \<noteq> []"
    and "Suc (nat (rt_source_index t)) < length f \<longrightarrow> fr_ending template \<noteq> []"
    and "(case n of None \<Rightarrow> Inr template | Some m \<Rightarrow> record_with_name template m) = Inr r"
    and "s' = with_target_bytes s t (to_bytes (insert_at (Suc (nat (rt_source_index t))) r f))"
    and "project_favorites_storage_snapshot s' = Inr w'"
    and "\<exists>v. validate_favorites_workspace w' = Inr v \<and>
      created_errors v t (Suc (nat (rt_source_index t))) = []"
proof -
  let ?i = "nat (rt_source_index t)"
  obtain f r w' v where 1: "require_current_target s t = Inr f" "rt_source_kind t = HpdRecord"
    "fr_command template \<in> creatable_hpd_commands"
    "fr_command (rt_record t) \<in> the (create_after_commands (fr_command template))"
    "fr_ending (rt_record t) \<noteq> []" "Suc ?i < length f \<longrightarrow> fr_ending template \<noteq> []"
    "(case n of None \<Rightarrow> Inr template | Some m \<Rightarrow> record_with_name template m) = Inr r"
    "intended_snapshot s t (insert_at (Suc ?i) r f) = Inr (s', w')"
    "validate_favorites_workspace w' = Inr v" "created_errors v t (Suc ?i) = []"
    using assms by (auto simp: create_favorites_record_after_def res_simps Let_def)
  from 1(1) have "target_located s t" by (auto elim: current_target)
  with 1 intended_Inr [OF 1(8)] show thesis by (intro that) auto
qed

lemma canonical_endings: "file_canonical f \<Longrightarrow> \<forall>r \<in> set (butlast f). fr_ending r \<noteq> []"
  using lines_ending_butlast butlast_record_line by (metis file_canonical_def)

section \<open>Selecting again after an edit\<close>

lemma project_catalog_same:
  assumes "project_favorites_storage_snapshot s = Inr w" and "project_favorites_storage_snapshot s' = Inr w'"
    and "sn_catalog_bytes s' = sn_catalog_bytes s"
  shows "fw_catalog w' = fw_catalog w"
  using project_snapshot_parts [OF assms(1)] project_snapshot_parts [OF assms(2)] assms(3)
  by (metis Inr_inject)

lemma with_target_names [simp]:
  "map sd_filename (sn_documents (with_target_bytes s t b)) = map sd_filename (sn_documents s)"
proof -
  have "map sd_filename (ds[i := \<lparr>sd_filename = sd_filename (ds ! i), sd_content = b\<rparr>]) =
      map sd_filename ds" for ds i
    by (cases "i < length ds") (simp_all add: map_update list_update_same_conv list_update_beyond)
  then show ?thesis
    by (auto simp: with_target_bytes_def Let_def simp del: map_update split: record_source_kind.splits)
qed

lemma snapshot_ok_with [simp]: "snapshot_ok (with_target_bytes s t b) = snapshot_ok s"
proof -
  have "snapshot_ok s' \<longleftrightarrow> list_all (\<lambda>n. \<not> unsafe_filename n) (map sd_filename (sn_documents s'))" for s'
    by (simp add: snapshot_ok_def list_all_iff)
  then show ?thesis by simp
qed

lemma select_kind:
  assumes "select_target s i d = Inr (t, f)"
  shows "rt_source_kind t = (if d = None then CatalogRecord else HpdRecord)"
    and "rt_source_index t = i" and "rt_document_index t = d"
proof -
  obtain w where w: "project_favorites_storage_snapshot s = Inr w"
    using assms by (auto simp: select_target_def bind_res_eq_Inr raise_if_eq_Inr map_error_eq_Inr)
  have "rt_source_kind t = (if d = None then CatalogRecord else HpdRecord) \<and>
      rt_source_index t = i \<and> rt_document_index t = d"
  proof (cases d)
    case None
    then show ?thesis using assms by (simp add: select_catalog_iff [OF w])
  next
    case (Some e)
    then show ?thesis using assms by (simp add: select_document_iff [OF w] Let_def)
  qed
  then show "rt_source_kind t = (if d = None then CatalogRecord else HpdRecord)"
    and "rt_source_index t = i" and "rt_document_index t = d" by blast+
qed

lemma select_after_hpd_edit:
  assumes w: "project_favorites_storage_snapshot s = Inr w"
    and w': "project_favorites_storage_snapshot (with_target_bytes s t b) = Inr w'"
    and sel: "select_target s (rt_source_index t) (rt_document_index t) = Inr (t, f)"
    and hpd: "rt_source_kind t = HpdRecord"
    and b: "parse_favorites_file b = Inr f'" and j: "0 \<le> j" "nat j < length f'"
  shows "select_target (with_target_bytes s t b) j (rt_document_index t) =
    Inr (t\<lparr>rt_source_index := j, rt_record := f' ! nat j\<rparr>, f')"
proof -
  let ?s' = "with_target_bytes s t b"
  obtain d where d: "rt_document_index t = Some d"
    using select_kind(1) [OF sel] hpd by (auto split: if_splits)
  note sel' = sel [unfolded d select_document_iff [OF w] Let_def]
  then have at: "0 \<le> d" "nat d < length (fw_documents w)" "bound_once w (hd_filename (fw_documents w ! nat d))"
    "hd_filename (fw_documents w ! nat d) \<noteq> []" "rt_filename t = Some (hd_filename (fw_documents w ! nat d))"
    by (blast, blast, blast, blast, metis record_target.select_convs(5))
  have bytes: "sn_catalog_bytes ?s' = sn_catalog_bytes s"
    using hpd by (simp add: with_target_bytes_def Let_def)
  have names: "map hd_filename (fw_documents w') = map hd_filename (fw_documents w)"
    using project_names [OF w] project_names [OF w'] by simp
  then have name: "nat d < length (fw_documents w')"
      "hd_filename (fw_documents w' ! nat d) = hd_filename (fw_documents w ! nat d)"
    using at(2) by (metis length_map) (metis at(2) names length_map nth_map)
  have bound: "bound_once w' = bound_once w"
    using names project_catalog_same [OF w w' bytes] by (simp add: fun_eq_iff bound_once_def)
  have docs: "list_all2 (\<lambda>d h. project_document d = Inr h) (sn_documents ?s') (fw_documents w')"
    using project_snapshot_parts [OF w'] by metis
  then have "project_document (sn_documents ?s' ! nat d) = Inr (fw_documents w' ! nat d)"
    using name(1) by (auto simp: list_all2_conv_all_nth)
  moreover have "sd_content (sn_documents ?s' ! nat d) = b"
    using name(1) hpd d list_all2_lengthD [OF docs] by (simp add: with_target_bytes_def Let_def)
  ultimately have f': "f' = fh_source (hd_hierarchy (fw_documents w' ! nat d))"
    using project_document_parse b by fastforce
  show ?thesis
    unfolding d select_document_iff [OF w'] Let_def
    using at j f' name bound hpd d by (cases t) auto
qed

lemma map_filter_update:
  assumes "i < length xs" and "P y = P (xs ! i)" and "g y = g (xs ! i)"
  shows "map g (filter P (xs[i := y])) = map g (filter P xs)"
  by (subst (2) id_take_nth_drop [OF assms(1)]) (simp add: upd_conv_take_nth_drop [OF assms(1)] assms(2,3))

lemma enumerate_update: "List.enumerate n (xs[i := y]) = (List.enumerate n xs)[i := (n + i, y)]"
  by (cases "i < length xs")
    (auto simp: nth_enumerate_eq nth_list_update list_update_beyond intro!: nth_equalityI)

lemma catalog_entries:
  assumes "project_favorites_catalog f = Inr c"
  shows "fc_entries c = entries_of (List.enumerate 0 f)"
  using assms
  by (auto simp: project_favorites_catalog_def catalog_fold split: list.splits)

abbreviation entry_keys :: "catalog_entry list \<Rightarrow> (nat \<times> string) list" where
  "entry_keys es \<equiv> map (\<lambda>e. (ce_source_index e, ce_filename e)) es"

lemma entry_keys_update:
  assumes "project_favorites_catalog f = Inr c" and "project_favorites_catalog (f[i := r']) = Inr c'"
    and "i < length f" and "fr_command r' = fr_command (f ! i)"
    and "is_entry (f ! i) \<longrightarrow> fr_fields r' ! 1 = fr_fields (f ! i) ! 1"
  shows "entry_keys (fc_entries c') = entry_keys (fc_entries c)"
proof -
  have keys: "entry_keys (entries_of irs) =
      map (\<lambda>(i, r). (i, if is_entry r then fr_fields r ! 1 else [])) (filter (is_entry \<circ> snd) irs)" for irs
    by (auto simp: entries_of_def ce_filename_def intro!: map_cong)
  have "entry_keys (entries_of (List.enumerate 0 (f[i := r']))) =
      entry_keys (entries_of (List.enumerate 0 f))"
    unfolding keys enumerate_update
    by (rule map_filter_update) (use assms(3-5) in \<open>auto simp: nth_enumerate_eq is_entry_def\<close>)
  then show ?thesis by (simp add: catalog_entries [OF assms(1)] catalog_entries [OF assms(2)])
qed

lemma find_key:
  "(case List.find (\<lambda>e. int (ce_source_index e) = i) es of None \<Rightarrow> True | Some e \<Rightarrow> Q (ce_filename e)) \<longleftrightarrow>
   (case List.find (\<lambda>p. int (fst p) = i) (entry_keys es) of None \<Rightarrow> True | Some p \<Rightarrow> Q (snd p))"
  by (induction es) auto

lemma select_after_catalog_edit:
  assumes w: "project_favorites_storage_snapshot s = Inr w"
    and w': "project_favorites_storage_snapshot (with_target_bytes s t (to_bytes (f[nat j := r']))) = Inr w'"
    and sel: "select_target s j None = Inr (t, f)"
    and can: "file_canonical (f[nat j := r'])" and cmd: "fr_command r' = fr_command (rt_record t)"
    and filename: "is_entry (rt_record t) \<longrightarrow> fr_fields r' ! 1 = fr_fields (rt_record t) ! 1"
  shows "select_target (with_target_bytes s t (to_bytes (f[nat j := r']))) j None =
    Inr (t\<lparr>rt_record := r'\<rparr>, f[nat j := r'])"
proof -
  let ?f' = "f[nat j := r']"
  note sel = sel [unfolded select_catalog_iff [OF w]]
  have parse: "parse_favorites_file (to_bytes ?f') = Inr ?f'"
    using can parse_to_bytes_iff by (auto simp: file_canonical_def)
  have cat: "project_favorites_catalog f = Inr (fw_catalog w)"
    using project_snapshot_parts [OF w] sel by metis
  have "sn_catalog_bytes (with_target_bytes s t (to_bytes ?f')) = to_bytes ?f'"
    using sel by (simp add: with_target_bytes_def)
  then have cat': "project_favorites_catalog ?f' = Inr (fw_catalog w')"
    using project_snapshot_parts [OF w'] parse by (metis Inr_inject)
  have keys: "entry_keys (fc_entries (fw_catalog w')) = entry_keys (fc_entries (fw_catalog w))"
    using cmd filename sel by (intro entry_keys_update [OF cat cat']) auto
  then have "map ce_filename (fc_entries (fw_catalog w')) = map ce_filename (fc_entries (fw_catalog w))"
    by (metis (no_types, lifting) map_map comp_def map_cong snd_conv)
  moreover have "map hd_filename (fw_documents w') = map hd_filename (fw_documents w)"
    using project_names [OF w] project_names [OF w'] by simp
  ultimately have bound: "bound_once w' = bound_once w" by (simp add: fun_eq_iff bound_once_def)
  have "fc_source (fw_catalog w') = ?f'" by (rule project_catalog_source [OF cat'])
  with sel show ?thesis
    unfolding select_catalog_iff [OF w'] find_key keys bound by (cases t) auto
qed

lemma select_after_rename:
  assumes "rename_favorites_record s t n = Inr s'"
    and "name_field_index (fr_command (rt_record t)) = Some k"
  obtains f w w' v where "project_favorites_storage_snapshot s = Inr w"
    and "parse_favorites_file (target_bytes s t) = Inr f" and "target_located s t"
    and "nat (rt_source_index t) < length f" and "f ! nat (rt_source_index t) = rt_record t"
    and "k < length (fr_fields (rt_record t))" and "validate_name n = Inr v"
    and "s' = with_target_bytes s t (to_bytes (f[nat (rt_source_index t) := with_field k v (rt_record t)]))"
    and "file_canonical (f[nat (rt_source_index t) := with_field k v (rt_record t)])"
    and "select_target s' (rt_source_index t) (rt_document_index t) =
      Inr (t\<lparr>rt_record := with_field k v (rt_record t)\<rparr>,
           f[nat (rt_source_index t) := with_field k v (rt_record t)])"
proof -
  let ?i = "rt_source_index t"
  obtain f v w' where 1: "require_current_target s t = Inr f"
    "k < length (fr_fields (rt_record t))" "validate_name n = Inr v"
    "s' = with_target_bytes s t (to_bytes (f[nat ?i := with_field k v (rt_record t)]))"
    "file_canonical (f[nat ?i := with_field k v (rt_record t)])"
    "project_favorites_storage_snapshot s' = Inr w'"
    using rename_Inr [OF assms(1)] assms(2) by (metis option.inject)
  obtain w where 2: "project_favorites_storage_snapshot s = Inr w"
    "select_target s ?i (rt_document_index t) = Inr (t, f)" "target_located s t"
    "parse_favorites_file (target_bytes s t) = Inr f" "0 \<le> ?i" "nat ?i < length f"
    "f ! nat ?i = rt_record t"
    using current_target [OF 1(1)] by metis
  have parse: "parse_favorites_file (to_bytes (f[nat ?i := with_field k v (rt_record t)])) =
      Inr (f[nat ?i := with_field k v (rt_record t)])"
    using 1(5) parse_to_bytes_iff by (auto simp: file_canonical_def)
  have "select_target s' ?i (rt_document_index t) =
      Inr (t\<lparr>rt_record := with_field k v (rt_record t)\<rparr>, f[nat ?i := with_field k v (rt_record t)])"
  proof (cases "rt_document_index t")
    case None
    have "is_entry (rt_record t) \<longrightarrow> k = 0" using assms(2) by (auto simp: is_entry_def)
    then show ?thesis
      using select_after_catalog_edit [OF 2(1) 1(6) [unfolded 1(4)] 2(2) [unfolded None] 1(5)] None 1(4)
      by (auto simp: with_field_line(3) [OF 1(2)] with_field_def)
  next
    case (Some d)
    then have "rt_source_kind t = HpdRecord" using select_kind(1) [OF 2(2)] by simp
    from select_after_hpd_edit [OF 2(1) 1(6) [unfolded 1(4)] 2(2) this parse 2(5)] 2(6) 1(4)
    show ?thesis by (cases t) simp
  qed
  with 1 2 show thesis by (intro that [of w f v]) auto
qed

section \<open>What creation checks\<close>

lemma in_source_diagnostics:
  "x \<in> set (source_diagnostics place f) \<longleftrightarrow>
     (\<exists>c \<in> set (missing_metadata f). x = missing_diagnostic place c) \<or>
     (\<exists>i < length f. \<exists>issue \<in> set (record_issues (pl_kind place) (f ! i)).
        x = record_diagnostic place i (f ! i) issue)"
  by (force simp: source_diagnostics_def in_set_enumerate_eq)

lemma in_workspace_diagnostics:
  "x \<in> set (workspace_diagnostics w) \<longleftrightarrow>
     x \<in> set (source_diagnostics catalog_place (fc_source (fw_catalog w))) \<or>
     (\<exists>i < length (fw_documents w). x \<in> set (source_diagnostics
        (document_place i (hd_filename (fw_documents w ! i)))
        (fh_source (hd_hierarchy (fw_documents w ! i)))))"
  by (force simp: workspace_diagnostics_def in_set_enumerate_eq)

lemma created_errors_Nil:
  assumes "rt_document_index t = Some (int d)" and "d < length (fw_documents w)"
    and "src = fh_source (hd_hierarchy (fw_documents w ! d))" and "i < length src"
  shows "created_errors \<lparr>sv_workspace = w, sv_diagnostics = workspace_diagnostics w\<rparr> t i = [] \<longleftrightarrow>
    record_conforms HpdSource (src ! i)"
proof -
  let ?place = "document_place d (hd_filename (fw_documents w ! d))"
  have here: "x \<in> set (workspace_diagnostics w) \<and> dg_document_index x = Some d \<and>
        dg_source_index x = Some i \<longleftrightarrow>
      (\<exists>issue \<in> set (record_issues HpdSource (src ! i)). x = record_diagnostic ?place i (src ! i) issue)" for x
  proof
    assume "\<exists>issue \<in> set (record_issues HpdSource (src ! i)). x = record_diagnostic ?place i (src ! i) issue"
    then obtain issue where issue: "issue \<in> set (record_issues HpdSource (src ! i))"
      "x = record_diagnostic ?place i (src ! i) issue" by blast
    then have "x \<in> set (source_diagnostics ?place src)"
      using assms(4) unfolding in_source_diagnostics by (auto simp: document_place_def)
    then have "x \<in> set (workspace_diagnostics w)"
      using assms(2,3) unfolding in_workspace_diagnostics by blast
    with issue(2) show "x \<in> set (workspace_diagnostics w) \<and> dg_document_index x = Some d \<and>
        dg_source_index x = Some i"
      by (simp add: record_diagnostic_def document_place_def)
  qed (use assms(3) in \<open>auto simp: in_workspace_diagnostics in_source_diagnostics missing_diagnostic_def
        record_diagnostic_def catalog_place_def document_place_def\<close>)
  have "created_errors \<lparr>sv_workspace = w, sv_diagnostics = workspace_diagnostics w\<rparr> t i = [] \<longleftrightarrow>
      (\<forall>x. x \<in> set (workspace_diagnostics w) \<and> dg_document_index x = Some d \<and>
        dg_source_index x = Some i \<longrightarrow> dg_severity x \<noteq> SeverityError)"
    using assms(1) by (auto simp: created_errors_def filter_empty_conv)
  also have "\<dots> \<longleftrightarrow>
      (\<forall>issue \<in> set (record_issues HpdSource (src ! i)). rule_severity (fst issue) \<noteq> SeverityError)"
    unfolding here by (auto simp: record_diagnostic_def)
  finally show ?thesis by (simp add: record_issues_conform)
qed

section \<open>A sample snapshot\<close>

definition sample_document :: bytes where
  "sample_document = ''Trunk'' @ [tab, tab, tab] @ ''Old'' @ [lf] @ ''Site'' @ [lf] @
     ''T-Freq'' @ [cr] @ ''T-Freq'' @ [lf] @ [lf]"

definition sample_edit :: storage_snapshot where
  "sample_edit = \<lparr>sn_catalog_bytes = ''F-List'' @ [tab] @ ''A'' @ [tab] @ ''f.hpd'',
     sn_documents = [\<lparr>sd_filename = ''f.hpd'', sd_content = sample_document\<rparr>]\<rparr>"

definition sample_target :: "int \<Rightarrow> fav_record \<Rightarrow> record_target" where
  "sample_target i r = \<lparr>rt_source_kind = HpdRecord, rt_source_index = i, rt_record = r,
     rt_document_index = Some 0, rt_filename = Some ''f.hpd''\<rparr>"

definition sample_system :: fav_record where
  "sample_system = \<lparr>fr_content = ''Trunk'' @ [tab, tab, tab] @ ''Old'', fr_ending = [lf],
     fr_command = ''Trunk'', fr_fields = [[], [], ''Old'']\<rparr>"

definition sample_channel :: fav_record where
  "sample_channel = \<lparr>fr_content = ''T-Freq'', fr_ending = [lf], fr_command = ''T-Freq'', fr_fields = []\<rparr>"

definition sample_group :: fav_record where
  "sample_group = \<lparr>fr_content = ''Site'', fr_ending = [lf], fr_command = ''Site'', fr_fields = []\<rparr>"

definition sample_template :: fav_record where
  "sample_template = \<lparr>fr_content = ''T-Freq'' @ replicate 7 tab, fr_ending = [lf],
     fr_command = ''T-Freq'', fr_fields = replicate 7 []\<rparr>"

lemma sample_target_simps [simp]:
  "rt_source_index (sample_target i r) = i" "rt_record (sample_target i r) = r"
  "rt_source_kind (sample_target i r) = HpdRecord" "rt_document_index (sample_target i r) = Some 0"
  "rt_filename (sample_target i r) = Some ''f.hpd''"
  by (simp_all add: sample_target_def)

lemmas edit_eval = sample_edit_def sample_document_def sample_target_def sample_system_def
  sample_channel_def sample_group_def project_favorites_storage_snapshot_def
  parse_favorites_file_def split_source_lines_start fav_record_def line_endings_def decode_ascii_def
  fav_file_def project_favorites_catalog_def catalog_entry_def validate_storage_filename_def
  unsafe_filename_def windows_drive_def ce_filename_def project_document_def
  project_favorites_hierarchy_def references_def hierarchy_init_def hierarchy_step_def
  step_conventional_def step_trunk_def new_system_def in_trunk_def in_conventional_def map_last_def
  system_supplemental_commands_def
  bind_favorites_workspace_def documents_by_filename_def workspace_binding_def Let_def
  select_target_def require_unambiguous_document_def duplicates_in_order_eq record_target_def
  require_current_target_def intended_snapshot_def snapshot_with_source_def storage_document_def
  to_bytes_def fr_raw_bytes_def

lemma sample_edit_ok: "snapshot_ok sample_edit"
  by (simp add: snapshot_ok_def sample_edit_def unsafe_filename_def windows_drive_def)

lemma sample_char: "char_of (78 :: nat) = CHR ''N''"
  by code_simp

lemma sample_renames:
  "\<exists>s'. rename_favorites_record sample_edit (sample_target 0 sample_system) [78] = Inr s'"
  by (simp add: rename_favorites_record_def record_with_name_def validate_name_def sample_char edit_eval)

lemma sample_deletes:
  "\<exists>s'. delete_favorites_record sample_edit (sample_target 3 sample_channel) = Inr s'"
  by (simp add: delete_favorites_record_def deletable_hpd_commands_def delete_at_def edit_eval)

lemma sample_parse_document:
  "parse_favorites_file (target_bytes sample_edit (sample_target i r)) = Inr
     [sample_system, sample_group, sample_channel\<lparr>fr_ending := [cr]\<rparr>, sample_channel,
      \<lparr>fr_content = [], fr_ending = [lf], fr_command = [], fr_fields = []\<rparr>]"
  by (simp add: target_bytes_def edit_eval)

lemma sample_creates:
  "\<exists>s'. create_favorites_record_after sample_edit (sample_target 1 sample_group) sample_template None = Inr s'"
proof -
  let ?f = "[sample_system, sample_group, sample_template, sample_channel\<lparr>fr_ending := [cr]\<rparr>, sample_channel,
      \<lparr>fr_content = [], fr_ending = [lf], fr_command = [], fr_fields = []\<rparr>]"
  have current: "require_current_target sample_edit (sample_target 1 sample_group) = Inr
      [sample_system, sample_group, sample_channel\<lparr>fr_ending := [cr]\<rparr>, sample_channel,
       \<lparr>fr_content = [], fr_ending = [lf], fr_command = [], fr_fields = []\<rparr>]"
    by (simp add: edit_eval)
  have "\<exists>s' w'. intended_snapshot sample_edit (sample_target 1 sample_group) ?f = Inr (s', w') \<and>
      map (\<lambda>d. fh_source (hd_hierarchy d)) (fw_documents w') = [?f]"
    by (simp add: edit_eval sample_template_def numeral_eq_Suc)
  then obtain s' w' where 1: "intended_snapshot sample_edit (sample_target 1 sample_group) ?f = Inr (s', w')"
    "map (\<lambda>d. fh_source (hd_hierarchy d)) (fw_documents w') = [?f]"
    by (elim exE conjE) (rule that)
  from 1(2) obtain doc where doc: "fw_documents w' = [doc]" "fh_source (hd_hierarchy doc) = ?f"
    by (auto simp: Cons_eq_map_conv)
  have "created_errors \<lparr>sv_workspace = w', sv_diagnostics = workspace_diagnostics w'\<rparr>
      (sample_target 1 sample_group) 2 = []"
    by (subst created_errors_Nil [where d = 0 and src = ?f])
      (simp_all add: doc sample_target_def record_conforms_def sample_template_def hpd_shapes_def
        exactly_def fr_field_count_def numeral_eq_Suc)
  with current 1(1) show ?thesis
    by (simp add: create_favorites_record_after_def sample_target_def sample_group_def
        sample_template_def creatable_hpd_commands_def deletable_hpd_commands_def
        create_after_commands_def insert_at_def validate_workspace_eq numeral_2_eq_2 Let_def)
qed

section \<open>Properties\<close>

text \<open>C14: Renaming changes one field and nothing else. A successful rename replaces the name field of
  the target's record by the encoded name, which the schema supports; its other fields, its command
  and its line ending, every other record of the file and every other file of the snapshot are
  unchanged, and the edited bytes parse to the records with that one replaced.\<close>

theorem rename_changes_only_name:
  assumes "rename_favorites_record s t n = Inr s'"
  shows "\<exists>f k r'. parse_favorites_file (target_bytes s t) = Inr f \<and>
    name_field_index (fr_command (rt_record t)) = Some k \<and>
    (let i = nat (rt_source_index t); r = rt_record t in
     i < length f \<and> f ! i = r \<and> k < length (fr_fields r) \<and>
     fr_command r' = fr_command r \<and> fr_ending r' = fr_ending r \<and>
     fr_fields r' = (fr_fields r)[k := map char_of n] \<and> name_is_supported (fr_fields r' ! k) \<and>
     s' = with_target_bytes s t (to_bytes (take i f) @ fr_raw_bytes r' @ to_bytes (drop (Suc i) f)) \<and>
     parse_favorites_file (target_bytes s' t) = Inr (f[i := r']))"
proof -
  obtain k where k: "name_field_index (fr_command (rt_record t)) = Some k"
    using rename_Inr [OF assms] by metis
  obtain f v where 1: "parse_favorites_file (target_bytes s t) = Inr f" "target_located s t"
    "nat (rt_source_index t) < length f" "f ! nat (rt_source_index t) = rt_record t"
    "k < length (fr_fields (rt_record t))" "validate_name n = Inr v"
    "s' = with_target_bytes s t (to_bytes (f[nat (rt_source_index t) := with_field k v (rt_record t)]))"
    "file_canonical (f[nat (rt_source_index t) := with_field k v (rt_record t)])"
    using select_after_rename [OF assms k] by metis
  have v: "v = map char_of n" by (rule validate_name_Inr [OF 1(6)])
  have "name_is_supported v" by (rule validate_name_Inr [OF 1(6)])
  moreover have "parse_favorites_file (target_bytes s' t) =
      Inr (f[nat (rt_source_index t) := with_field k v (rt_record t)])"
    using 1(2,7,8) parse_to_bytes_iff by (auto simp: file_canonical_def)
  moreover have "to_bytes (f[nat (rt_source_index t) := r']) =
      to_bytes (take (nat (rt_source_index t)) f) @ fr_raw_bytes r' @
      to_bytes (drop (Suc (nat (rt_source_index t))) f)" for r'
    using 1(3) by (simp add: to_bytes_def upd_conv_take_nth_drop)
  moreover have "fr_fields (with_field k v (rt_record t)) = (fr_fields (rt_record t))[k := map char_of n]"
    "fr_fields (with_field k v (rt_record t)) ! k = v"
    using v 1(5) by (simp_all add: with_field_def)
  ultimately show ?thesis
    unfolding Let_def
    using 1(1,3-5,7) k with_field_line(2,3) [OF 1(5)]
    by (intro exI [of _ f] exI [of _ k] exI [of _ "with_field k v (rt_record t)"] conjI) simp_all
qed

lemma rename_changes_only_name_witness:
  "\<exists>s' r'. rename_favorites_record sample_edit (sample_target 0 sample_system) [78] = Inr s' \<and>
     fr_fields r' = [[], [], ''N''] \<and>
     parse_favorites_file (target_bytes s' (sample_target 0 sample_system)) =
       Inr [r', sample_group, sample_channel\<lparr>fr_ending := [cr]\<rparr>, sample_channel,
         \<lparr>fr_content = [], fr_ending = [lf], fr_command = [], fr_fields = []\<rparr>]"
proof -
  obtain s' where s': "rename_favorites_record sample_edit (sample_target 0 sample_system) [78] = Inr s'"
    using sample_renames by blast
  from rename_changes_only_name [OF s'] s' show ?thesis
    by (auto simp: sample_parse_document Let_def sample_system_def sample_char)
qed

text \<open>C21: Renaming can be undone. After a successful rename the same position can be selected again,
  and renaming that target back to the old name, if it was a supported one, restores the snapshot
  byte for byte.\<close>

theorem rename_undo:
  assumes "snapshot_ok s" and "rename_favorites_record s t n = Inr s'"
    and "name_field_index (fr_command (rt_record t)) = Some k"
    and "name_is_supported (fr_fields (rt_record t) ! k)"
  shows "\<exists>t'. select_favorites_record_target s' (rt_source_index t) (rt_document_index t) = Inr t' \<and>
    rename_favorites_record s' t' (map of_char (fr_fields (rt_record t) ! k)) = Inr s"
proof -
  let ?i = "rt_source_index t" and ?old = "fr_fields (rt_record t) ! k"
  obtain f w v where 1: "project_favorites_storage_snapshot s = Inr w"
    "parse_favorites_file (target_bytes s t) = Inr f" "target_located s t"
    "nat ?i < length f" "f ! nat ?i = rt_record t"
    "k < length (fr_fields (rt_record t))" "validate_name n = Inr v"
    "s' = with_target_bytes s t (to_bytes (f[nat ?i := with_field k v (rt_record t)]))"
    "select_target s' ?i (rt_document_index t) =
      Inr (t\<lparr>rt_record := with_field k v (rt_record t)\<rparr>, f[nat ?i := with_field k v (rt_record t)])"
    using select_after_rename [OF assms(2,3)] by metis
  let ?r = "rt_record t" and ?r' = "with_field k v (rt_record t)"
  let ?t' = "t\<lparr>rt_record := ?r'\<rparr>"
  have can: "file_canonical f" by (rule parsed_canonical [OF 1(2)])
  then have ok: "record_ok ?r" using 1(4,5) by (auto simp: file_canonical_def list_all_length)
  have current: "require_current_target s' ?t' = Inr (f[nat ?i := ?r'])"
    using 1(9) by (simp add: require_current_target_def)
  have old: "validate_name (map of_char ?old) = Inr ?old"
    using assms(4) by (auto simp: validate_name_def name_is_supported_def list_all_iff comp_def raise_if_def)
  have "fr_content ?r = join_tab (fr_command ?r # fr_fields ?r)"
    using ok join_split_on [of tab "fr_content ?r"] by (simp add: record_ok_def)
  then have restored: "with_field k ?old ?r' = ?r" by (cases ?r) (simp add: with_field_def)
  have "record_ok ?r'" using with_field_ok [OF ok] validate_name_Inr [OF 1(7)] by simp
  then have "record_with_name ?r' (map of_char ?old) = Inr ?r"
    using assms(3) 1(6) old restored fav_record_with_field [OF \<open>record_ok ?r'\<close> validate_name_Inr(2-5) [OF old]]
    by (simp add: record_with_name_def with_field_def del: name_field_index.simps)
  moreover have "intended_snapshot s' ?t' (f[nat ?i := ?r', nat ?i := ?r]) = Inr (s, w)"
  proof -
    have same: "with_target_bytes s' ?t' b = with_target_bytes s t b" for b
      using 1(8) with_target_bytes_twice [of s t _ b]
      by (simp add: with_target_bytes_def cong: record_source_kind.case_cong)
    have loc: "target_located s' ?t'"
      using 1(3,8) by (auto simp: target_located_def with_target_bytes_def Let_def split: record_source_kind.splits)
    have same_file: "f[nat ?i := ?r', nat ?i := ?r] = f" using 1(5) list_update_id [of f "nat ?i"] by simp
    have bytes: "to_bytes f = target_bytes s t" by (rule parse_to_bytes_id [OF 1(2)])
    show ?thesis
      using intended_intro [OF loc, of f w] canonical_endings [OF can] assms(1) 1(8) same bytes 1(1) same_file by simp
  qed
  ultimately have "rename_favorites_record s' ?t' (map of_char ?old) = Inr s"
    using current by (simp add: rename_favorites_record_def)
  with 1(9) show ?thesis by (auto simp: select_favorites_record_target_def)
qed

lemma rename_undo_witness:
  "\<exists>s' t'. rename_favorites_record sample_edit (sample_target 0 sample_system) [78] = Inr s' \<and>
     rename_favorites_record s' t' (map of_char ''Old'') = Inr sample_edit"
proof -
  obtain s' where s': "rename_favorites_record sample_edit (sample_target 0 sample_system) [78] = Inr s'"
    using sample_renames by blast
  have "name_field_index (fr_command (rt_record (sample_target 0 sample_system))) = Some 2"
    "name_is_supported (fr_fields (rt_record (sample_target 0 sample_system)) ! 2)"
    by (simp_all add: sample_system_def name_is_supported_def)
  from rename_undo [OF sample_edit_ok s' this] s' show ?thesis
    by (auto simp: sample_system_def)
qed

text \<open>C16: What deletion removes. A successful deletion was aimed at a leaf record of a document, by
  its exact position and content; the document's new bytes are those of the remaining records and
  every other file is unchanged. The remaining records are read back as they were unless the
  deletion brings a record that ends in a carriage return next to an empty record that ends in a
  line feed: their two line endings then read as one, and the empty record is gone as well.\<close>

theorem delete_removes_one_record:
  assumes "delete_favorites_record s t = Inr s'"
  shows "\<exists>f. parse_favorites_file (target_bytes s t) = Inr f \<and>
    rt_source_kind t = HpdRecord \<and> fr_command (rt_record t) \<in> deletable_hpd_commands \<and>
    (let i = nat (rt_source_index t) in
     i < length f \<and> f ! i = rt_record t \<and>
     s' = with_target_bytes s t (to_bytes (take i f) @ to_bytes (drop (Suc i) f)) \<and>
     (parse_favorites_file (target_bytes s' t) = Inr (take i f @ drop (Suc i) f) \<longleftrightarrow>
      \<not> (0 < i \<and> Suc i < length f \<and> fr_ending (f ! (i - 1)) = [cr] \<and>
         fr_content (f ! Suc i) = [] \<and> fr_ending (f ! Suc i) = [lf])))"
proof -
  let ?i = "nat (rt_source_index t)"
  obtain f where 1: "require_current_target s t = Inr f" "rt_source_kind t = HpdRecord"
    "fr_command (rt_record t) \<in> deletable_hpd_commands"
    "s' = with_target_bytes s t (to_bytes (delete_at ?i f))"
    using delete_Inr [OF assms] by metis
  have 2: "target_located s t" "parse_favorites_file (target_bytes s t) = Inr f" "?i < length f"
    "f ! ?i = rt_record t"
    using current_target [OF 1(1)] by metis+
  have can: "file_canonical f" by (rule parsed_canonical [OF 2(2)])
  then have "list_all record_ok (delete_at ?i f)"
    by (auto simp: file_canonical_def delete_at_def list_all_iff dest: in_set_takeD in_set_dropD)
  then have "parse_favorites_file (target_bytes s' t) = Inr (delete_at ?i f) \<longleftrightarrow>
      file_canonical (delete_at ?i f)"
    using 1(4) 2(1) by (simp add: parse_to_bytes_iff)
  then show ?thesis
    using 1 2 canonical_delete_record [OF can 2(3)]
    by (intro exI [of _ f]) (auto simp: Let_def delete_at_def to_bytes_def)
qed

lemma delete_removes_one_record_witness:
  "\<exists>s'. delete_favorites_record sample_edit (sample_target 3 sample_channel) = Inr s' \<and>
     parse_favorites_file (target_bytes s' (sample_target 3 sample_channel)) \<noteq>
       Inr [sample_system, sample_group, sample_channel\<lparr>fr_ending := [cr]\<rparr>,
         \<lparr>fr_content = [], fr_ending = [lf], fr_command = [], fr_fields = []\<rparr>]"
proof -
  obtain s' where s': "delete_favorites_record sample_edit (sample_target 3 sample_channel) = Inr s'"
    using sample_deletes by blast
  have "nat (rt_source_index (sample_target 3 sample_channel)) = 3" by simp
  with delete_removes_one_record [OF s'] s' show ?thesis
    by (auto simp: sample_parse_document Let_def numeral_eq_Suc)
qed

lemma create_then_select:
  assumes "snapshot_ok s" and "create_favorites_record_after s t template name = Inr s'"
    and "record_ok template"
    and "fr_ending template = [cr] \<longrightarrow> (\<forall>f. parse_favorites_file (target_bytes s t) = Inr f \<longrightarrow>
      (let j = Suc (nat (rt_source_index t)) in
       j < length f \<longrightarrow> (fr_content (f ! j), fr_ending (f ! j)) \<noteq> ([], [lf])))"
  obtains f r w w' where
    "record_ok r \<and> fr_command r = fr_command template \<and> fr_ending r = fr_ending template \<and>
      (name = None \<longrightarrow> r = template)"
    and "select_target s' (rt_source_index t + 1) (rt_document_index t) =
      Inr (t\<lparr>rt_source_index := rt_source_index t + 1, rt_record := r\<rparr>,
        insert_at (Suc (nat (rt_source_index t))) r f)"
    and "s' = with_target_bytes s t (to_bytes (insert_at (Suc (nat (rt_source_index t))) r f))"
    and "project_favorites_storage_snapshot s = Inr w" and "project_favorites_storage_snapshot s' = Inr w'"
    and "select_target s (rt_source_index t) (rt_document_index t) = Inr (t, f)"
    and "target_located s t" and "parse_favorites_file (target_bytes s t) = Inr f"
    and "0 \<le> rt_source_index t" and "nat (rt_source_index t) < length f"
    and "rt_source_kind t = HpdRecord" and "fr_command template \<in> creatable_hpd_commands"
    and "\<exists>v. validate_favorites_workspace w' = Inr v \<and> created_errors v t (Suc (nat (rt_source_index t))) = []"
proof -
  let ?i = "nat (rt_source_index t)"
  obtain f r w' where 1: "require_current_target s t = Inr f" "rt_source_kind t = HpdRecord"
    "fr_command template \<in> creatable_hpd_commands" "fr_ending (rt_record t) \<noteq> []"
    "Suc ?i < length f \<longrightarrow> fr_ending template \<noteq> []"
    "(case name of None \<Rightarrow> Inr template | Some m \<Rightarrow> record_with_name template m) = Inr r"
    "s' = with_target_bytes s t (to_bytes (insert_at (Suc ?i) r f))"
    "project_favorites_storage_snapshot s' = Inr w'"
    "\<exists>v. validate_favorites_workspace w' = Inr v \<and> created_errors v t (Suc ?i) = []"
    using create_Inr [OF assms(2)] by metis
  obtain w where 2: "project_favorites_storage_snapshot s = Inr w"
    "select_target s (rt_source_index t) (rt_document_index t) = Inr (t, f)" "target_located s t"
    "parse_favorites_file (target_bytes s t) = Inr f" "0 \<le> rt_source_index t" "?i < length f"
    "f ! ?i = rt_record t"
    using current_target [OF 1(1)] by metis
  have can: "file_canonical f" by (rule parsed_canonical [OF 2(4)])
  have r: "record_ok r \<and> fr_command r = fr_command template \<and> fr_ending r = fr_ending template \<and>
      (name = None \<longrightarrow> r = template)"
  proof (cases name)
    case None
    then show ?thesis using 1(6) assms(3) by simp
  next
    case (Some m)
    then have "record_with_name template m = Inr r" using 1(6) by simp
    from record_with_name_Inr [OF assms(3) this] Some show ?thesis
      by (metis option.discI with_field_line(2,3))
  qed
  have "fr_command r \<noteq> []" using r 1(3) by (auto simp: creatable_hpd_commands_def deletable_hpd_commands_def)
  then have content: "fr_content r \<noteq> []" using r by (auto simp: record_ok_def)
  let ?g = "insert_at (Suc ?i) r f"
  have "file_canonical ?g"
    using canonical_insert_record [OF can 2(6) _ _ content] 1(4,5) 2(4,6,7) r assms(4)
    by (auto simp: Let_def less_Suc_eq)
  then have parse: "parse_favorites_file (to_bytes ?g) = Inr ?g"
    using parse_to_bytes_iff by (auto simp: file_canonical_def)
  have len: "length ?g = Suc (length f)" using 2(6) by (simp add: insert_at_def)
  have at: "?g ! Suc ?i = r" using 2(6) by (simp add: insert_at_def nth_append)
  let ?t' = "t\<lparr>rt_source_index := rt_source_index t + 1, rt_record := r\<rparr>"
  have nat: "nat (rt_source_index t + 1) = Suc ?i" using 2(5) by simp
  have sel: "select_target s' (rt_source_index t + 1) (rt_document_index t) = Inr (?t', ?g)"
    using select_after_hpd_edit [OF 2(1) 1(8) [unfolded 1(7)] 2(2) 1(2) parse, of "rt_source_index t + 1"]
      2(5,6) at len nat 1(7) by simp
  show thesis
    by (rule that [OF r sel 1(7) 2(1) 1(8) 2(2,3,4,5,6) 1(2,3,9)])
qed

lemma created_deletes:
  assumes "snapshot_ok s" and "s' = with_target_bytes s t (to_bytes (insert_at (Suc (nat (rt_source_index t))) r f))"
    and "project_favorites_storage_snapshot s = Inr w" and "project_favorites_storage_snapshot s' = Inr w'"
    and "select_target s (rt_source_index t) (rt_document_index t) = Inr (t, f)" and "target_located s t"
    and "parse_favorites_file (target_bytes s t) = Inr f" and "0 \<le> rt_source_index t"
    and "nat (rt_source_index t) < length f" and "rt_source_kind t = HpdRecord"
    and "select_target s' (rt_source_index t + 1) (rt_document_index t) =
      Inr (t\<lparr>rt_source_index := rt_source_index t + 1, rt_record := r\<rparr>,
        insert_at (Suc (nat (rt_source_index t))) r f)"
    and "fr_command r \<in> creatable_hpd_commands"
  shows "delete_favorites_record s' (t\<lparr>rt_source_index := rt_source_index t + 1, rt_record := r\<rparr>) = Inr s"
proof -
  let ?t' = "t\<lparr>rt_source_index := rt_source_index t + 1, rt_record := r\<rparr>"
  let ?i = "nat (rt_source_index t)"
  have can: "file_canonical f" by (rule parsed_canonical [OF assms(7)])
  have gone: "delete_at (Suc ?i) (insert_at (Suc ?i) r f) = f"
    using assms(9) by (simp add: insert_at_def delete_at_def)
  have nat: "nat (rt_source_index t + 1) = Suc ?i" using assms(8) by simp
  have current: "require_current_target s' ?t' = Inr (insert_at (Suc ?i) r f)"
    using assms(11) by (simp add: require_current_target_def)
  have same: "with_target_bytes s' ?t' b = with_target_bytes s t b" for b
    using assms(2) with_target_bytes_twice [of s t _ b]
    by (simp add: with_target_bytes_def cong: record_source_kind.case_cong)
  have loc: "target_located s' ?t'"
    using assms(2,6) by (auto simp: target_located_def with_target_bytes_def Let_def split: record_source_kind.splits)
  have ok: "snapshot_ok s'" using snapshot_ok_with assms(1,2) by simp
  have "intended_snapshot s' ?t' f = Inr (s, w)"
    using intended_intro [OF loc ok, of f w] same parse_to_bytes_id [OF assms(7)] assms(3) canonical_endings [OF can]
    by simp
  then show ?thesis
    using current gone nat assms(10,12) by (simp add: delete_favorites_record_def creatable_hpd_commands_def)
qed

lemma created_conforms:
  assumes "project_favorites_storage_snapshot s' = Inr w'"
    and "select_target s (rt_source_index t) (rt_document_index t) = Inr (t, f)"
    and "nat (rt_source_index t) < length f" and "rt_source_kind t = HpdRecord"
    and sel: "select_target s' (rt_source_index t + 1) (rt_document_index t) =
      Inr (t', insert_at (Suc (nat (rt_source_index t))) r f)"
    and "\<exists>v. validate_favorites_workspace w' = Inr v \<and> created_errors v t (Suc (nat (rt_source_index t))) = []"
  shows "record_conforms HpdSource r"
proof -
  let ?i = "nat (rt_source_index t)" and ?g = "insert_at (Suc (nat (rt_source_index t))) r f"
  obtain d where d: "rt_document_index t = Some d"
    using select_kind(1) [OF assms(2)] assms(4) by (auto split: if_splits)
  note at_d = sel [unfolded d select_document_iff [OF assms(1)] Let_def]
  have "created_errors \<lparr>sv_workspace = w', sv_diagnostics = workspace_diagnostics w'\<rparr> t (Suc ?i) = []"
    using assms(6) by (simp add: validate_workspace_eq)
  moreover have "length ?g = Suc (length f)" "?g ! Suc ?i = r"
    using assms(3) by (simp_all add: insert_at_def nth_append)
  ultimately show ?thesis
    using created_errors_Nil [of t "nat d" w' ?g "Suc ?i"] d at_d assms(3) by force
qed

text \<open>C13: Deletion undoes creation. Unless the new record's own line ending is read as one with an
  empty record after it, the created record can be selected at the position after its anchor, is the
  template (renamed if a name was given), and deleting it restores the snapshot byte for byte.\<close>

theorem create_then_delete:
  assumes "snapshot_ok s" and "create_favorites_record_after s t template name = Inr s'"
    and "record_ok template"
    and "fr_ending template = [cr] \<longrightarrow> (\<forall>f. parse_favorites_file (target_bytes s t) = Inr f \<longrightarrow>
      (let j = Suc (nat (rt_source_index t)) in
       j < length f \<longrightarrow> (fr_content (f ! j), fr_ending (f ! j)) \<noteq> ([], [lf])))"
  shows "\<exists>t'. select_favorites_record_target s' (rt_source_index t + 1) (rt_document_index t) = Inr t' \<and>
    fr_command (rt_record t') = fr_command template \<and> fr_ending (rt_record t') = fr_ending template \<and>
    (name = None \<longrightarrow> rt_record t' = template) \<and> record_conforms HpdSource (rt_record t') \<and>
    delete_favorites_record s' t' = Inr s"
proof -
  let ?i = "nat (rt_source_index t)"
  obtain f r w w' where r: "record_ok r \<and> fr_command r = fr_command template \<and>
      fr_ending r = fr_ending template \<and> (name = None \<longrightarrow> r = template)"
    and sel: "select_target s' (rt_source_index t + 1) (rt_document_index t) =
      Inr (t\<lparr>rt_source_index := rt_source_index t + 1, rt_record := r\<rparr>, insert_at (Suc ?i) r f)"
    and s': "s' = with_target_bytes s t (to_bytes (insert_at (Suc ?i) r f))"
    and w: "project_favorites_storage_snapshot s = Inr w" "project_favorites_storage_snapshot s' = Inr w'"
    and t: "select_target s (rt_source_index t) (rt_document_index t) = Inr (t, f)" "target_located s t"
      "parse_favorites_file (target_bytes s t) = Inr f" "0 \<le> rt_source_index t" "?i < length f"
      "rt_source_kind t = HpdRecord"
    and kind: "fr_command template \<in> creatable_hpd_commands"
    and v: "\<exists>v. validate_favorites_workspace w' = Inr v \<and> created_errors v t (Suc ?i) = []"
    by (rule create_then_select [OF assms])
  let ?t' = "t\<lparr>rt_source_index := rt_source_index t + 1, rt_record := r\<rparr>"
  have "delete_favorites_record s' ?t' = Inr s"
    using r kind by (intro created_deletes [OF assms(1) s' w t sel]) simp
  moreover have "record_conforms HpdSource r"
    by (rule created_conforms [OF w(2) t(1,5,6) sel v])
  ultimately show ?thesis using sel r by (auto simp: select_favorites_record_target_def)
qed

lemma create_then_delete_witness:
  "\<exists>s' t'. create_favorites_record_after sample_edit (sample_target 1 sample_group) sample_template None = Inr s' \<and>
     rt_record t' = sample_template \<and> delete_favorites_record s' t' = Inr sample_edit"
proof -
  obtain s' where s': "create_favorites_record_after sample_edit (sample_target 1 sample_group) sample_template None =
      Inr s'"
    using sample_creates by blast
  have "record_ok sample_template" "fr_ending sample_template \<noteq> [cr]"
    by (simp_all add: record_ok_def sample_template_def line_endings_def numeral_eq_Suc)
  with create_then_delete [OF sample_edit_ok s'] s' show ?thesis by auto
qed

definition edited :: "storage_snapshot \<Rightarrow> record_target \<Rightarrow> storage_snapshot \<Rightarrow> bool" where
  "edited s t s' \<longleftrightarrow>
     (\<exists>k v. replace_favorites_record_field s t k v = Inr s') \<or>
     (\<exists>n. rename_favorites_record s t n = Inr s') \<or> delete_favorites_record s t = Inr s' \<or>
     (\<exists>r n. create_favorites_record_after s t r n = Inr s')"

lemma edited_Inr:
  assumes "edited s t s'"
  obtains f rs w' where "require_current_target s t = Inr f" and "intended_snapshot s t rs = Inr (s', w')"
  using assms
  by (auto simp: edited_def replace_favorites_record_field_def rename_favorites_record_def Let_def
      delete_favorites_record_def create_favorites_record_after_def res_simps)

text \<open>C15: No edit without evidence. Whatever the edit, it succeeds only if selecting the target's
  position in the snapshot at hand gives exactly that target, so a stale one is refused; if the
  position is in a document, exactly one document and one catalog entry carry its name; the edit
  changes at most the target's own file, keeps every file name, and its result still projects to a
  workspace.\<close>

theorem edits_need_current_target:
  assumes "edited s t s'"
  shows "select_favorites_record_target s (rt_source_index t) (rt_document_index t) = Inr t \<and>
    (\<exists>w w' b. project_favorites_storage_snapshot s = Inr w \<and>
       project_favorites_storage_snapshot s' = Inr w' \<and> s' = with_target_bytes s t b \<and>
       map hd_filename (fw_documents w') = map hd_filename (fw_documents w) \<and>
       (rt_source_kind t = CatalogRecord \<or>
        (\<exists>n. rt_filename t = Some n \<and> count_list (map hd_filename (fw_documents w)) n = 1 \<and>
          count_list (map ce_filename (fc_entries (fw_catalog w))) n = 1)))"
proof -
  obtain f rs w' where 1: "require_current_target s t = Inr f" "intended_snapshot s t rs = Inr (s', w')"
    using edited_Inr [OF assms] .
  obtain w where 2: "project_favorites_storage_snapshot s = Inr w"
    "select_target s (rt_source_index t) (rt_document_index t) = Inr (t, f)" "target_located s t"
    using current_target [OF 1(1)] by metis
  note 3 = intended_Inr [OF 1(2) 2(3)]
  have names: "map hd_filename (fw_documents w') = map hd_filename (fw_documents w)"
    using project_names [OF 2(1)] project_names [OF 3(2)] 3(1) by simp
  have "rt_source_kind t = CatalogRecord \<or> (\<exists>n. rt_filename t = Some n \<and> bound_once w n)"
  proof (cases "rt_document_index t")
    case None
    then show ?thesis using select_kind(1) [OF 2(2)] by simp
  next
    case (Some d)
    from 2(2) [unfolded Some select_document_iff [OF 2(1)] Let_def]
    have "bound_once w (hd_filename (fw_documents w ! nat d))"
      "rt_filename t = Some (hd_filename (fw_documents w ! nat d))"
      by (blast, metis record_target.select_convs(5))
    then show ?thesis by blast
  qed
  with 2 3 names show ?thesis
    by (auto simp: select_favorites_record_target_def bound_once_def)
qed

lemma edits_need_current_target_witness:
  "\<exists>s'. edited sample_edit (sample_target 3 sample_channel) s' \<and>
     select_favorites_record_target sample_edit 3 (Some 0) = Inr (sample_target 3 sample_channel)"
proof -
  obtain s' where "delete_favorites_record sample_edit (sample_target 3 sample_channel) = Inr s'"
    using sample_deletes by blast
  then have "edited sample_edit (sample_target 3 sample_channel) s'" by (simp add: edited_def)
  with edits_need_current_target [OF this] show ?thesis by auto
qed

end
