(* ===== verification/Sequence_Matcher.thy ===== *)
theory Sequence_Matcher
  imports Prelude "HOL-Library.Product_Lexorder" "HOL-Library.Multiset"
begin

text \<open>
  Python's \<open>difflib.SequenceMatcher\<close> as \<^verbatim>\<open>src/sds200/favorites_comparison.py\<close> uses it: no junk
  function and \<open>autojunk=False\<close>, so the sets of junk and popular elements are empty. A match is a
  triple of its starts and its size; the queue of regions is a stack whose head is the end of Python's
  list. The interface \<open>differ\<close> says what a client of \<open>get_opcodes\<close> relies on: the opcodes tile both
  sequences in order, an equal opcode covers equal slices, and equal sequences give no other opcode.
\<close>

section \<open>The longest match of a region\<close>

type_synonym match_block = "nat \<times> nat \<times> nat"

abbreviation match_size :: "match_block \<Rightarrow> nat" where
  "match_size m \<equiv> snd (snd m)"

type_synonym region = "nat \<times> nat \<times> nat \<times> nat"

definition b2j :: "'a list \<Rightarrow> 'a \<Rightarrow> nat list" where
  "b2j b x = filter (\<lambda>j. b ! j = x) [0..<length b]"

definition previous_length :: "(nat \<rightharpoonup> nat) \<Rightarrow> nat \<Rightarrow> nat" where
  "previous_length j2len j =
     (case j of 0 \<Rightarrow> 0 | Suc j' \<Rightarrow> (case j2len j' of None \<Rightarrow> 0 | Some n \<Rightarrow> n))"

fun match_row ::
  "nat \<Rightarrow> nat \<Rightarrow> nat \<Rightarrow> (nat \<rightharpoonup> nat) \<Rightarrow> nat list \<Rightarrow> (nat \<rightharpoonup> nat) \<times> match_block \<Rightarrow>
   (nat \<rightharpoonup> nat) \<times> match_block" where
  "match_row i blo bhi j2len [] r = r"
| "match_row i blo bhi j2len (j # js) (newj2len, besti, bestj, bestsize) =
     (if j < blo then match_row i blo bhi j2len js (newj2len, besti, bestj, bestsize)
      else if j \<ge> bhi then (newj2len, besti, bestj, bestsize)
      else let k = previous_length j2len j + 1 in
        match_row i blo bhi j2len js
          (newj2len(j \<mapsto> k),
           if k > bestsize then (i + 1 - k, j + 1 - k, k) else (besti, bestj, bestsize)))"

fun match_rows ::
  "'a list \<Rightarrow> 'a list \<Rightarrow> nat \<Rightarrow> nat \<Rightarrow> nat list \<Rightarrow> (nat \<rightharpoonup> nat) \<times> match_block \<Rightarrow> match_block" where
  "match_rows a b blo bhi [] (j2len, best) = best"
| "match_rows a b blo bhi (i # is') (j2len, best) =
     match_rows a b blo bhi is' (match_row i blo bhi j2len (b2j b (a ! i)) (Map.empty, best))"

fun extend_left :: "'a list \<Rightarrow> 'a list \<Rightarrow> nat \<Rightarrow> nat \<Rightarrow> match_block \<Rightarrow> match_block" where
  "extend_left a b alo blo (besti, bestj, bestsize) =
     (if besti > alo \<and> bestj > blo \<and> a ! (besti - 1) = b ! (bestj - 1)
      then extend_left a b alo blo (besti - 1, bestj - 1, bestsize + 1)
      else (besti, bestj, bestsize))"

function extend_right :: "'a list \<Rightarrow> 'a list \<Rightarrow> nat \<Rightarrow> nat \<Rightarrow> match_block \<Rightarrow> match_block" where
  "extend_right a b ahi bhi (besti, bestj, bestsize) =
     (if besti + bestsize < ahi \<and> bestj + bestsize < bhi \<and>
         a ! (besti + bestsize) = b ! (bestj + bestsize)
      then extend_right a b ahi bhi (besti, bestj, bestsize + 1)
      else (besti, bestj, bestsize))"
  by pat_completeness auto
termination
  by (relation "measure (\<lambda>(a, b, ahi, bhi, besti, bestj, bestsize). ahi - (besti + bestsize))") auto

definition find_longest_match ::
  "'a list \<Rightarrow> 'a list \<Rightarrow> nat \<Rightarrow> nat \<Rightarrow> nat \<Rightarrow> nat \<Rightarrow> match_block" where
  "find_longest_match a b alo ahi blo bhi =
     extend_right a b ahi bhi
       (extend_left a b alo blo
         (match_rows a b blo bhi [alo..<ahi] (Map.empty, alo, blo, 0)))"

text \<open>A match of a region: inside it and of equal elements, or empty at its start.\<close>

definition match_ok :: "'a list \<Rightarrow> 'a list \<Rightarrow> nat \<Rightarrow> nat \<Rightarrow> nat \<Rightarrow> nat \<Rightarrow> match_block \<Rightarrow> bool" where
  "match_ok a b alo ahi blo bhi m \<longleftrightarrow>
     (case m of (i, j, k) \<Rightarrow> alo \<le> i \<and> blo \<le> j \<and>
        (if k = 0 then i = alo \<and> j = blo else i + k \<le> ahi \<and> j + k \<le> bhi) \<and>
        (\<forall>t < k. a ! (i + t) = b ! (j + t)))"

definition run_ok :: "'a list \<Rightarrow> 'a list \<Rightarrow> nat \<Rightarrow> nat \<Rightarrow> nat \<Rightarrow> nat \<Rightarrow> nat \<Rightarrow> bool" where
  "run_ok a b alo blo e f k \<longleftrightarrow>
     alo + k \<le> e \<and> blo + k \<le> f \<and> (\<forall>t < k. a ! (e - k + t) = b ! (f - k + t))"

lemma run_ok_Suc:
  assumes "run_ok a b alo blo e f k" and "a ! e = b ! f"
  shows "run_ok a b alo blo (Suc e) (Suc f) (Suc k)"
  using assms by (auto simp: run_ok_def less_Suc_eq)

lemma run_ok_0: "alo \<le> e \<Longrightarrow> blo \<le> f \<Longrightarrow> run_ok a b alo blo e f 0"
  by (simp add: run_ok_def)

lemma run_match:
  assumes "run_ok a b alo blo (Suc i) (Suc j) k" and "i < ahi" and "j < bhi" and "0 < k"
  shows "match_ok a b alo ahi blo bhi (i + 1 - k, j + 1 - k, k)"
  using assms by (auto simp: run_ok_def match_ok_def)

definition row_ok :: "'a list \<Rightarrow> 'a list \<Rightarrow> nat \<Rightarrow> nat \<Rightarrow> nat \<Rightarrow> (nat \<rightharpoonup> nat) \<Rightarrow> bool" where
  "row_ok a b alo blo i j2len \<longleftrightarrow> (\<forall>j k. j2len j = Some k \<longrightarrow> run_ok a b alo blo i (Suc j) k)"

lemma match_row_ok:
  assumes "row_ok a b alo blo i j2len" and "alo \<le> i" and "i < ahi"
    and "\<forall>j \<in> set js. b ! j = a ! i"
    and "row_ok a b alo blo (Suc i) newj2len" and "match_ok a b alo ahi blo bhi best"
    and "match_row i blo bhi j2len js (newj2len, best) = (newj2len', best')"
  shows "row_ok a b alo blo (Suc i) newj2len' \<and> match_ok a b alo ahi blo bhi best'"
  using assms(4-)
proof (induction js arbitrary: newj2len best)
  case Nil
  then show ?case by simp
next
  case (Cons j js)
  obtain besti bestj bestsize where best: "best = (besti, bestj, bestsize)" by (cases best)
  show ?case
  proof (cases "j < blo \<or> bhi \<le> j")
    case True
    with Cons show ?thesis by (auto simp: best split: if_splits)
  next
    case False
    let ?k = "previous_length j2len j"
    have "run_ok a b alo blo i j ?k"
      using assms(1,2) False
      by (auto simp: previous_length_def row_ok_def run_ok_0 split: nat.splits option.splits)
    then have run: "run_ok a b alo blo (Suc i) (Suc j) (?k + 1)"
      using Cons.prems(1) by (simp add: run_ok_Suc)
    let ?best = "if ?k + 1 > bestsize then (i + 1 - (?k + 1), j + 1 - (?k + 1), ?k + 1)
      else (besti, bestj, bestsize)"
    have row: "row_ok a b alo blo (Suc i) (newj2len(j \<mapsto> ?k + 1))"
      using Cons.prems(2) run by (auto simp: row_ok_def)
    have m: "match_ok a b alo ahi blo bhi ?best"
      using run_match [OF run assms(3)] False Cons.prems(3) by (simp add: best)
    have eq: "match_row i blo bhi j2len js (newj2len(j \<mapsto> ?k + 1), ?best) = (newj2len', best')"
      using Cons.prems(4) False by (cases "?k + 1 > bestsize") (simp_all add: best Let_def)
    show ?thesis
      by (rule Cons.IH [OF _ row m eq]) (use Cons.prems(1) in simp)
  qed
qed

lemma match_rows_ok:
  assumes "row_ok a b alo blo i j2len" and "match_ok a b alo ahi blo bhi best" and "alo \<le> i"
  shows "match_ok a b alo ahi blo bhi (match_rows a b blo bhi [i..<ahi] (j2len, best))"
  using assms
proof (induction "ahi - i" arbitrary: i j2len best)
  case 0
  then show ?case by simp
next
  case (Suc n)
  then have i: "i < ahi" by simp
  obtain j2len' best' where r:
    "match_row i blo bhi j2len (b2j b (a ! i)) (Map.empty, best) = (j2len', best')"
    by (cases "match_row i blo bhi j2len (b2j b (a ! i)) (Map.empty, best)")
  have "row_ok a b alo blo (Suc i) j2len' \<and> match_ok a b alo ahi blo bhi best'"
    using Suc.prems i by (intro match_row_ok [OF _ _ _ _ _ _ r]) (auto simp: b2j_def row_ok_def)
  with Suc i r show ?case by (simp add: upt_conv_Cons)
qed

declare extend_left.simps [simp del] extend_right.simps [simp del]

lemma extend_left_ok:
  "match_ok a b alo ahi blo bhi m \<Longrightarrow> match_ok a b alo ahi blo bhi (extend_left a b alo blo m)"
proof (induction a b alo blo m rule: extend_left.induct)
  case (1 a b alo blo i j k)
  show ?case
  proof (cases "i > alo \<and> j > blo \<and> a ! (i - 1) = b ! (j - 1)")
    case True
    have "match_ok a b alo ahi blo bhi (i - 1, j - 1, k + 1)"
      unfolding match_ok_def prod.case
    proof (intro conjI allI impI)
      fix t assume "t < k + 1"
      show "a ! (i - 1 + t) = b ! (j - 1 + t)"
        using 1(2) True \<open>t < k + 1\<close> by (cases t) (auto simp: match_ok_def)
    qed (use 1(2) True in \<open>auto simp: match_ok_def split: if_splits\<close>)
    with 1(1) True show ?thesis by (subst extend_left.simps) simp
  next
    case False
    with 1(2) show ?thesis by (subst extend_left.simps) auto
  qed
qed

lemma extend_right_ok:
  "match_ok a b alo ahi blo bhi m \<Longrightarrow> match_ok a b alo ahi blo bhi (extend_right a b ahi bhi m)"
proof (induction a b ahi bhi m rule: extend_right.induct)
  case (1 a b ahi bhi i j k)
  show ?case
  proof (cases "i + k < ahi \<and> j + k < bhi \<and> a ! (i + k) = b ! (j + k)")
    case True
    have "match_ok a b alo ahi blo bhi (i, j, k + 1)"
      using 1(2) True by (auto simp: match_ok_def less_Suc_eq split: if_splits)
    with 1(1) True show ?thesis by (subst extend_right.simps) simp
  next
    case False
    with 1(2) show ?thesis by (subst extend_right.simps) auto
  qed
qed

lemma find_longest_match_ok: "match_ok a b alo ahi blo bhi (find_longest_match a b alo ahi blo bhi)"
  unfolding find_longest_match_def
  by (intro extend_right_ok extend_left_ok match_rows_ok) (auto simp: row_ok_def match_ok_def)

lemma match_row_other:
  assumes "match_row i blo bhi j2len js (newj2len, best) = (newj2len', best')"
  shows "match_size best \<le> match_size best'" and "j \<notin> set js \<Longrightarrow> newj2len' j = newj2len j"
proof -
  have "match_size best \<le> match_size best' \<and> (j \<notin> set js \<longrightarrow> newj2len' j = newj2len j)"
    using assms
  proof (induction js arbitrary: newj2len best)
    case (Cons j' js)
    obtain besti bestj bestsize where best: "best = (besti, bestj, bestsize)" by (cases best)
    show ?case
    proof (cases "j' < blo \<or> bhi \<le> j'")
      case True
      with Cons show ?thesis by (auto simp: best split: if_splits)
    next
      case False
      let ?k = "previous_length j2len j' + 1"
      let ?best = "if ?k > bestsize then (i + 1 - ?k, j' + 1 - ?k, ?k) else (besti, bestj, bestsize)"
      have "match_row i blo bhi j2len js (newj2len(j' \<mapsto> ?k), ?best) = (newj2len', best')"
        using Cons.prems False by (cases "?k > bestsize") (simp_all add: best Let_def)
      from Cons.IH [OF this] show ?thesis by (auto simp: best split: if_splits)
    qed
  qed simp
  then show "match_size best \<le> match_size best'" "j \<notin> set js \<Longrightarrow> newj2len' j = newj2len j" by auto
qed

lemma match_row_hit:
  assumes "match_row i blo bhi j2len js (newj2len, best) = (newj2len', best')"
    and "sorted_wrt (<) js" and "j \<in> set js" and "blo \<le> j" and "j < bhi"
  shows "newj2len' j = Some (previous_length j2len j + 1)"
    and "previous_length j2len j + 1 \<le> match_size best'"
proof -
  have "newj2len' j = Some (previous_length j2len j + 1) \<and> previous_length j2len j + 1 \<le> match_size best'"
    using assms(1-3)
  proof (induction js arbitrary: newj2len best)
    case (Cons j' js)
    obtain besti bestj bestsize where best: "best = (besti, bestj, bestsize)" by (cases best)
    show ?case
    proof (cases "j' < blo")
      case True
      with Cons assms(4) show ?thesis by (auto simp: best)
    next
      case False
      with Cons.prems(2,3) assms(5) have "j' < bhi" by auto
      let ?k = "previous_length j2len j' + 1"
      let ?best = "if ?k > bestsize then (i + 1 - ?k, j' + 1 - ?k, ?k) else (besti, bestj, bestsize)"
      have eq: "match_row i blo bhi j2len js (newj2len(j' \<mapsto> ?k), ?best) = (newj2len', best')"
        using Cons.prems(1) False \<open>j' < bhi\<close> by (cases "?k > bestsize") (simp_all add: best Let_def)
      show ?thesis
      proof (cases "j = j'")
        case True
        with Cons.prems(2) have "j \<notin> set js" by auto
        with match_row_other [OF eq] True show ?thesis by (auto split: if_splits)
      next
        case False
        with Cons.IH [OF eq] Cons.prems(2,3) show ?thesis by auto
      qed
    qed
  qed simp
  then show "newj2len' j = Some (previous_length j2len j + 1)"
    "previous_length j2len j + 1 \<le> match_size best'" by auto
qed

lemma match_rows_size: "match_size (snd s) \<le> match_size (match_rows a b blo bhi is' s)"
proof (induction is' arbitrary: s)
  case Nil
  then show ?case by (cases s) simp
next
  case (Cons i is')
  obtain j2len' best' where r:
    "match_row i blo bhi (fst s) (b2j b (a ! i)) (Map.empty, snd s) = (j2len', best')"
    by (cases "match_row i blo bhi (fst s) (b2j b (a ! i)) (Map.empty, snd s)")
  from match_row_other(1) [OF r] Cons [of "(j2len', best')"] r show ?case by (cases s) simp
qed

lemma extend_size:
  "match_size m \<le> match_size (extend_left a b alo blo m)"
  "match_size m \<le> match_size (extend_right a b ahi bhi m)"
proof -
  show "match_size m \<le> match_size (extend_left a b alo blo m)"
  proof (induction a b alo blo m rule: extend_left.induct)
    case (1 a b alo blo i j k)
    show ?case
    proof (cases "i > alo \<and> j > blo \<and> a ! (i - 1) = b ! (j - 1)")
      case True
      with 1 [OF True] have "k \<le> match_size (extend_left a b alo blo (i - 1, j - 1, k + 1))" by simp
      with True show ?thesis by (subst extend_left.simps) simp
    next
      case False
      then show ?thesis by (subst extend_left.simps) auto
    qed
  qed
  show "match_size m \<le> match_size (extend_right a b ahi bhi m)"
  proof (induction a b ahi bhi m rule: extend_right.induct)
    case (1 a b ahi bhi i j k)
    show ?case
    proof (cases "i + k < ahi \<and> j + k < bhi \<and> a ! (i + k) = b ! (j + k)")
      case True
      with 1 [OF True] have "k \<le> match_size (extend_right a b ahi bhi (i, j, k + 1))" by simp
      with True show ?thesis by (subst extend_right.simps) simp
    next
      case False
      then show ?thesis by (subst extend_right.simps) auto
    qed
  qed
qed

text \<open>A region without a match has no element in common.\<close>

definition gap :: "'a list \<Rightarrow> 'a list \<Rightarrow> region \<Rightarrow> bool" where
  "gap a b r \<longleftrightarrow> (case r of (alo, ahi, blo, bhi) \<Rightarrow>
     \<forall>x \<in> {alo..<ahi}. \<forall>y \<in> {blo..<bhi}. a ! x \<noteq> b ! y)"

lemma match_rows_gap:
  assumes "match_size (match_rows a b blo bhi xs s) = 0" and "x \<in> set xs"
    and "blo \<le> y" and "y < bhi" and "bhi \<le> length b"
  shows "a ! x \<noteq> b ! y"
  using assms(1,2)
proof (induction xs arbitrary: s)
  case (Cons i xs)
  obtain j2len best where s: "s = (j2len, best)" by (cases s)
  obtain j2len' best' where r:
    "match_row i blo bhi j2len (b2j b (a ! i)) (Map.empty, best) = (j2len', best')"
    by (cases "match_row i blo bhi j2len (b2j b (a ! i)) (Map.empty, best)")
  from Cons.prems(1) have rest: "match_size (match_rows a b blo bhi xs (j2len', best')) = 0"
    by (simp add: s r)
  show ?case
  proof (cases "x = i")
    case True
    have "y \<notin> set (b2j b (a ! i))"
    proof
      assume "y \<in> set (b2j b (a ! i))"
      moreover have "sorted_wrt (<) (b2j b (a ! i))" by (simp add: b2j_def sorted_wrt_filter)
      ultimately have "1 \<le> match_size best'" using match_row_hit(2) [OF r] assms(3,4) by fastforce
      with match_rows_size [of "(j2len', best')" a b blo bhi xs] rest show False by simp
    qed
    with True assms(4,5) show ?thesis by (auto simp: b2j_def)
  next
    case False
    with Cons rest show ?thesis by auto
  qed
qed simp

lemma find_longest_match_gap:
  assumes "match_size (find_longest_match a b alo ahi blo bhi) = 0" and "bhi \<le> length b"
  shows "gap a b (alo, ahi, blo, bhi)"
proof -
  have "match_size (match_rows a b blo bhi [alo..<ahi] (Map.empty, alo, blo, 0)) = 0"
    using assms(1) extend_size unfolding find_longest_match_def by (metis le_zero_eq)
  from match_rows_gap [OF this] assms(2) show ?thesis by (auto simp: gap_def)
qed

section \<open>Matching blocks\<close>

definition right_region :: "region \<Rightarrow> match_block \<Rightarrow> region list" where
  "right_region r m = (case r of (alo, ahi, blo, bhi) \<Rightarrow> case m of (i, j, k) \<Rightarrow>
     if i + k < ahi \<and> j + k < bhi then [(i + k, ahi, j + k, bhi)] else [])"

definition left_region :: "region \<Rightarrow> match_block \<Rightarrow> region list" where
  "left_region r m = (case r of (alo, ahi, blo, bhi) \<Rightarrow> case m of (i, j, k) \<Rightarrow>
     if alo < i \<and> blo < j then [(alo, i, blo, j)] else [])"

abbreviation region_match :: "'a list \<Rightarrow> 'a list \<Rightarrow> region \<Rightarrow> match_block" where
  "region_match a b r \<equiv> (case r of (alo, ahi, blo, bhi) \<Rightarrow> find_longest_match a b alo ahi blo bhi)"

definition region_weight :: "region \<Rightarrow> nat" where
  "region_weight r = (case r of (alo, ahi, blo, bhi) \<Rightarrow> 2 * (ahi - alo) + 1)"

lemma region_weight_split:
  assumes "match_size (region_match a b r) \<noteq> 0"
  shows "sum_list (map region_weight (right_region r (region_match a b r))) +
    sum_list (map region_weight (left_region r (region_match a b r))) < region_weight r"
proof -
  obtain alo ahi blo bhi where r: "r = (alo, ahi, blo, bhi)" by (cases r)
  obtain i j k where m: "find_longest_match a b alo ahi blo bhi = (i, j, k)"
    by (cases "find_longest_match a b alo ahi blo bhi")
  have "match_ok a b alo ahi blo bhi (i, j, k)" using find_longest_match_ok m by metis
  with assms show ?thesis
    by (auto simp: r m match_ok_def region_weight_def right_region_def left_region_def split: if_splits)
qed

function blocks_loop :: "'a list \<Rightarrow> 'a list \<Rightarrow> region list \<Rightarrow> match_block list \<Rightarrow> match_block list" where
  "blocks_loop a b [] matching_blocks = matching_blocks"
| "blocks_loop a b (r # queue) matching_blocks =
     (let x = region_match a b r in
      if match_size x = 0 then blocks_loop a b queue matching_blocks
      else blocks_loop a b (right_region r x @ left_region r x @ queue) (matching_blocks @ [x]))"
  by pat_completeness auto
termination
proof (relation "measure (\<lambda>(a, b, queue, bs). sum_list (map region_weight queue))")
  show "((a, b, queue, bs), (a, b, r # queue, bs)) \<in> measure (\<lambda>(a, b, queue, bs). sum_list (map region_weight queue))"
    for a b :: "'a list" and r queue bs
    by (simp add: region_weight_def split: prod.split)
next
  show "((a, b, right_region r x @ left_region r x @ queue, bs @ [x]), (a, b, r # queue, bs))
      \<in> measure (\<lambda>(a, b, queue, bs). sum_list (map region_weight queue))"
    if "x = region_match a b r" "match_size x \<noteq> 0" for a b :: "'a list" and r queue bs x
    using region_weight_split [of a b r] that by simp
qed simp

fun merge_blocks :: "match_block \<Rightarrow> match_block list \<Rightarrow> match_block list" where
  "merge_blocks (i1, j1, k1) [] = (if k1 \<noteq> 0 then [(i1, j1, k1)] else [])"
| "merge_blocks (i1, j1, k1) ((i2, j2, k2) # bs) =
     (if i1 + k1 = i2 \<and> j1 + k1 = j2 then merge_blocks (i1, j1, k1 + k2) bs
      else (if k1 \<noteq> 0 then [(i1, j1, k1)] else []) @ merge_blocks (i2, j2, k2) bs)"

definition get_matching_blocks :: "'a list \<Rightarrow> 'a list \<Rightarrow> match_block list" where
  "get_matching_blocks a b =
     merge_blocks (0, 0, 0) (sort (blocks_loop a b [(0, length a, 0, length b)] [])) @
     [(length a, length b, 0)]"

section \<open>Opcodes\<close>

datatype opcode_tag = OpReplace | OpDelete | OpInsert | OpEqual

type_synonym opcode = "opcode_tag \<times> nat \<times> nat \<times> nat \<times> nat"

fun opcodes_from :: "nat \<Rightarrow> nat \<Rightarrow> match_block list \<Rightarrow> opcode list" where
  "opcodes_from i j [] = []"
| "opcodes_from i j ((ai, bj, n) # bs) =
     (if i < ai \<and> j < bj then [(OpReplace, i, ai, j, bj)]
      else if i < ai then [(OpDelete, i, ai, j, bj)]
      else if j < bj then [(OpInsert, i, ai, j, bj)] else []) @
     (if n \<noteq> 0 then [(OpEqual, ai, ai + n, bj, bj + n)] else []) @
     opcodes_from (ai + n) (bj + n) bs"

definition get_opcodes :: "'a list \<Rightarrow> 'a list \<Rightarrow> opcode list" where
  "get_opcodes a b = opcodes_from 0 0 (get_matching_blocks a b)"


section \<open>The blocks form a chain\<close>

text \<open>
  Non-empty matches one after the other in both sequences, within a region, with nothing in common
  between them.
\<close>

fun chain :: "'a list \<Rightarrow> 'a list \<Rightarrow> region \<Rightarrow> match_block list \<Rightarrow> bool" where
  "chain a b (alo, ahi, blo, bhi) [] \<longleftrightarrow> alo \<le> ahi \<and> blo \<le> bhi \<and> gap a b (alo, ahi, blo, bhi)"
| "chain a b (alo, ahi, blo, bhi) ((i, j, k) # bs) \<longleftrightarrow>
     alo \<le> i \<and> blo \<le> j \<and> 0 < k \<and> gap a b (alo, i, blo, j) \<and> (\<forall>t < k. a ! (i + t) = b ! (j + t)) \<and>
     chain a b (i + k, ahi, j + k, bhi) bs"

lemma chain_append:
  "chain a b (alo, i, blo, j) bs \<Longrightarrow> chain a b (i, ahi, j, bhi) ((i, j, k) # cs) \<Longrightarrow>
     chain a b (alo, ahi, blo, bhi) (bs @ (i, j, k) # cs)"
proof (induction bs arbitrary: alo blo)
  case (Cons m bs)
  then show ?case by (cases m) auto
qed auto

lemma gap_trivial: "ahi \<le> alo \<or> bhi \<le> blo \<Longrightarrow> gap a b (alo, ahi, blo, bhi)"
  by (auto simp: gap_def)

lemma chain_sorted: "chain a b (alo, ahi, blo, bhi) bs \<Longrightarrow> sorted bs \<and> (\<forall>m \<in> set bs. alo \<le> fst m)"
proof (induction bs arbitrary: alo blo)
  case Nil
  then show ?case by simp
next
  case (Cons m bs)
  obtain i j k where m: "m = (i, j, k)" by (cases m)
  with Cons.prems have "alo \<le> i" "0 < k" "chain a b (i + k, ahi, j + k, bhi) bs" by auto
  with Cons.IH [OF this(3)] show ?case by (fastforce simp: m less_eq_prod_def)
qed

definition region_ok :: "'a list \<Rightarrow> region \<Rightarrow> bool" where
  "region_ok b r = (case r of (alo, ahi, blo, bhi) \<Rightarrow> alo \<le> ahi \<and> blo \<le> bhi \<and> bhi \<le> length b)"

lemma sub_regions_ok:
  assumes "r = (alo, ahi, blo, bhi)" and "region_match a b r = (i, j, k)" and "k \<noteq> 0" and "region_ok b r"
  shows "list_all (region_ok b) (right_region r (i, j, k))" "list_all (region_ok b) (left_region r (i, j, k))"
proof -
  have "match_ok a b alo ahi blo bhi (i, j, k)"
    using find_longest_match_ok assms(1,2) by (metis case_prod_conv)
  with assms(1,3,4) show "list_all (region_ok b) (right_region r (i, j, k))"
    "list_all (region_ok b) (left_region r (i, j, k))"
    by (simp_all add: right_region_def left_region_def region_ok_def match_ok_def)
qed

lemma chain_of_parts:
  assumes r: "r = (alo, ahi, blo, bhi)" and m: "region_match a b r = (i, j, k)" and "k \<noteq> 0"
    and right: "list_all2 (chain a b) (right_region r (i, j, k)) rs"
    and left: "list_all2 (chain a b) (left_region r (i, j, k)) ls"
  shows "chain a b r (concat ls @ (i, j, k) # concat rs)"
proof -
  have ok: "match_ok a b alo ahi blo bhi (i, j, k)"
    using find_longest_match_ok m unfolding r by (metis case_prod_conv)
  have "chain a b (alo, i, blo, j) (concat ls)"
    using left ok by (auto simp: r left_region_def match_ok_def list_all2_Cons1 gap_trivial split: if_splits)
  moreover have "chain a b (i + k, ahi, j + k, bhi) (concat rs)"
    using right ok \<open>k \<noteq> 0\<close>
    by (auto simp: r right_region_def match_ok_def list_all2_Cons1 gap_trivial split: if_splits)
  then have "chain a b (i, ahi, j, bhi) ((i, j, k) # concat rs)"
    using ok \<open>k \<noteq> 0\<close> by (simp add: match_ok_def gap_trivial)
  ultimately show ?thesis unfolding r by (rule chain_append)
qed

lemma blocks_loop_chains:
  assumes "list_all (region_ok b) queue"
  shows "\<exists>css. list_all2 (chain a b) queue css \<and>
    mset (blocks_loop a b queue acc) = mset acc + mset (concat css)"
  using assms
proof (induction a b queue acc rule: blocks_loop.induct)
  case (1 a b acc)
  then show ?case by simp
next
  case (2 a b r queue acc)
  obtain alo ahi blo bhi where r: "r = (alo, ahi, blo, bhi)" by (cases r)
  obtain i j k where m: "region_match a b r = (i, j, k)" by (cases "region_match a b r")
  show ?case
  proof (cases "k = 0")
    case True
    with 2 m obtain css where "list_all2 (chain a b) queue css"
      "mset (blocks_loop a b queue acc) = mset acc + mset (concat css)" by auto
    moreover have "chain a b r []"
      using find_longest_match_gap [of a b alo ahi blo bhi] True m 2(3) by (simp add: r region_ok_def)
    ultimately show ?thesis
      using True m by (intro exI [of _ "[] # css"]) (simp add: Let_def)
  next
    case False
    let ?queue = "right_region r (i, j, k) @ left_region r (i, j, k) @ queue"
    have "list_all (region_ok b) ?queue"
      using 2(3) sub_regions_ok [OF r m False] by simp
    with 2(2) [OF refl] m False obtain css where css: "list_all2 (chain a b) ?queue css"
      "mset (blocks_loop a b ?queue (acc @ [(i, j, k)])) = mset (acc @ [(i, j, k)]) + mset (concat css)"
      by auto
    from css(1) obtain rs ls qs where parts: "css = rs @ ls @ qs"
      "list_all2 (chain a b) (right_region r (i, j, k)) rs"
      "list_all2 (chain a b) (left_region r (i, j, k)) ls" "list_all2 (chain a b) queue qs"
      by (auto simp: list_all2_append1)
    with chain_of_parts [OF r m False parts(2,3)] css(2) m False show ?thesis
      by (intro exI [of _ "(concat ls @ (i, j, k) # concat rs) # qs"]) (simp add: Let_def)
  qed
qed

lemma sorted_blocks_chain:
  "chain a b (0, length a, 0, length b) (sort (blocks_loop a b [(0, length a, 0, length b)] []))"
proof -
  obtain c where c: "chain a b (0, length a, 0, length b) c"
    "mset (blocks_loop a b [(0, length a, 0, length b)] []) = mset c"
    using blocks_loop_chains [of b "[(0, length a, 0, length b)]" a "[]"]
    by (auto simp: region_ok_def list_all2_Cons1)
  have "sort (blocks_loop a b [(0, length a, 0, length b)] []) = c"
    using c(2) chain_sorted [OF c(1)] by (intro properties_for_sort) simp_all
  with c show ?thesis by simp
qed

lemma merge_blocks_chain:
  assumes "alo \<le> i" and "blo \<le> j" and "\<forall>t < k. a ! (i + t) = b ! (j + t)"
    and "gap a b (alo, i, blo, j)" and "k = 0 \<longrightarrow> alo = i \<and> blo = j"
    and "chain a b (i + k, ahi, j + k, bhi) bs"
  shows "chain a b (alo, ahi, blo, bhi) (merge_blocks (i, j, k) bs)"
  using assms
proof (induction "(i, j, k)" bs arbitrary: alo blo i j k rule: merge_blocks.induct)
  case (1 i j k)
  then show ?case by auto
next
  case (2 i j k i2 j2 k2 bs)
  from 2(8) have bs: "i + k \<le> i2" "j + k \<le> j2" "0 < k2" "gap a b (i + k, i2, j + k, j2)"
    "\<forall>t < k2. a ! (i2 + t) = b ! (j2 + t)" "chain a b (i2 + k2, ahi, j2 + k2, bhi) bs" by auto
  show ?case
  proof (cases "i + k = i2 \<and> j + k = j2")
    case True
    have "a ! (i + t) = b ! (j + t)" if "t < k + k2" for t
    proof (cases "t < k")
      case False
      then have "t - k < k2" "i2 + (t - k) = i + t" "j2 + (t - k) = j + t"
        using True that by auto
      with bs(5) show ?thesis by metis
    qed (use 2(5) in auto)
    with 2(1) [OF True] 2(3,4,6) bs True show ?thesis by (auto simp: add.assoc)
  next
    case False
    have "chain a b (i + k, ahi, j + k, bhi) (merge_blocks (i2, j2, k2) bs)"
      using 2(2) [OF False] bs by auto
    with False 2(3-7) show ?thesis by (cases "k = 0") auto
  qed
qed

section \<open>The opcodes tile both sequences\<close>

fun tiles :: "'a list \<Rightarrow> 'a list \<Rightarrow> nat \<Rightarrow> nat \<Rightarrow> opcode list \<Rightarrow> bool" where
  "tiles a b i j [] \<longleftrightarrow> i = length a \<and> j = length b"
| "tiles a b i j ((tag, i1, i2, j1, j2) # ops) \<longleftrightarrow>
     i1 = i \<and> j1 = j \<and> i2 \<le> length a \<and> j2 \<le> length b \<and>
     (case tag of
        OpReplace \<Rightarrow> i1 < i2 \<and> j1 < j2 \<and> gap a b (i1, i2, j1, j2)
      | OpDelete \<Rightarrow> i1 < i2 \<and> j1 = j2
      | OpInsert \<Rightarrow> i1 = i2 \<and> j1 < j2
      | OpEqual \<Rightarrow> i1 < i2 \<and> j1 < j2 \<and> py_slice a i1 i2 = py_slice b j1 j2) \<and>
     tiles a b i2 j2 ops"

lemma chain_bounds: "chain a b (alo, ahi, blo, bhi) bs \<Longrightarrow> alo \<le> ahi \<and> blo \<le> bhi"
proof (induction bs arbitrary: alo blo)
  case (Cons m bs)
  then show ?case by (cases m) fastforce
qed simp

lemma py_slice_eqI:
  assumes "i + k \<le> length a" and "j + k \<le> length b" and "\<forall>t < k. a ! (i + t) = b ! (j + t)"
  shows "py_slice a i (i + k) = py_slice b j (j + k)"
  using assms by (intro nth_equalityI) (auto simp: py_slice_def)

lemma opcodes_tile:
  assumes "chain a b (i, length a, j, length b) bs"
  shows "tiles a b i j (opcodes_from i j (bs @ [(length a, length b, 0)]))"
  using assms
proof (induction bs arbitrary: i j)
  case Nil
  then show ?case by auto
next
  case (Cons m bs)
  obtain ai bj k where m: "m = (ai, bj, k)" by (cases m)
  with Cons.prems have c: "i \<le> ai" "j \<le> bj" "0 < k" "\<forall>t < k. a ! (ai + t) = b ! (bj + t)"
    "chain a b (ai + k, length a, bj + k, length b) bs" "gap a b (i, ai, j, bj)" by auto
  from chain_bounds [OF c(5)] c(4) have "py_slice a ai (ai + k) = py_slice b bj (bj + k)"
    by (intro py_slice_eqI) auto
  with Cons.IH [OF c(5)] chain_bounds [OF c(5)] c(1-3,6) show ?case by (auto simp: m)
qed

lemma get_opcodes_tile: "tiles a b 0 0 (get_opcodes a b)"
  unfolding get_opcodes_def get_matching_blocks_def
  by (intro opcodes_tile merge_blocks_chain) (simp_all add: sorted_blocks_chain gap_trivial del: blocks_loop.simps)


section \<open>Equal sequences\<close>

lemma match_rows_diagonal:
  assumes "i \<le> previous_length j2len i" and "i \<le> match_size best" and "i \<le> length a"
  shows "length a \<le> match_size (match_rows a a 0 (length a) [i..<length a] (j2len, best))"
  using assms
proof (induction "length a - i" arbitrary: i j2len best)
  case 0
  then show ?case by simp
next
  case (Suc n)
  then have i: "i < length a" by simp
  obtain j2len' best' where r:
    "match_row i 0 (length a) j2len (b2j a (a ! i)) (Map.empty, best) = (j2len', best')"
    by (cases "match_row i 0 (length a) j2len (b2j a (a ! i)) (Map.empty, best)")
  have "sorted_wrt (<) (b2j a (a ! i))" by (simp add: b2j_def sorted_wrt_filter)
  moreover have "i \<in> set (b2j a (a ! i))" using i by (simp add: b2j_def)
  ultimately have "j2len' i = Some (previous_length j2len i + 1)"
    "previous_length j2len i + 1 \<le> match_size best'"
    using match_row_hit [OF r] i by auto
  with Suc.prems(1) have "Suc i \<le> previous_length j2len' (Suc i)" "Suc i \<le> match_size best'"
    by (simp_all add: previous_length_def)
  with Suc i r show ?case by (simp add: upt_conv_Cons)
qed

lemma find_longest_match_same:
  "find_longest_match a a 0 (length a) 0 (length a) = (0, 0, length a)"
proof -
  obtain i j k where m: "find_longest_match a a 0 (length a) 0 (length a) = (i, j, k)"
    by (cases "find_longest_match a a 0 (length a) 0 (length a)")
  have "length a \<le> match_size (match_rows a a 0 (length a) [0..<length a] (Map.empty, 0, 0, 0))"
    by (rule match_rows_diagonal) simp_all
  then have "length a \<le> k"
    using m extend_size unfolding find_longest_match_def by (metis le_trans snd_conv)
  moreover have "match_ok a a 0 (length a) 0 (length a) (i, j, k)"
    using find_longest_match_ok m by metis
  ultimately show ?thesis using m by (auto simp: match_ok_def split: if_splits)
qed

lemma get_opcodes_same:
  "get_opcodes a a = (if a = [] then [] else [(OpEqual, 0, length a, 0, length a)])"
  by (simp add: get_opcodes_def get_matching_blocks_def find_longest_match_same Let_def
      right_region_def left_region_def)

section \<open>The interface of a differ\<close>

text \<open>
  What a client of \<open>get_opcodes\<close> relies on. The changes of a list of opcodes are the slices they
  replace; applying them to the first sequence gives the second.
\<close>

fun apply_opcodes :: "'a list \<Rightarrow> 'a list \<Rightarrow> opcode list \<Rightarrow> 'a list" where
  "apply_opcodes a b [] = []"
| "apply_opcodes a b ((tag, i1, i2, j1, j2) # ops) =
     (if tag = OpEqual then py_slice a i1 i2 else py_slice b j1 j2) @ apply_opcodes a b ops"

lemma py_slice_drop: "x \<le> y \<Longrightarrow> py_slice c x y @ drop y c = drop x c"
  by (simp add: py_slice_def) (metis append_take_drop_id drop_drop le_add_diff_inverse2)

lemma tiles_slices:
  "tiles a b i j ops \<Longrightarrow> i \<le> length a \<and> j \<le> length b \<and> apply_opcodes a b ops = drop j b"
proof (induction a b i j ops rule: tiles.induct)
  case (2 a b i j tag i1 i2 j1 j2 ops)
  then have "apply_opcodes a b ops = drop j2 b" "i1 = i" "j1 = j" "j2 \<le> length b" "i2 \<le> length a"
    "j \<le> j2" "i \<le> i2" "tag = OpEqual \<Longrightarrow> py_slice a i i2 = py_slice b j j2"
    by (auto split: opcode_tag.splits)
  moreover from this have "py_slice b j j2 @ drop j2 b = drop j b"
    by (simp add: py_slice_drop)
  ultimately show ?case by auto
qed simp

locale differ =
  fixes opcodes :: "'a list \<Rightarrow> 'a list \<Rightarrow> opcode list"
  assumes tile: "tiles a b 0 0 (opcodes a b)"
    and same: "list_all (\<lambda>op. fst op = OpEqual) (opcodes a a)"
begin

lemma patch: "apply_opcodes a b (opcodes a b) = b"
  using tiles_slices [OF tile] by simp

lemma all_equal_tiles: "tiles a b i j ops \<Longrightarrow> list_all (\<lambda>op. fst op = OpEqual) ops \<Longrightarrow> drop i a = drop j b"
proof (induction a b i j ops rule: tiles.induct)
  case (2 a b i j tag i1 i2 j1 j2 ops)
  then have "drop i2 a = drop j2 b" "i < i2" "j < j2" "py_slice a i i2 = py_slice b j j2" by auto
  then have "py_slice a i i2 @ drop i2 a = py_slice b j j2 @ drop j2 b" by simp
  then show ?case using py_slice_drop \<open>i < i2\<close> \<open>j < j2\<close> by (metis less_imp_le)
qed simp

lemma no_change_iff: "list_all (\<lambda>op. fst op = OpEqual) (opcodes a b) \<longleftrightarrow> a = b"
  using same all_equal_tiles [OF tile] by (metis drop0)

end

interpretation difflib: differ get_opcodes
  by unfold_locales (simp_all add: get_opcodes_tile get_opcodes_same)

end
