(* ===== verification/Favorites_Changes.thy ===== *)
theory Favorites_Changes
  imports Favorites_Storage Sequence_Matcher
begin

text \<open>
  \<^verbatim>\<open>src/sds200/favorites_comparison.py\<close>, first part: the record changes between two preserved
  sources, from the opcodes of \<open>Sequence_Matcher\<close> over the raw bytes of their records. A change names
  its records by index and holds them; its constructor checks that they fit its kind. Python's test
  that a record is the very object of its source is equality of records here.
\<close>

datatype source_state = SourceMatched | SourceAdded | SourceRemoved

datatype change_kind = ChangeAdded | ChangeRemoved | ChangeReplaced

datatype comparison_error =
    SideMismatch | SideIndexMissing | SideRecordMissing | EqualReplacement
  | NoPreservedSource
  | CatalogNotMatched | CatalogHasFilename | CatalogHasDocuments
  | CatalogWithoutBaseline | CatalogWithoutCandidate
  | HpdWithoutFilename | HpdSideMismatch | HpdDocumentMissing | HpdSourceMissing
  | HpdFilenameMismatch | HpdForeignSource
  | ChangesNotDiff | IndexOutsideSource | RecordNotOriginal
  | AmbiguityWithoutFilename | AmbiguityOutOfOrder | AmbiguityIndexRepeated
  | AmbiguityFilenameMismatch | AmbiguityWithoutDuplicate
  | DocumentOutsideWorkspace | DocumentNotOriginal | ItemWithoutDocument
  | NoItems | FirstNotCatalog | CatalogBaselineForeign | CatalogCandidateForeign
  | ItemsOutOfOrder | FilenameRepeated
  | DuplicatesNotAmbiguity | AmbiguityBaselineForeign | AmbiguityCandidateForeign
  | AmbiguityUnexpected | ItemNotHpd | StateMismatch
  | BaselineDocumentForeign | CandidateDocumentForeign | FilenamesIncomplete
  | FilenameUnknown

record record_change =
  rc_kind :: change_kind
  rc_baseline_index :: "nat option"
  rc_baseline_record :: "fav_record option"
  rc_candidate_index :: "nat option"
  rc_candidate_record :: "fav_record option"

definition validate_side ::
  "nat option \<Rightarrow> fav_record option \<Rightarrow> bool \<Rightarrow> comparison_error + unit" where
  "validate_side source_index record required =
     (let present = (source_index \<noteq> None \<or> record \<noteq> None) in
      raise_if (present \<noteq> required) SideMismatch
     (if \<not> required then Inr ()
      else raise_if (source_index = None) SideIndexMissing
          (raise_if (record = None) SideRecordMissing (Inr ()))))"

fun required_sides :: "change_kind \<Rightarrow> bool \<times> bool" where
  "required_sides ChangeAdded = (False, True)"
| "required_sides ChangeRemoved = (True, False)"
| "required_sides ChangeReplaced = (True, True)"

definition record_change :: "record_change \<Rightarrow> comparison_error + record_change" where
  "record_change c =
     (case required_sides (rc_kind c) of (baseline_required, candidate_required) \<Rightarrow>
        bind_res (validate_side (rc_baseline_index c) (rc_baseline_record c) baseline_required) (\<lambda>_.
        bind_res (validate_side (rc_candidate_index c) (rc_candidate_record c) candidate_required) (\<lambda>_.
        raise_if
          (rc_kind c = ChangeReplaced \<and>
           (case (rc_baseline_record c, rc_candidate_record c) of
              (Some r, Some s) \<Rightarrow> fr_raw_bytes r = fr_raw_bytes s
            | _ \<Rightarrow> False)) EqualReplacement
          (Inr c))))"

type_synonym change_spec = "change_kind \<times> nat option \<times> nat option"

definition removed_specs :: "nat \<Rightarrow> nat \<Rightarrow> change_spec list" where
  "removed_specs i j = map (\<lambda>k. (ChangeRemoved, Some k, None)) [i..<j]"

definition added_specs :: "nat \<Rightarrow> nat \<Rightarrow> change_spec list" where
  "added_specs i j = map (\<lambda>k. (ChangeAdded, None, Some k)) [i..<j]"

definition opcode_specs :: "opcode \<Rightarrow> change_spec list" where
  "opcode_specs op =
     (case op of (tag, baseline_start, baseline_end, candidate_start, candidate_end) \<Rightarrow>
        case tag of
          OpEqual \<Rightarrow> []
        | OpDelete \<Rightarrow> removed_specs baseline_start baseline_end
        | OpInsert \<Rightarrow> added_specs candidate_start candidate_end
        | OpReplace \<Rightarrow>
            let baseline_count = baseline_end - baseline_start;
                candidate_count = candidate_end - candidate_start;
                replacement_count = min baseline_count candidate_count in
            map (\<lambda>off. (ChangeReplaced, Some (baseline_start + off), Some (candidate_start + off)))
              [0..<replacement_count] @
            removed_specs (baseline_start + replacement_count) baseline_end @
            added_specs (candidate_start + replacement_count) candidate_end)"

definition record_change_specs ::
  "fav_file option \<Rightarrow> fav_file option \<Rightarrow> comparison_error + change_spec list" where
  "record_change_specs baseline candidate =
     (case (baseline, candidate) of
        (None, None) \<Rightarrow> Inl NoPreservedSource
      | (None, Some c) \<Rightarrow> Inr (added_specs 0 (length c))
      | (Some b, None) \<Rightarrow> Inr (removed_specs 0 (length b))
      | (Some b, Some c) \<Rightarrow>
          Inr (concat (map opcode_specs (get_opcodes (map fr_raw_bytes b) (map fr_raw_bytes c)))))"

definition record_at :: "fav_file option \<Rightarrow> nat option \<Rightarrow> fav_record option" where
  "record_at source index =
     (case (index, source) of (Some i, Some f) \<Rightarrow> Some (f ! i) | _ \<Rightarrow> None)"

definition change_of :: "fav_file option \<Rightarrow> fav_file option \<Rightarrow> change_spec \<Rightarrow> record_change" where
  "change_of baseline candidate spec =
     (case spec of (kind, baseline_index, candidate_index) \<Rightarrow>
        \<lparr>rc_kind = kind,
         rc_baseline_index = baseline_index,
         rc_baseline_record = record_at baseline baseline_index,
         rc_candidate_index = candidate_index,
         rc_candidate_record = record_at candidate candidate_index\<rparr>)"

definition record_changes ::
  "fav_file option \<Rightarrow> fav_file option \<Rightarrow> comparison_error + record_change list" where
  "record_changes baseline candidate =
     bind_res (record_change_specs baseline candidate) (\<lambda>specs.
       map_res (\<lambda>spec. record_change (change_of baseline candidate spec)) specs)"

section \<open>The specifications of the changes are in range and distinct\<close>

definition spec_ok :: "nat \<Rightarrow> nat \<Rightarrow> change_spec \<Rightarrow> bool" where
  "spec_ok m n spec \<longleftrightarrow>
     (case spec of (kind, i, j) \<Rightarrow>
        required_sides kind = (i \<noteq> None, j \<noteq> None) \<and>
        (\<forall>k \<in> set_option i. k < m) \<and> (\<forall>k \<in> set_option j. k < n))"

abbreviation baseline_indexes :: "change_spec list \<Rightarrow> nat list" where
  "baseline_indexes specs \<equiv> List.map_filter (\<lambda>s. fst (snd s)) specs"

abbreviation candidate_indexes :: "change_spec list \<Rightarrow> nat list" where
  "candidate_indexes specs \<equiv> List.map_filter (\<lambda>s. snd (snd s)) specs"

lemma map_filter_append: "List.map_filter f (xs @ ys) = List.map_filter f xs @ List.map_filter f ys"
  by (simp add: List.map_filter_def)

lemma map_filter_Some: "List.map_filter (\<lambda>x. Some (f x)) xs = map f xs"
  by (simp add: List.map_filter_def comp_def)

lemma map_filter_map: "List.map_filter f (map g xs) = List.map_filter (\<lambda>x. f (g x)) xs"
  by (simp add: List.map_filter_def comp_def filter_map)

lemma map_filter_None: "List.map_filter (\<lambda>x. None) xs = []"
  by (simp add: List.map_filter_def)

lemmas map_filter_simps =
  map_filter_append map_filter_Some map_filter_map map_filter_None List.map_filter_simps

lemma map_add_upt: "map (\<lambda>k. i + k) [0..<n] = [i..<i + n]"
  by (simp add: map_add_upt add.commute)

lemma upt_append: "i \<le> j \<Longrightarrow> j \<le> k \<Longrightarrow> [i..<j] @ [j..<k] = [i..<k]"
  by (metis le_add_diff_inverse upt_add_eq_append)

text \<open>An opcode other than equal names every index of its two ranges, in order; an equal one none.\<close>

lemma opcode_specs_indexes:
  assumes "i \<le> i'" and "j \<le> j'" and "tag = OpDelete \<longrightarrow> j = j'" and "tag = OpInsert \<longrightarrow> i = i'"
  shows "baseline_indexes (opcode_specs (tag, i, i', j, j')) = (if tag = OpEqual then [] else [i..<i'])"
    and "candidate_indexes (opcode_specs (tag, i, i', j, j')) = (if tag = OpEqual then [] else [j..<j'])"
  using assms
  by (cases tag; simp add: opcode_specs_def removed_specs_def added_specs_def Let_def
      map_filter_simps map_add_upt upt_append)+


section \<open>Changes cover every difference\<close>

text \<open>The records no change names, in order.\<close>

definition untouched :: "'a list \<Rightarrow> nat \<Rightarrow> nat set \<Rightarrow> 'a list" where
  "untouched xs i named = map ((!) xs) (filter (\<lambda>k. k \<notin> named) [i..<length xs])"

lemma map_nth_upt: "j \<le> length xs \<Longrightarrow> map ((!) xs) [i..<j] = py_slice xs i j"
  by (intro nth_equalityI) (auto simp: py_slice_def)

lemma untouched_split:
  assumes "i \<le> j" and "j \<le> length xs" and "named' \<subseteq> {j..}"
  shows "untouched xs i named' = py_slice xs i j @ untouched xs j named'"
    and "untouched xs i ({i..<j} \<union> named') = untouched xs j named'"
proof -
  have upt: "[i..<length xs] = [i..<j] @ [j..<length xs]"
    using assms(1,2) by (simp add: upt_append)
  have "filter (\<lambda>k. k \<notin> named') [i..<j] = [i..<j]"
    using assms(3) by (auto simp: filter_id_conv)
  then show "untouched xs i named' = py_slice xs i j @ untouched xs j named'"
    using assms(2) by (simp add: untouched_def upt map_nth_upt)
  have "filter (\<lambda>k. k \<notin> {i..<j} \<union> named') [i..<j] = []" by (auto simp: filter_empty_conv)
  moreover have "filter (\<lambda>k. k \<notin> {i..<j} \<union> named') [j..<length xs] = filter (\<lambda>k. k \<notin> named') [j..<length xs]"
    by (intro filter_cong) auto
  ultimately show "untouched xs i ({i..<j} \<union> named') = untouched xs j named'"
    by (simp add: untouched_def upt)
qed

definition spec_differs :: "'a list \<Rightarrow> 'a list \<Rightarrow> change_spec \<Rightarrow> bool" where
  "spec_differs a b spec \<longleftrightarrow>
     (case spec of (ChangeReplaced, Some i, Some j) \<Rightarrow> a ! i \<noteq> b ! j | _ \<Rightarrow> True)"

lemma opcode_specs_ok:
  assumes "i \<le> i'" and "j \<le> j'" and "i' \<le> length a" and "j' \<le> length b"
    and "tag = OpReplace \<longrightarrow> gap a b (i, i', j, j')"
  shows "list_all (spec_ok (length a) (length b)) (opcode_specs (tag, i, i', j, j'))"
    and "list_all (spec_differs a b) (opcode_specs (tag, i, i', j, j'))"
  using assms
  by (cases tag; auto simp: opcode_specs_def removed_specs_def added_specs_def Let_def list_all_iff
      spec_ok_def spec_differs_def gap_def)+

lemma tiles_specs:
  assumes "tiles a b i j ops"
  defines "specs \<equiv> concat (map opcode_specs ops)"
  shows "list_all (spec_ok (length a) (length b)) specs" and "list_all (spec_differs a b) specs"
    and "sorted_wrt (<) (baseline_indexes specs)" and "sorted_wrt (<) (candidate_indexes specs)"
    and "set (baseline_indexes specs) \<subseteq> {i..}" and "set (candidate_indexes specs) \<subseteq> {j..}"
    and "untouched a i (set (baseline_indexes specs)) = untouched b j (set (candidate_indexes specs))"
proof -
  have "list_all (spec_ok (length a) (length b)) specs \<and> list_all (spec_differs a b) specs \<and>
    sorted_wrt (<) (baseline_indexes specs) \<and> sorted_wrt (<) (candidate_indexes specs) \<and>
    set (baseline_indexes specs) \<subseteq> {i..} \<and> set (candidate_indexes specs) \<subseteq> {j..} \<and>
    untouched a i (set (baseline_indexes specs)) = untouched b j (set (candidate_indexes specs))"
    using assms
  proof (induction a b i j ops arbitrary: specs rule: tiles.induct)
    case (1 a b i j)
    then show ?case by (simp add: List.map_filter_simps untouched_def)
  next
    case (2 a b i j tag i1 i2 j1 j2 ops)
    let ?op = "opcode_specs (tag, i1, i2, j1, j2)" and ?rest = "concat (map opcode_specs ops)"
    from 2(2) have op: "i1 = i" "j1 = j" "i \<le> i2" "j \<le> j2" "i2 \<le> length a" "j2 \<le> length b"
      "tag = OpDelete \<longrightarrow> j = j2" "tag = OpInsert \<longrightarrow> i = i2"
      "tag = OpReplace \<longrightarrow> gap a b (i, i2, j, j2)"
      "tag = OpEqual \<longrightarrow> py_slice a i i2 = py_slice b j j2" and "tiles a b i2 j2 ops"
      by (auto split: opcode_tag.splits)
    note IH = 2(1) [OF \<open>tiles a b i2 j2 ops\<close>]
    have idx: "baseline_indexes ?op = (if tag = OpEqual then [] else [i..<i2])"
      "candidate_indexes ?op = (if tag = OpEqual then [] else [j..<j2])"
      using opcode_specs_indexes [OF op(3,4,7,8)] op(1,2) by simp_all
    have "untouched a i (set (baseline_indexes ?op) \<union> set (baseline_indexes ?rest)) =
        untouched b j (set (candidate_indexes ?op) \<union> set (candidate_indexes ?rest))"
      using IH untouched_split [OF op(3,5), of "set (baseline_indexes ?rest)"]
        untouched_split [OF op(4,6), of "set (candidate_indexes ?rest)"] op(10)
      unfolding idx by (cases "tag = OpEqual") simp_all
    moreover have "sorted_wrt (<) (baseline_indexes ?op @ baseline_indexes ?rest)"
      "sorted_wrt (<) (candidate_indexes ?op @ candidate_indexes ?rest)"
      using IH by (auto simp: idx sorted_wrt_append)
    moreover have "set (baseline_indexes ?op) \<union> set (baseline_indexes ?rest) \<subseteq> {i..}"
      "set (candidate_indexes ?op) \<union> set (candidate_indexes ?rest) \<subseteq> {j..}"
      using IH op(3,4) by (auto simp: idx)
    moreover have "list_all (spec_ok (length a) (length b)) ?op" "list_all (spec_differs a b) ?op"
      using opcode_specs_ok [OF op(3-6,9)] op(1,2) by simp_all
    ultimately show ?case
      using IH by (simp add: map_filter_append)
  qed
  then show "list_all (spec_ok (length a) (length b)) specs" "list_all (spec_differs a b) specs"
    "sorted_wrt (<) (baseline_indexes specs)" "sorted_wrt (<) (candidate_indexes specs)"
    "set (baseline_indexes specs) \<subseteq> {i..}" "set (candidate_indexes specs) \<subseteq> {j..}"
    "untouched a i (set (baseline_indexes specs)) = untouched b j (set (candidate_indexes specs))"
    by blast+
qed


section \<open>The changes of two sources\<close>

definition source_length :: "fav_file option \<Rightarrow> nat" where
  "source_length source = (case source of None \<Rightarrow> 0 | Some f \<Rightarrow> length f)"

lemma change_of_accepted:
  assumes "spec_ok (source_length baseline) (source_length candidate) spec"
    and "\<And>i j f g. baseline = Some f \<Longrightarrow> candidate = Some g \<Longrightarrow> spec = (ChangeReplaced, Some i, Some j) \<Longrightarrow>
      fr_raw_bytes (f ! i) \<noteq> fr_raw_bytes (g ! j)"
  shows "record_change (change_of baseline candidate spec) = Inr (change_of baseline candidate spec)"
proof -
  obtain kind i j where spec: "spec = (kind, i, j)" by (cases spec)
  show ?thesis
    using assms
    by (cases kind)
      (auto simp: spec record_change_def change_of_def spec_ok_def validate_side_def record_at_def
        source_length_def raise_if_def split: option.splits)
qed

lemma spec_differs_raw:
  assumes "spec_ok (length f) (length g) spec"
    and "spec_differs (map fr_raw_bytes f) (map fr_raw_bytes g) spec"
    and "spec = (ChangeReplaced, Some i, Some j)"
  shows "fr_raw_bytes (f ! i) \<noteq> fr_raw_bytes (g ! j)"
  using assms by (auto simp: spec_ok_def spec_differs_def)

definition diff_specs :: "fav_file \<Rightarrow> fav_file \<Rightarrow> change_spec list" where
  "diff_specs f g = concat (map opcode_specs (get_opcodes (map fr_raw_bytes f) (map fr_raw_bytes g)))"

lemmas diff_specs_facts =
  tiles_specs [OF difflib.tile, where a = "map fr_raw_bytes f" and b = "map fr_raw_bytes g" for f g,
    folded diff_specs_def, unfolded length_map]

lemma one_sided_specs:
  "list_all (spec_ok m n) (removed_specs 0 m)" "list_all (spec_ok m n) (added_specs 0 n)"
  by (simp_all add: removed_specs_def added_specs_def list_all_iff spec_ok_def)

text \<open>Unless both sources are missing, comparing them raises no error.\<close>

lemma record_changes_total:
  assumes "record_change_specs baseline candidate = Inr specs"
  shows "record_changes baseline candidate = Inr (map (change_of baseline candidate) specs)"
    and "list_all (spec_ok (source_length baseline) (source_length candidate)) specs"
proof -
  have ok: "list_all (spec_ok (source_length baseline) (source_length candidate)) specs \<and>
      (\<forall>f g. baseline = Some f \<longrightarrow> candidate = Some g \<longrightarrow>
        list_all (spec_differs (map fr_raw_bytes f) (map fr_raw_bytes g)) specs)"
    using assms one_sided_specs diff_specs_facts(1,2)
    by (cases baseline; cases candidate)
      (auto simp: record_change_specs_def source_length_def diff_specs_def [symmetric])
  have "record_change (change_of baseline candidate spec) = Inr (change_of baseline candidate spec)"
    if "spec \<in> set specs" for spec
  proof (rule change_of_accepted)
    show "spec_ok (source_length baseline) (source_length candidate) spec"
      using ok that by (simp add: list_all_iff)
    show "fr_raw_bytes (f ! i) \<noteq> fr_raw_bytes (g ! j)"
      if "baseline = Some f" "candidate = Some g" "spec = (ChangeReplaced, Some i, Some j)" for i j f g
      using ok \<open>spec \<in> set specs\<close> that
      by (intro spec_differs_raw [of f g spec]) (auto simp: list_all_iff source_length_def)
  qed
  then show "record_changes baseline candidate = Inr (map (change_of baseline candidate) specs)"
    by (simp add: record_changes_def assms map_res_Inr_map)
  show "list_all (spec_ok (source_length baseline) (source_length candidate)) specs" using ok by blast
qed

text \<open>A change between two sources holds the records it names, and a replacement changes bytes.\<close>

definition change_faithful :: "fav_file \<Rightarrow> fav_file \<Rightarrow> record_change \<Rightarrow> bool" where
  "change_faithful f g c \<longleftrightarrow>
     required_sides (rc_kind c) = (rc_baseline_index c \<noteq> None, rc_candidate_index c \<noteq> None) \<and>
     (case rc_baseline_index c of None \<Rightarrow> rc_baseline_record c = None
      | Some i \<Rightarrow> i < length f \<and> rc_baseline_record c = Some (f ! i)) \<and>
     (case rc_candidate_index c of None \<Rightarrow> rc_candidate_record c = None
      | Some j \<Rightarrow> j < length g \<and> rc_candidate_record c = Some (g ! j)) \<and>
     (rc_kind c = ChangeReplaced \<longrightarrow>
       fr_raw_bytes (f ! the (rc_baseline_index c)) \<noteq> fr_raw_bytes (g ! the (rc_candidate_index c)))"

lemma change_of_faithful:
  assumes "spec_ok (length f) (length g) spec"
    and "spec_differs (map fr_raw_bytes f) (map fr_raw_bytes g) spec"
  shows "change_faithful f g (change_of (Some f) (Some g) spec)"
proof -
  obtain kind i j where spec: "spec = (kind, i, j)" by (cases spec)
  show ?thesis
    using assms
    by (cases kind; cases i; cases j)
      (auto simp: spec change_of_def change_faithful_def record_at_def spec_ok_def spec_differs_def)
qed

lemma change_of_indexes:
  "List.map_filter rc_baseline_index (map (change_of b c) specs) = baseline_indexes specs"
  "List.map_filter rc_candidate_index (map (change_of b c) specs) = candidate_indexes specs"
  by (simp_all add: map_filter_map change_of_def split_beta)

lemma map_untouched:
  "map h (untouched xs i named) = untouched (map h xs) i named"
proof -
  have "map h (map ((!) xs) (filter (\<lambda>k. k \<notin> named) [i..<length xs])) =
      map ((!) (map h xs)) (filter (\<lambda>k. k \<notin> named) [i..<length xs])"
    by (simp add: comp_def)
  then show ?thesis by (simp add: untouched_def)
qed

lemma untouched_all: "untouched xs 0 {} = xs"
  by (simp add: untouched_def map_nth)

lemma diff_specs_Nil: "diff_specs f g = [] \<longleftrightarrow> map fr_raw_bytes f = map fr_raw_bytes g"
proof
  assume "diff_specs f g = []"
  with diff_specs_facts(7) [of f g] show "map fr_raw_bytes f = map fr_raw_bytes g"
    by (simp add: List.map_filter_simps untouched_all)
next
  assume "map fr_raw_bytes f = map fr_raw_bytes g"
  with difflib.same [of "map fr_raw_bytes g"] show "diff_specs f g = []"
    by (auto simp: diff_specs_def list_all_iff opcode_specs_def split: prod.splits opcode_tag.splits)
qed

text \<open>
  C18: Comparing two sources never fails, and its changes are an exact account of the difference: they
  name strictly increasing indexes on both sides, hold the original records, replace only by other
  bytes, and the records they do not name are the same bytes in the same order on both sides. There is
  no change exactly when the sources are equal byte for byte, record by record.
\<close>

theorem record_changes_exact:
  "\<exists>cs. record_changes (Some f) (Some g) = Inr cs \<and>
     sorted_wrt (<) (List.map_filter rc_baseline_index cs) \<and>
     sorted_wrt (<) (List.map_filter rc_candidate_index cs) \<and>
     list_all (change_faithful f g) cs \<and>
     map fr_raw_bytes (untouched f 0 (set (List.map_filter rc_baseline_index cs))) =
       map fr_raw_bytes (untouched g 0 (set (List.map_filter rc_candidate_index cs))) \<and>
     (cs = [] \<longleftrightarrow> map fr_raw_bytes f = map fr_raw_bytes g)"
proof -
  let ?cs = "map (change_of (Some f) (Some g)) (diff_specs f g)"
  have "record_change_specs (Some f) (Some g) = Inr (diff_specs f g)"
    by (simp add: record_change_specs_def diff_specs_def)
  from record_changes_total(1) [OF this] have "record_changes (Some f) (Some g) = Inr ?cs" .
  moreover have "list_all (change_faithful f g) ?cs"
    using diff_specs_facts(1,2) [of f g] change_of_faithful by (auto simp: list_all_iff)
  ultimately show ?thesis
    using diff_specs_facts(3,4,7) [of f g] diff_specs_Nil [of f g]
    by (intro exI [of _ ?cs]) (simp add: change_of_indexes map_untouched)
qed

end
