(* ===== verification/Favorites_Comparison.thy ===== *)
theory Favorites_Comparison
  imports Favorites_Changes "HOL-Library.AList"
begin

text \<open>
  \<^verbatim>\<open>src/sds200/favorites_comparison.py\<close>, second part: the comparison of two workspaces. Its items
  are the catalog, then every HPD file name once, in the order of the baseline and then of the
  candidate; a name with duplicates on a side is an ambiguity. The dictionary of references by file
  name is an association list in insertion order. Tests that an object is the very object of its
  workspace are equality here.
\<close>

section \<open>Sources and ambiguities\<close>

datatype comparison_kind = CompareCatalog | CompareHpd

record document_reference =
  dr_index :: nat
  dr_document :: hierarchy_document

definition dr_filename :: "document_reference \<Rightarrow> string" where
  "dr_filename r = hd_filename (dr_document r)"

definition dr_source :: "document_reference \<Rightarrow> fav_file" where
  "dr_source r = fh_source (hd_hierarchy (dr_document r))"

record comparison_source =
  cs_kind :: comparison_kind
  cs_state :: source_state
  cs_filename :: "string option"
  cs_baseline_document :: "document_reference option"
  cs_candidate_document :: "document_reference option"
  cs_baseline_source :: "fav_file option"
  cs_candidate_source :: "fav_file option"
  cs_record_changes :: "record_change list"

definition validate_catalog_source :: "comparison_source \<Rightarrow> comparison_error + unit" where
  "validate_catalog_source s =
     raise_if (cs_state s \<noteq> SourceMatched) CatalogNotMatched
    (raise_if (cs_filename s \<noteq> None) CatalogHasFilename
    (raise_if (cs_baseline_document s \<noteq> None \<or> cs_candidate_document s \<noteq> None) CatalogHasDocuments
    (raise_if (cs_baseline_source s = None) CatalogWithoutBaseline
    (raise_if (cs_candidate_source s = None) CatalogWithoutCandidate (Inr ())))))"

definition validate_hpd_side ::
  "string \<Rightarrow> document_reference option \<Rightarrow> fav_file option \<Rightarrow> bool \<Rightarrow> comparison_error + unit" where
  "validate_hpd_side filename document source required =
     raise_if ((document \<noteq> None \<or> source \<noteq> None) \<noteq> required) HpdSideMismatch
    (if \<not> required then Inr ()
     else case document of
         None \<Rightarrow> Inl HpdDocumentMissing
       | Some d \<Rightarrow>
           (case source of
              None \<Rightarrow> Inl HpdSourceMissing
            | Some f \<Rightarrow>
                raise_if (dr_filename d \<noteq> filename) HpdFilenameMismatch
               (raise_if (f \<noteq> dr_source d) HpdForeignSource (Inr ()))))"

fun expected_presence :: "source_state \<Rightarrow> bool \<times> bool" where
  "expected_presence SourceMatched = (True, True)"
| "expected_presence SourceAdded = (False, True)"
| "expected_presence SourceRemoved = (True, False)"

definition validate_hpd_source :: "comparison_source \<Rightarrow> comparison_error + unit" where
  "validate_hpd_source s =
     (case cs_filename s of
        None \<Rightarrow> Inl HpdWithoutFilename
      | Some filename \<Rightarrow>
          raise_if (filename = []) HpdWithoutFilename
         (case expected_presence (cs_state s) of (baseline_required, candidate_required) \<Rightarrow>
            bind_res (validate_hpd_side filename (cs_baseline_document s) (cs_baseline_source s)
              baseline_required) (\<lambda>_.
            validate_hpd_side filename (cs_candidate_document s) (cs_candidate_source s)
              candidate_required)))"

definition validate_record_side ::
  "fav_file option \<Rightarrow> nat option \<Rightarrow> fav_record option \<Rightarrow> comparison_error + unit" where
  "validate_record_side source source_index record =
     (case source_index of
        None \<Rightarrow> Inr ()
      | Some i \<Rightarrow>
          (case source of
             None \<Rightarrow> Inl IndexOutsideSource
           | Some f \<Rightarrow>
               raise_if (i \<ge> length f) IndexOutsideSource
              (raise_if (record \<noteq> Some (f ! i)) RecordNotOriginal (Inr ()))))"

definition validate_record_provenance ::
  "comparison_source \<Rightarrow> record_change \<Rightarrow> comparison_error + unit" where
  "validate_record_provenance s c =
     bind_res (validate_record_side (cs_baseline_source s) (rc_baseline_index c) (rc_baseline_record c))
       (\<lambda>_. validate_record_side (cs_candidate_source s) (rc_candidate_index c) (rc_candidate_record c))"

definition change_spec :: "record_change \<Rightarrow> change_spec" where
  "change_spec c = (rc_kind c, rc_baseline_index c, rc_candidate_index c)"

definition comparison_source :: "comparison_source \<Rightarrow> comparison_error + comparison_source" where
  "comparison_source s =
     bind_res (if cs_kind s = CompareCatalog then validate_catalog_source s else validate_hpd_source s)
       (\<lambda>_.
     bind_res (record_change_specs (cs_baseline_source s) (cs_candidate_source s)) (\<lambda>expected_specs.
     raise_if (map change_spec (cs_record_changes s) \<noteq> expected_specs) ChangesNotDiff
    (bind_res (map_res (validate_record_provenance s) (cs_record_changes s)) (\<lambda>_. Inr s))))"

definition cs_changed :: "comparison_source \<Rightarrow> bool" where
  "cs_changed s \<longleftrightarrow> cs_state s \<noteq> SourceMatched \<or> cs_record_changes s \<noteq> []"

record comparison_ambiguity =
  ca_filename :: string
  ca_baseline_documents :: "document_reference list"
  ca_candidate_documents :: "document_reference list"

definition validate_documents :: "string \<Rightarrow> document_reference list \<Rightarrow> comparison_error + unit" where
  "validate_documents filename documents =
     (let indexes = map dr_index documents in
      raise_if (indexes \<noteq> sort indexes) AmbiguityOutOfOrder
     (raise_if (card (set indexes) \<noteq> length indexes) AmbiguityIndexRepeated
     (raise_if (\<exists>d \<in> set documents. dr_filename d \<noteq> filename) AmbiguityFilenameMismatch (Inr ()))))"

definition comparison_ambiguity ::
  "string \<Rightarrow> document_reference list \<Rightarrow> document_reference list \<Rightarrow>
   comparison_error + comparison_ambiguity" where
  "comparison_ambiguity filename baseline_documents candidate_documents =
     raise_if (filename = []) AmbiguityWithoutFilename
    (bind_res (validate_documents filename baseline_documents) (\<lambda>_.
     bind_res (validate_documents filename candidate_documents) (\<lambda>_.
     raise_if (length baseline_documents \<le> 1 \<and> length candidate_documents \<le> 1)
       AmbiguityWithoutDuplicate
       (Inr \<lparr>ca_filename = filename, ca_baseline_documents = baseline_documents,
             ca_candidate_documents = candidate_documents\<rparr>))))"

datatype comparison_item =
    SourceItem comparison_source
  | AmbiguityItem comparison_ambiguity

section \<open>References by file name\<close>

type_synonym references_by_filename = "(string \<times> document_reference list) list"

definition add_reference :: "nat \<times> hierarchy_document \<Rightarrow> references_by_filename \<Rightarrow> references_by_filename" where
  "add_reference entry refs =
     (case entry of (document_index, document) \<Rightarrow>
        let filename = hd_filename document;
            items = (case map_of refs filename of None \<Rightarrow> [] | Some rs \<Rightarrow> rs) in
        AList.update filename
          (items @ [\<lparr>dr_index = document_index, dr_document = document\<rparr>]) refs)"

definition document_references :: "fav_workspace \<Rightarrow> references_by_filename" where
  "document_references w = fold add_reference (List.enumerate 0 (fw_documents w)) []"

definition references_of :: "references_by_filename \<Rightarrow> string \<Rightarrow> document_reference list" where
  "references_of refs filename =
     (case map_of refs filename of None \<Rightarrow> [] | Some rs \<Rightarrow> rs)"

definition validate_document_reference ::
  "fav_workspace \<Rightarrow> document_reference \<Rightarrow> comparison_error + unit" where
  "validate_document_reference w r =
     raise_if (dr_index r \<ge> length (fw_documents w)) DocumentOutsideWorkspace
    (raise_if (fw_documents w ! dr_index r \<noteq> dr_document r) DocumentNotOriginal (Inr ()))"

section \<open>The comparison and its checks\<close>

definition item_filename :: "comparison_item \<Rightarrow> string option" where
  "item_filename item =
     (case item of AmbiguityItem a \<Rightarrow> Some (ca_filename a) | SourceItem s \<Rightarrow> cs_filename s)"

definition item_order_key :: "comparison_item \<Rightarrow> comparison_error + nat \<times> nat" where
  "item_order_key item =
     (case item of
        AmbiguityItem a \<Rightarrow>
          (case ca_baseline_documents a of
             r # _ \<Rightarrow> Inr (1, dr_index r)
           | [] \<Rightarrow>
               (case ca_candidate_documents a of
                  r # _ \<Rightarrow> Inr (2, dr_index r)
                | [] \<Rightarrow> Inl ItemWithoutDocument))
      | SourceItem s \<Rightarrow>
          if cs_kind s = CompareCatalog then Inr (0, 0)
          else case cs_baseline_document s of
              Some r \<Rightarrow> Inr (1, dr_index r)
            | None \<Rightarrow>
                (case cs_candidate_document s of
                   None \<Rightarrow> Inl ItemWithoutDocument
                 | Some r \<Rightarrow> Inr (2, dr_index r)))"

record workspace_comparison =
  wc_baseline :: fav_workspace
  wc_candidate :: fav_workspace
  wc_items :: "comparison_item list"

definition validate_references ::
  "fav_workspace \<Rightarrow> document_reference list \<Rightarrow> comparison_error + unit" where
  "validate_references w rs = bind_res (map_res (validate_document_reference w) rs) (\<lambda>_. Inr ())"

definition check_ambiguity_item ::
  "fav_workspace \<Rightarrow> fav_workspace \<Rightarrow> document_reference list \<Rightarrow> document_reference list \<Rightarrow>
   comparison_item \<Rightarrow> comparison_error + unit" where
  "check_ambiguity_item baseline candidate baseline_documents candidate_documents item =
     (case item of
        SourceItem _ \<Rightarrow> Inl DuplicatesNotAmbiguity
      | AmbiguityItem a \<Rightarrow>
          raise_if (ca_baseline_documents a \<noteq> baseline_documents) AmbiguityBaselineForeign
         (raise_if (ca_candidate_documents a \<noteq> candidate_documents) AmbiguityCandidateForeign
         (bind_res (validate_references baseline (ca_baseline_documents a)) (\<lambda>_.
          validate_references candidate (ca_candidate_documents a)))))"

definition head_option :: "'a list \<Rightarrow> 'a option" where
  "head_option xs = (case xs of [] \<Rightarrow> None | x # _ \<Rightarrow> Some x)"

definition expected_state ::
  "document_reference list \<Rightarrow> document_reference list \<Rightarrow> source_state" where
  "expected_state baseline_documents candidate_documents =
     (if baseline_documents \<noteq> [] \<and> candidate_documents \<noteq> [] then SourceMatched
      else if baseline_documents \<noteq> [] then SourceRemoved else SourceAdded)"

definition check_source_item ::
  "fav_workspace \<Rightarrow> fav_workspace \<Rightarrow> document_reference list \<Rightarrow> document_reference list \<Rightarrow>
   comparison_item \<Rightarrow> comparison_error + unit" where
  "check_source_item baseline candidate baseline_documents candidate_documents item =
     (case item of
        AmbiguityItem _ \<Rightarrow> Inl AmbiguityUnexpected
      | SourceItem s \<Rightarrow>
          raise_if (cs_kind s \<noteq> CompareHpd) ItemNotHpd
         (raise_if (cs_state s \<noteq> expected_state baseline_documents candidate_documents) StateMismatch
         (raise_if (cs_baseline_document s \<noteq> head_option baseline_documents) BaselineDocumentForeign
         (raise_if (cs_candidate_document s \<noteq> head_option candidate_documents) CandidateDocumentForeign
         (bind_res (case cs_baseline_document s of None \<Rightarrow> Inr ()
             | Some r \<Rightarrow> validate_document_reference baseline r) (\<lambda>_.
          case cs_candidate_document s of None \<Rightarrow> Inr ()
             | Some r \<Rightarrow> validate_document_reference candidate r))))))"

definition check_item ::
  "fav_workspace \<Rightarrow> fav_workspace \<Rightarrow> references_by_filename \<Rightarrow> references_by_filename \<Rightarrow>
   comparison_item \<Rightarrow> (nat \<times> nat) option \<times> string set \<Rightarrow>
   comparison_error + (nat \<times> nat) option \<times> string set" where
  "check_item baseline candidate baseline_by_filename candidate_by_filename item state =
     (case state of (previous_key, seen_filenames) \<Rightarrow>
        bind_res (item_order_key item) (\<lambda>order_key.
        raise_if (case previous_key of None \<Rightarrow> False | Some k \<Rightarrow> order_key \<le> k) ItemsOutOfOrder
       (case item_filename item of
          None \<Rightarrow> Inr (Some order_key, seen_filenames)
        | Some filename \<Rightarrow>
            raise_if (filename \<in> seen_filenames) FilenameRepeated
           (let baseline_documents = references_of baseline_by_filename filename;
                candidate_documents = references_of candidate_by_filename filename in
            bind_res
              (if length baseline_documents > 1 \<or> length candidate_documents > 1
               then check_ambiguity_item baseline candidate baseline_documents candidate_documents item
               else check_source_item baseline candidate baseline_documents candidate_documents item)
              (\<lambda>_. Inr (Some order_key, insert filename seen_filenames))))))"

definition check_catalog_item ::
  "fav_workspace \<Rightarrow> fav_workspace \<Rightarrow> comparison_item list \<Rightarrow> comparison_error + unit" where
  "check_catalog_item baseline candidate items =
     (case items of
        [] \<Rightarrow> Inl NoItems
      | AmbiguityItem _ # _ \<Rightarrow> Inl FirstNotCatalog
      | SourceItem s # _ \<Rightarrow>
          raise_if (cs_kind s \<noteq> CompareCatalog) FirstNotCatalog
         (raise_if (cs_baseline_source s \<noteq> Some (fc_source (fw_catalog baseline))) CatalogBaselineForeign
         (raise_if (cs_candidate_source s \<noteq> Some (fc_source (fw_catalog candidate)))
            CatalogCandidateForeign (Inr ()))))"

definition workspace_comparison ::
  "fav_workspace \<Rightarrow> fav_workspace \<Rightarrow> comparison_item list \<Rightarrow> comparison_error + workspace_comparison" where
  "workspace_comparison baseline candidate items =
     bind_res (check_catalog_item baseline candidate items) (\<lambda>_.
     let baseline_by_filename = document_references baseline;
         candidate_by_filename = document_references candidate in
     bind_res (fold_res (check_item baseline candidate baseline_by_filename candidate_by_filename)
       items (None, {})) (\<lambda>(_, seen_filenames).
     raise_if (seen_filenames \<noteq> fst ` set baseline_by_filename \<union> fst ` set candidate_by_filename)
       FilenamesIncomplete
       (Inr \<lparr>wc_baseline = baseline, wc_candidate = candidate, wc_items = items\<rparr>)))"

definition has_ambiguity :: "workspace_comparison \<Rightarrow> bool" where
  "has_ambiguity c \<longleftrightarrow>
     list_ex (\<lambda>item. case item of AmbiguityItem _ \<Rightarrow> True | SourceItem _ \<Rightarrow> False) (wc_items c)"

definition has_changes :: "workspace_comparison \<Rightarrow> bool" where
  "has_changes c \<longleftrightarrow>
     list_ex (\<lambda>item. case item of AmbiguityItem _ \<Rightarrow> False | SourceItem s \<Rightarrow> cs_changed s) (wc_items c)"

definition is_comparable :: "workspace_comparison \<Rightarrow> bool" where
  "is_comparable c \<longleftrightarrow> \<not> has_ambiguity c"

definition is_equal :: "workspace_comparison \<Rightarrow> bool" where
  "is_equal c \<longleftrightarrow> is_comparable c \<and> \<not> has_changes c"

section \<open>Comparing\<close>

definition source_comparison ::
  "comparison_kind \<Rightarrow> source_state \<Rightarrow> string option \<Rightarrow> document_reference option \<Rightarrow>
   document_reference option \<Rightarrow> fav_file option \<Rightarrow> fav_file option \<Rightarrow>
   comparison_error + comparison_source" where
  "source_comparison kind state filename baseline_document candidate_document
      baseline_source candidate_source =
     bind_res (record_changes baseline_source candidate_source) (\<lambda>changes.
       comparison_source
         \<lparr>cs_kind = kind, cs_state = state, cs_filename = filename,
          cs_baseline_document = baseline_document, cs_candidate_document = candidate_document,
          cs_baseline_source = baseline_source, cs_candidate_source = candidate_source,
          cs_record_changes = changes\<rparr>)"

definition baseline_item ::
  "string \<Rightarrow> document_reference list \<Rightarrow> document_reference list \<Rightarrow> comparison_error + comparison_item" where
  "baseline_item filename baseline_documents candidate_documents =
     (if length baseline_documents > 1 \<or> length candidate_documents > 1 then
        bind_res (comparison_ambiguity filename baseline_documents candidate_documents)
          (\<lambda>a. Inr (AmbiguityItem a))
      else case baseline_documents of
          [] \<Rightarrow> Inl FilenameUnknown
        | baseline_reference # _ \<Rightarrow>
            (case candidate_documents of
               candidate_reference # _ \<Rightarrow>
                 bind_res (source_comparison CompareHpd SourceMatched (Some filename)
                   (Some baseline_reference) (Some candidate_reference)
                   (Some (dr_source baseline_reference)) (Some (dr_source candidate_reference)))
                   (\<lambda>s. Inr (SourceItem s))
             | [] \<Rightarrow>
                 bind_res (source_comparison CompareHpd SourceRemoved (Some filename)
                   (Some baseline_reference) None (Some (dr_source baseline_reference)) None)
                   (\<lambda>s. Inr (SourceItem s))))"

definition candidate_item ::
  "string \<Rightarrow> document_reference list \<Rightarrow> comparison_error + comparison_item" where
  "candidate_item filename candidate_documents =
     (if length candidate_documents > 1 then
        bind_res (comparison_ambiguity filename [] candidate_documents) (\<lambda>a. Inr (AmbiguityItem a))
      else case candidate_documents of
          [] \<Rightarrow> Inl FilenameUnknown
        | candidate_reference # _ \<Rightarrow>
            bind_res (source_comparison CompareHpd SourceAdded (Some filename)
              None (Some candidate_reference) None (Some (dr_source candidate_reference)))
              (\<lambda>s. Inr (SourceItem s)))"

text \<open>A loop over documents that emits one item per new file name; it returns the names emitted.\<close>

fun emit_items ::
  "(string \<Rightarrow> comparison_error + comparison_item) \<Rightarrow> hierarchy_document list \<Rightarrow> string set \<Rightarrow>
   comparison_error + comparison_item list \<times> string set" where
  "emit_items item [] emitted = Inr ([], emitted)"
| "emit_items item (d # ds) emitted =
     (let filename = hd_filename d in
      if filename \<in> emitted then emit_items item ds emitted
      else bind_res (item filename) (\<lambda>i.
           bind_res (emit_items item ds (insert filename emitted)) (\<lambda>(items, emitted').
           Inr (i # items, emitted'))))"

definition compare_favorites_workspaces ::
  "fav_workspace \<Rightarrow> fav_workspace \<Rightarrow> comparison_error + workspace_comparison" where
  "compare_favorites_workspaces baseline candidate =
     bind_res (source_comparison CompareCatalog SourceMatched None None None
       (Some (fc_source (fw_catalog baseline))) (Some (fc_source (fw_catalog candidate)))) (\<lambda>catalog.
     let baseline_by_filename = document_references baseline;
         candidate_by_filename = document_references candidate in
     bind_res (emit_items (\<lambda>filename. baseline_item filename
         (references_of baseline_by_filename filename) (references_of candidate_by_filename filename))
       (fw_documents baseline) {}) (\<lambda>(baseline_items, emitted).
     bind_res (emit_items (\<lambda>filename. candidate_item filename
         (references_of candidate_by_filename filename)) (fw_documents candidate) emitted)
       (\<lambda>(candidate_items, _).
     workspace_comparison baseline candidate
       (SourceItem catalog # baseline_items @ candidate_items))))"


section \<open>References\<close>

abbreviation doc_names :: "fav_workspace \<Rightarrow> string list" where
  "doc_names w \<equiv> map hd_filename (fw_documents w)"

definition refs_from :: "nat \<Rightarrow> hierarchy_document list \<Rightarrow> string \<Rightarrow> document_reference list" where
  "refs_from k ds filename =
     map (\<lambda>(i, d). \<lparr>dr_index = i, dr_document = d\<rparr>)
       (filter (\<lambda>(i, d). hd_filename d = filename) (List.enumerate k ds))"

abbreviation refs_for :: "fav_workspace \<Rightarrow> string \<Rightarrow> document_reference list" where
  "refs_for w \<equiv> refs_from 0 (fw_documents w)"

lemma add_reference_step:
  "references_of (add_reference (i, d) refs) filename =
     references_of refs filename @
     (if hd_filename d = filename then [\<lparr>dr_index = i, dr_document = d\<rparr>] else [])"
  "fst ` set (add_reference (i, d) refs) = insert (hd_filename d) (fst ` set refs)"
  by (simp_all add: add_reference_def references_of_def Let_def AList.update_conv' AList.dom_update)

lemma fold_add_reference:
  "references_of (fold add_reference entries refs) filename =
     references_of refs filename @
     map (\<lambda>(i, d). \<lparr>dr_index = i, dr_document = d\<rparr>) (filter (\<lambda>(i, d). hd_filename d = filename) entries)"
proof (induction entries arbitrary: refs)
  case (Cons entry entries)
  then show ?case by (cases entry) (simp add: add_reference_step)
qed simp

lemma fold_add_reference_names:
  "fst ` set (fold add_reference entries refs) = fst ` set refs \<union> (hd_filename \<circ> snd) ` set entries"
proof (induction entries arbitrary: refs)
  case (Cons entry entries)
  then show ?case by (cases entry) (simp add: add_reference_step)
qed simp

lemma references_of_document_references:
  "references_of (document_references w) filename = refs_for w filename"
  by (simp add: document_references_def fold_add_reference references_of_def [of "[]"] refs_from_def)

lemma document_references_names:
  "fst ` set (document_references w) = set (doc_names w)"
proof -
  have "(hd_filename \<circ> snd) ` set (List.enumerate 0 (fw_documents w)) = hd_filename ` set (fw_documents w)"
    by (metis image_comp map_snd_enumerate set_map)
  then show ?thesis by (simp add: document_references_def fold_add_reference_names)
qed

fun first_index :: "'a list \<Rightarrow> 'a \<Rightarrow> nat" where
  "first_index [] v = 0"
| "first_index (x # xs) v = (if x = v then 0 else Suc (first_index xs v))"

lemma refs_from_Cons:
  "refs_from k (d # ds) filename =
     (if hd_filename d = filename then [\<lparr>dr_index = k, dr_document = d\<rparr>] else []) @
     refs_from (Suc k) ds filename"
  by (simp add: refs_from_def)

lemma refs_from_Nil [simp]: "refs_from k [] filename = []"
  by (simp add: refs_from_def)

lemma refs_from_length: "length (refs_from k ds filename) = count_list (map hd_filename ds) filename"
  by (induction ds arbitrary: k) (auto simp: refs_from_Cons)

lemma refs_from_empty: "refs_from k ds filename = [] \<longleftrightarrow> filename \<notin> hd_filename ` set ds"
  by (induction ds arbitrary: k) (auto simp: refs_from_Cons)

lemma refs_from_first:
  "filename \<in> hd_filename ` set ds \<Longrightarrow>
     dr_index (hd (refs_from k ds filename)) = k + first_index (map hd_filename ds) filename"
  by (induction ds arbitrary: k) (auto simp: refs_from_Cons)

lemma refs_from_member:
  "r \<in> set (refs_from k ds filename) \<Longrightarrow>
     k \<le> dr_index r \<and> dr_index r < k + length ds \<and> ds ! (dr_index r - k) = dr_document r \<and>
     dr_filename r = filename"
proof (induction ds arbitrary: k)
  case (Cons d ds)
  then show ?case
    by (fastforce simp: refs_from_Cons dr_filename_def Suc_le_eq nth_Cons' split: if_splits)
qed simp

lemma refs_from_sorted: "sorted_wrt (<) (map dr_index (refs_from k ds filename))"
proof (induction ds arbitrary: k)
  case (Cons d ds)
  have "k < dr_index r" if "r \<in> set (refs_from (Suc k) ds filename)" for r
    using refs_from_member [OF that] by simp
  with Cons show ?case by (auto simp: refs_from_Cons)
qed simp

lemma refs_for_valid: "map_res (validate_document_reference w) (refs_for w filename) = Inr (map (\<lambda>_. ()) (refs_for w filename))"
proof (rule map_res_Inr_map)
  fix r assume "r \<in> set (refs_for w filename)"
  from refs_from_member [OF this] show "validate_document_reference w r = Inr ()"
    by (simp add: validate_document_reference_def)
qed

lemma refs_for_documents:
  "filename \<noteq> [] \<Longrightarrow> validate_documents filename (refs_for w filename) = Inr ()"
proof -
  have "sorted (map dr_index (refs_for w filename))" "distinct (map dr_index (refs_for w filename))"
    using refs_from_sorted strict_sorted_iff by blast+
  moreover from this have "card (set (map dr_index (refs_for w filename))) = length (map dr_index (refs_for w filename))"
    by (metis distinct_card)
  moreover have "\<forall>r \<in> set (refs_for w filename). dr_filename r = filename"
    using refs_from_member by blast
  ultimately show ?thesis
    by (simp add: validate_documents_def Let_def sorted_sort_id del: set_map)
qed


section \<open>The items of a comparison\<close>

text \<open>The specification: the item of a file name, from the references of both sides.\<close>

definition changes_between :: "fav_file option \<Rightarrow> fav_file option \<Rightarrow> record_change list" where
  "changes_between baseline candidate = projr (record_changes baseline candidate)"

definition catalog_source :: "fav_workspace \<Rightarrow> fav_workspace \<Rightarrow> comparison_source" where
  "catalog_source b c =
     \<lparr>cs_kind = CompareCatalog, cs_state = SourceMatched, cs_filename = None,
      cs_baseline_document = None, cs_candidate_document = None,
      cs_baseline_source = Some (fc_source (fw_catalog b)),
      cs_candidate_source = Some (fc_source (fw_catalog c)),
      cs_record_changes = changes_between (Some (fc_source (fw_catalog b))) (Some (fc_source (fw_catalog c)))\<rparr>"

definition hpd_source ::
  "string \<Rightarrow> source_state \<Rightarrow> document_reference option \<Rightarrow> document_reference option \<Rightarrow> comparison_source" where
  "hpd_source filename state rb rc =
     \<lparr>cs_kind = CompareHpd, cs_state = state, cs_filename = Some filename,
      cs_baseline_document = rb, cs_candidate_document = rc,
      cs_baseline_source = map_option dr_source rb, cs_candidate_source = map_option dr_source rc,
      cs_record_changes = changes_between (map_option dr_source rb) (map_option dr_source rc)\<rparr>"

definition item_for :: "fav_workspace \<Rightarrow> fav_workspace \<Rightarrow> string \<Rightarrow> comparison_item" where
  "item_for b c filename =
     (if length (refs_for b filename) > 1 \<or> length (refs_for c filename) > 1
      then AmbiguityItem \<lparr>ca_filename = filename, ca_baseline_documents = refs_for b filename,
        ca_candidate_documents = refs_for c filename\<rparr>
      else SourceItem (hpd_source filename (expected_state (refs_for b filename) (refs_for c filename))
        (head_option (refs_for b filename)) (head_option (refs_for c filename))))"

lemma change_spec_of: "change_spec (change_of b c spec) = spec"
  by (simp add: change_spec_def change_of_def split_beta)

lemma map_change_spec_of: "map change_spec (map (change_of b c) specs) = specs"
  by (simp add: comp_def change_spec_of)

lemma provenance_of_change:
  assumes "spec_ok (source_length (cs_baseline_source s)) (source_length (cs_candidate_source s)) spec"
  shows "validate_record_provenance s (change_of (cs_baseline_source s) (cs_candidate_source s) spec) = Inr ()"
proof -
  obtain kind i j where spec: "spec = (kind, i, j)" by (cases spec)
  have "validate_record_side f k (record_at f k) = Inr ()" if "\<forall>n \<in> set_option k. n < source_length f" for f k
    using that by (auto simp: validate_record_side_def record_at_def source_length_def split: option.splits)
  with assms show ?thesis
    by (simp add: validate_record_provenance_def change_of_def spec spec_ok_def)
qed

lemma source_comparison_Inr:
  assumes "rb \<noteq> None \<or> rc \<noteq> None"
    and "(if kind = CompareCatalog then validate_catalog_source else validate_hpd_source)
      \<lparr>cs_kind = kind, cs_state = state, cs_filename = filename, cs_baseline_document = db,
       cs_candidate_document = dc, cs_baseline_source = rb, cs_candidate_source = rc,
       cs_record_changes = changes_between rb rc\<rparr> = Inr ()"
  shows "source_comparison kind state filename db dc rb rc = Inr
      \<lparr>cs_kind = kind, cs_state = state, cs_filename = filename, cs_baseline_document = db,
       cs_candidate_document = dc, cs_baseline_source = rb, cs_candidate_source = rc,
       cs_record_changes = changes_between rb rc\<rparr>"
proof -
  let ?s = "\<lparr>cs_kind = kind, cs_state = state, cs_filename = filename, cs_baseline_document = db,
       cs_candidate_document = dc, cs_baseline_source = rb, cs_candidate_source = rc,
       cs_record_changes = changes_between rb rc\<rparr>"
  obtain specs where specs: "record_change_specs rb rc = Inr specs"
    using assms(1) by (cases rb; cases rc) (auto simp: record_change_specs_def)
  note changes = record_changes_total [OF specs]
  have between: "changes_between rb rc = map (change_of rb rc) specs"
    by (simp add: changes_between_def changes(1))
  have "map_res (validate_record_provenance ?s) (cs_record_changes ?s) = Inr (map (\<lambda>_. ()) (cs_record_changes ?s))"
    using changes(2) provenance_of_change [of ?s]
    by (intro map_res_Inr_map) (auto simp: between list_all_iff)
  moreover have "map change_spec (changes_between rb rc) = specs"
    by (simp only: between map_change_spec_of)
  ultimately show ?thesis
    using assms(2) specs
    by (cases "kind = CompareCatalog")
      (simp_all add: source_comparison_def comparison_source_def changes(1) between [symmetric])
qed

lemma source_comparison_catalog:
  "source_comparison CompareCatalog SourceMatched None None None
     (Some (fc_source (fw_catalog b))) (Some (fc_source (fw_catalog c))) = Inr (catalog_source b c)"
  unfolding catalog_source_def by (rule source_comparison_Inr) (simp_all add: validate_catalog_source_def)

lemma source_comparison_hpd:
  assumes "filename \<noteq> []" and "expected_presence state = (rb \<noteq> None, rc \<noteq> None)"
    and "rb \<noteq> None \<or> rc \<noteq> None" and "\<forall>r \<in> set_option rb \<union> set_option rc. dr_filename r = filename"
  shows "source_comparison CompareHpd state (Some filename) rb rc (map_option dr_source rb)
    (map_option dr_source rc) = Inr (hpd_source filename state rb rc)"
  unfolding hpd_source_def using assms
  by (intro source_comparison_Inr)
    (auto simp: validate_hpd_source_def validate_hpd_side_def split: option.splits)

lemma ambiguity_item:
  assumes "filename \<noteq> []" and "length (refs_for b filename) > 1 \<or> length (refs_for c filename) > 1"
  shows "bind_res (comparison_ambiguity filename (refs_for b filename) (refs_for c filename))
    (\<lambda>a. Inr (AmbiguityItem a)) = Inr (item_for b c filename)"
proof -
  have "comparison_ambiguity filename (refs_for b filename) (refs_for c filename) =
    Inr \<lparr>ca_filename = filename, ca_baseline_documents = refs_for b filename,
      ca_candidate_documents = refs_for c filename\<rparr>"
    using assms refs_for_documents [OF assms(1)]
    by (cases "length (refs_for b filename) \<le> 1") (auto simp: comparison_ambiguity_def)
  with assms(2) show ?thesis unfolding item_for_def by auto
qed

lemma refs_for_name: "r \<in> set (refs_for w filename) \<Longrightarrow> dr_filename r = filename"
  using refs_from_member by blast

lemma baseline_item_Inr:
  assumes "filename \<noteq> []" and "filename \<in> set (doc_names b)"
  shows "baseline_item filename (refs_for b filename) (refs_for c filename) = Inr (item_for b c filename)"
proof (cases "length (refs_for b filename) > 1 \<or> length (refs_for c filename) > 1")
  case True
  show ?thesis
    unfolding baseline_item_def if_P [OF True] by (rule ambiguity_item [OF assms(1) True])
next
  case False
  from assms(2) obtain r rs where b: "refs_for b filename = r # rs"
    by (metis refs_from_empty list.exhaust list.set_map)
  show ?thesis
  proof (cases "refs_for c filename")
    case Nil
    with source_comparison_hpd [OF assms(1), of SourceRemoved "Some r" None]
      refs_for_name [of r b filename] b False
    show ?thesis by (simp add: baseline_item_def item_for_def expected_state_def head_option_def)
  next
    case (Cons r' rs')
    with source_comparison_hpd [OF assms(1), of SourceMatched "Some r" "Some r'"]
      refs_for_name [of r b filename] refs_for_name [of r' c filename] b False
    show ?thesis by (simp add: baseline_item_def item_for_def expected_state_def head_option_def)
  qed
qed

lemma candidate_item_Inr:
  assumes "filename \<noteq> []" and "filename \<notin> set (doc_names b)" and "filename \<in> set (doc_names c)"
  shows "candidate_item filename (refs_for c filename) = Inr (item_for b c filename)"
proof -
  from assms(2) have b: "refs_for b filename = []" by (simp add: refs_from_empty)
  show ?thesis
  proof (cases "length (refs_for c filename) > 1")
    case True
    with ambiguity_item [OF assms(1), of b c] show ?thesis by (simp add: candidate_item_def b)
  next
    case False
    from assms(3) obtain r rs where "refs_for c filename = r # rs"
      by (metis refs_from_empty list.exhaust list.set_map)
    with source_comparison_hpd [OF assms(1), of SourceAdded None "Some r"]
      refs_for_name [of r c filename] False b
    show ?thesis
      by (auto simp: candidate_item_def item_for_def expected_state_def head_option_def)
  qed
qed

lemma emit_items_Inr:
  assumes "\<And>n. n \<in> set (map hd_filename ds) - emitted \<Longrightarrow> item n = Inr (f n)"
  shows "emit_items item ds emitted =
    Inr (map f (filter (\<lambda>n. n \<notin> emitted) (first_occurrences (map hd_filename ds))),
         emitted \<union> set (map hd_filename ds))"
  using assms
proof (induction ds arbitrary: emitted)
  case (Cons d ds)
  show ?case
  proof (cases "hd_filename d \<in> emitted")
    case True
    with Cons show ?thesis
      by (auto simp: Let_def intro!: arg_cong [where f = "map f"] filter_cong)
  next
    case False
    have "emit_items item ds (insert (hd_filename d) emitted) =
        Inr (map f (filter (\<lambda>n. n \<notin> insert (hd_filename d) emitted) (first_occurrences (map hd_filename ds))),
          insert (hd_filename d) emitted \<union> set (map hd_filename ds))"
      using Cons.prems by (intro Cons.IH) simp
    moreover have "filter (\<lambda>n. n \<notin> insert (hd_filename d) emitted) xs =
        filter (\<lambda>n. n \<noteq> hd_filename d \<and> n \<notin> emitted) xs" for xs
      by (intro filter_cong) auto
    ultimately show ?thesis using Cons.prems False by (simp add: Let_def)
  qed
qed simp

lemma first_occurrences_append:
  "first_occurrences (xs @ ys) = first_occurrences xs @ filter (\<lambda>y. y \<notin> set xs) (first_occurrences ys)"
proof (induction xs)
  case (Cons x xs)
  have "filter (\<lambda>y. y \<noteq> x \<and> y \<notin> set xs) zs = filter (\<lambda>y. y \<notin> set (x # xs)) zs" for zs
    by (intro filter_cong) auto
  with Cons show ?case by (simp add: conj_commute)
qed simp


section \<open>The comparison is total\<close>

lemma first_index_sorted: "sorted_wrt (<) (map (first_index xs) (first_occurrences xs))"
proof (induction xs)
  case (Cons x xs)
  have eq: "map (first_index (x # xs)) (first_occurrences (x # xs)) =
      0 # map Suc (map (first_index xs) (filter (\<lambda>y. y \<noteq> x) (first_occurrences xs)))"
    by simp
  have "sorted_wrt (<) (map (first_index xs) (filter (\<lambda>y. y \<noteq> x) (first_occurrences xs)))"
    using Cons by (simp add: sorted_wrt_map sorted_wrt_filter)
  then show ?case unfolding eq by (simp add: sorted_wrt_map)
qed simp

definition name_key :: "fav_workspace \<Rightarrow> fav_workspace \<Rightarrow> string \<Rightarrow> nat \<times> nat" where
  "name_key b c filename =
     (if filename \<in> set (doc_names b) then (1, first_index (doc_names b) filename)
      else (2, first_index (doc_names c) filename))"

definition all_names :: "fav_workspace \<Rightarrow> fav_workspace \<Rightarrow> string list" where
  "all_names b c = first_occurrences (doc_names b @ doc_names c)"

lemma name_keys_sorted: "sorted_wrt (<) (map (name_key b c) (all_names b c))"
proof -
  have b: "map (name_key b c) (first_occurrences (doc_names b)) =
      map (Pair (1 :: nat) \<circ> first_index (doc_names b)) (first_occurrences (doc_names b))"
    by (simp add: name_key_def)
  have c: "map (name_key b c) (filter (\<lambda>y. y \<notin> set (doc_names b)) xs) =
      map (Pair (2 :: nat) \<circ> first_index (doc_names c)) (filter (\<lambda>y. y \<notin> set (doc_names b)) xs)" for xs
    by (simp add: name_key_def)
  have "sorted_wrt (<) (map (Pair (1 :: nat) \<circ> first_index (doc_names b)) (first_occurrences (doc_names b)))"
    using first_index_sorted [of "doc_names b"] by (simp add: sorted_wrt_map)
  moreover have "sorted_wrt (<) (map (Pair (2 :: nat) \<circ> first_index (doc_names c))
      (filter (\<lambda>y. y \<notin> set (doc_names b)) (first_occurrences (doc_names c))))"
    using first_index_sorted [of "doc_names c"] by (simp add: sorted_wrt_map sorted_wrt_filter)
  ultimately show ?thesis
    unfolding all_names_def first_occurrences_append map_append b c
    by (auto simp: sorted_wrt_append)
qed

lemma refs_for_head:
  assumes "filename \<in> set (doc_names w)"
  obtains r rs where "refs_for w filename = r # rs" and "dr_index r = first_index (doc_names w) filename"
proof -
  obtain r rs where r: "refs_for w filename = r # rs"
    using assms by (metis refs_from_empty list.exhaust list.set_map)
  have "dr_index (hd (refs_for w filename)) = 0 + first_index (doc_names w) filename"
    using assms by (intro refs_from_first) simp
  with r show thesis by (intro that) auto
qed

lemma item_for_key:
  assumes "filename \<in> set (all_names b c)"
  shows "item_order_key (item_for b c filename) = Inr (name_key b c filename)"
proof -
  have key: "item_order_key (item_for b c filename) =
      (case refs_for b filename of
         r # _ \<Rightarrow> Inr (1, dr_index r)
       | [] \<Rightarrow> (case refs_for c filename of r # _ \<Rightarrow> Inr (2, dr_index r) | [] \<Rightarrow> Inl ItemWithoutDocument))"
    by (simp add: item_for_def item_order_key_def hpd_source_def head_option_def split: list.split)
  show ?thesis
  proof (cases "filename \<in> set (doc_names b)")
    case True
    then obtain r rs where "refs_for b filename = r # rs" "dr_index r = first_index (doc_names b) filename"
      by (rule refs_for_head)
    with key True show ?thesis by (simp add: name_key_def)
  next
    case False
    then have "refs_for b filename = []" by (simp add: refs_from_empty)
    moreover have "filename \<in> set (doc_names c)" using assms False by (simp add: all_names_def)
    then obtain r rs where "refs_for c filename = r # rs" "dr_index r = first_index (doc_names c) filename"
      by (rule refs_for_head)
    ultimately show ?thesis using key False by (simp add: name_key_def)
  qed
qed

lemma item_for_name: "item_filename (item_for b c filename) = Some filename"
  by (simp add: item_for_def item_filename_def hpd_source_def)

lemma head_reference_valid:
  "(case head_option (refs_for w filename) of None \<Rightarrow> Inr () | Some r \<Rightarrow> validate_document_reference w r) = Inr ()"
proof (cases "refs_for w filename")
  case (Cons r rs)
  then show ?thesis
    using refs_from_member [of r 0 "fw_documents w" filename]
    by (simp add: head_option_def validate_document_reference_def)
qed (simp add: head_option_def)

lemma check_item_for:
  assumes "filename \<in> set (all_names b c)" and "filename \<notin> seen"
    and "case previous of None \<Rightarrow> True | Some k \<Rightarrow> k < name_key b c filename"
  shows "check_item b c (document_references b) (document_references c) (item_for b c filename) (previous, seen) =
    Inr (Some (name_key b c filename), insert filename seen)"
proof -
  have "check_ambiguity_item b c (refs_for b filename) (refs_for c filename) (item_for b c filename) = Inr ()"
    if "length (refs_for b filename) > 1 \<or> length (refs_for c filename) > 1"
    unfolding item_for_def if_P [OF that]
    by (simp add: check_ambiguity_item_def validate_references_def refs_for_valid)
  moreover have "check_source_item b c (refs_for b filename) (refs_for c filename) (item_for b c filename) = Inr ()"
    if "\<not> (length (refs_for b filename) > 1 \<or> length (refs_for c filename) > 1)"
    unfolding item_for_def if_not_P [OF that]
    by (simp add: check_source_item_def hpd_source_def head_reference_valid)
  moreover have "\<not> (case previous of None \<Rightarrow> False | Some k \<Rightarrow> name_key b c filename \<le> k)"
    using assms(3) by (auto split: option.splits)
  ultimately show ?thesis
    using assms(1,2)
    by (simp add: check_item_def item_for_key item_for_name references_of_document_references Let_def)
qed

lemma check_items_for:
  assumes "set names \<subseteq> set (all_names b c)" and "distinct names" and "set names \<inter> seen = {}"
    and "sorted_wrt (<) (map (name_key b c) names)"
    and "case previous of None \<Rightarrow> True | Some k \<Rightarrow> \<forall>n \<in> set names. k < name_key b c n"
  shows "\<exists>last_key. fold_res (check_item b c (document_references b) (document_references c))
    (map (item_for b c) names) (previous, seen) = Inr (last_key, seen \<union> set names)"
  using assms
proof (induction names arbitrary: previous seen)
  case (Cons n names)
  have "check_item b c (document_references b) (document_references c) (item_for b c n) (previous, seen) =
      Inr (Some (name_key b c n), insert n seen)"
    using Cons.prems by (intro check_item_for) (auto split: option.splits)
  moreover have "\<exists>last_key. fold_res (check_item b c (document_references b) (document_references c))
      (map (item_for b c) names) (Some (name_key b c n), insert n seen) =
      Inr (last_key, insert n seen \<union> set names)"
    using Cons.prems by (intro Cons.IH) auto
  ultimately show ?case by simp
qed simp

definition nonempty_names :: "fav_workspace \<Rightarrow> bool" where
  "nonempty_names w \<longleftrightarrow> list_all (\<lambda>d. hd_filename d \<noteq> []) (fw_documents w)"

definition comparison_of :: "fav_workspace \<Rightarrow> fav_workspace \<Rightarrow> workspace_comparison" where
  "comparison_of b c = \<lparr>wc_baseline = b, wc_candidate = c,
     wc_items = SourceItem (catalog_source b c) # map (item_for b c) (all_names b c)\<rparr>"

lemma workspace_comparison_Inr:
  "workspace_comparison b c (SourceItem (catalog_source b c) # map (item_for b c) (all_names b c)) =
     Inr (comparison_of b c)"
proof -
  have first: "check_item b c (document_references b) (document_references c)
      (SourceItem (catalog_source b c)) (None, {}) = Inr (Some (0, 0), {})"
    by (simp add: check_item_def item_order_key_def item_filename_def catalog_source_def)
  have "\<forall>n \<in> set (all_names b c). (0, 0) < name_key b c n"
    by (simp add: name_key_def)
  then obtain last_key where "fold_res (check_item b c (document_references b) (document_references c))
      (map (item_for b c) (all_names b c)) (Some (0, 0), {}) = Inr (last_key, {} \<union> set (all_names b c))"
    using check_items_for [of "all_names b c" b c "{}" "Some (0, 0)"] name_keys_sorted
    by (auto simp: all_names_def)
  moreover have "set (all_names b c) = fst ` set (document_references b) \<union> fst ` set (document_references c)"
    by (simp add: document_references_names all_names_def)
  ultimately show ?thesis
    by (simp add: workspace_comparison_def check_catalog_item_def first Let_def comparison_of_def)
      (simp add: catalog_source_def)
qed

lemma compare_Inr:
  assumes "nonempty_names b" and "nonempty_names c"
  shows "compare_favorites_workspaces b c = Inr (comparison_of b c)"
proof -
  have nonempty: "n \<noteq> []" if "n \<in> set (doc_names b) \<union> set (doc_names c)" for n
    using assms that by (auto simp: nonempty_names_def list_all_iff)
  have "emit_items (\<lambda>n. baseline_item n (refs_for b n) (refs_for c n)) (fw_documents b) {} =
      Inr (map (item_for b c) (first_occurrences (doc_names b)), set (doc_names b))"
    using emit_items_Inr [of "fw_documents b" "{}" _ "item_for b c"] baseline_item_Inr nonempty by simp
  moreover have "emit_items (\<lambda>n. candidate_item n (refs_for c n)) (fw_documents c) (set (doc_names b)) =
      Inr (map (item_for b c) (filter (\<lambda>n. n \<notin> set (doc_names b)) (first_occurrences (doc_names c))),
        set (doc_names b) \<union> set (doc_names c))"
    using candidate_item_Inr nonempty by (intro emit_items_Inr) auto
  ultimately show ?thesis
    using workspace_comparison_Inr [of b c]
    by (simp add: compare_favorites_workspaces_def source_comparison_catalog
        references_of_document_references all_names_def first_occurrences_append)
qed

text \<open>
  A document may have an empty file name, which the comparison refuses: the constructor of the
  item of that name raises.
\<close>

definition empty_name_error :: "fav_workspace \<Rightarrow> fav_workspace \<Rightarrow> comparison_error" where
  "empty_name_error b c =
     (if count_list (doc_names b) [] > 1 \<or> count_list (doc_names c) [] > 1
      then AmbiguityWithoutFilename else HpdWithoutFilename)"

lemma source_comparison_unnamed:
  assumes "rb \<noteq> None \<or> rc \<noteq> None"
  shows "source_comparison CompareHpd state (Some []) db dc rb rc = Inl HpdWithoutFilename"
proof -
  obtain specs where "record_change_specs rb rc = Inr specs"
    using assms by (cases rb; cases rc) (auto simp: record_change_specs_def)
  then show ?thesis
    by (simp add: source_comparison_def comparison_source_def validate_hpd_source_def
        record_changes_total(1))
qed

lemma baseline_item_unnamed:
  assumes "[] \<in> set (doc_names b)"
  shows "baseline_item [] (refs_for b []) (refs_for c []) = Inl (empty_name_error b c)"
proof -
  obtain r rs where "refs_for b [] = r # rs"
    using assms by (metis refs_from_empty list.exhaust list.set_map)
  then show ?thesis
    using refs_from_length [of 0 "fw_documents b" "[]"] refs_from_length [of 0 "fw_documents c" "[]"]
    by (auto simp: baseline_item_def empty_name_error_def comparison_ambiguity_def
        source_comparison_unnamed split: list.split)
qed

lemma candidate_item_unnamed:
  assumes "[] \<notin> set (doc_names b)" and "[] \<in> set (doc_names c)"
  shows "candidate_item [] (refs_for c []) = Inl (empty_name_error b c)"
proof -
  obtain r rs where "refs_for c [] = r # rs"
    using assms(2) by (metis refs_from_empty list.exhaust list.set_map)
  then show ?thesis
    using refs_from_length [of 0 "fw_documents c" "[]"] assms(1)
    by (auto simp: candidate_item_def empty_name_error_def comparison_ambiguity_def
        source_comparison_unnamed count_notin split: list.split)
qed

lemma emit_items_Inl:
  assumes "\<And>n. n \<in> set (map hd_filename ds) - emitted \<Longrightarrow> n \<noteq> bad \<Longrightarrow> item n = Inr (f n)"
    and "item bad = Inl e" and "bad \<in> set (map hd_filename ds) - emitted"
  shows "emit_items item ds emitted = Inl e"
  using assms
proof (induction ds arbitrary: emitted)
  case (Cons d ds)
  show ?case
  proof (cases "hd_filename d \<in> emitted \<or> hd_filename d = bad")
    case True
    then show ?thesis using Cons by (auto simp: Let_def)
  next
    case False
    have "emit_items item ds (insert (hd_filename d) emitted) = Inl e"
      using Cons.prems False by (intro Cons.IH) auto
    with Cons.prems(1) False show ?thesis by (simp add: Let_def)
  qed
qed simp

lemma nonempty_names_iff: "nonempty_names w \<longleftrightarrow> [] \<notin> set (doc_names w)"
  by (auto simp: nonempty_names_def list_all_iff image_iff)

lemma compare_Inl:
  assumes "\<not> (nonempty_names b \<and> nonempty_names c)"
  shows "compare_favorites_workspaces b c = Inl (empty_name_error b c)"
proof -
  note unfolded = compare_favorites_workspaces_def source_comparison_catalog
    references_of_document_references
  let ?baseline = "\<lambda>n. baseline_item n (refs_for b n) (refs_for c n)"
  let ?candidate = "\<lambda>n. candidate_item n (refs_for c n)"
  show ?thesis
  proof (cases "[] \<in> set (doc_names b)")
    case True
    have "emit_items ?baseline (fw_documents b) {} = Inl (empty_name_error b c)"
      by (rule emit_items_Inl [where bad = "[]" and f = "item_for b c"])
        (use True baseline_item_Inr baseline_item_unnamed in auto)
    then show ?thesis by (simp add: unfolded)
  next
    case False
    have "?baseline n = Inr (item_for b c n)" if "n \<in> set (doc_names b) - {}" for n
      by (rule baseline_item_Inr; use that False in blast)
    from emit_items_Inr [where ds = "fw_documents b" and emitted = "{}" and item = ?baseline, OF this]
    have baseline: "\<exists>items. emit_items ?baseline (fw_documents b) {} = Inr (items, set (doc_names b))"
      by simp
    have empty: "[] \<in> set (doc_names c)" using assms False unfolding nonempty_names_iff by blast
    have "emit_items ?candidate (fw_documents c) (set (doc_names b)) = Inl (empty_name_error b c)"
      by (rule emit_items_Inl [where bad = "[]" and f = "item_for b c"])
        (use False empty candidate_item_Inr candidate_item_unnamed in auto)
    with baseline show ?thesis by (auto simp: unfolded)
  qed
qed


section \<open>Comparing snapshots\<close>

definition snapshot_contents :: "storage_snapshot \<Rightarrow> string \<rightharpoonup> bytes" where
  "snapshot_contents s = map_of (map (\<lambda>d. (sd_filename d, sd_content d)) (sn_documents s))"

definition snapshot_names :: "storage_snapshot \<Rightarrow> string list" where
  "snapshot_names s = map sd_filename (sn_documents s)"

definition reparses :: "fav_file \<Rightarrow> bool" where
  "reparses f \<longleftrightarrow> parse_favorites_file (to_bytes f) = Inr f"

lemma parsed_reparses: "parse_favorites_file data = Inr f \<Longrightarrow> reparses f"
  by (simp add: reparses_def parse_to_bytes_id)

lemma raw_bytes_iff:
  "reparses f \<Longrightarrow> reparses g \<Longrightarrow> map fr_raw_bytes f = map fr_raw_bytes g \<longleftrightarrow> to_bytes f = to_bytes g"
  unfolding reparses_def by (metis Inr_inject to_bytes_def)

lemma changes_between_Nil:
  "changes_between (Some f) (Some g) = [] \<longleftrightarrow> map fr_raw_bytes f = map fr_raw_bytes g"
proof -
  have "record_change_specs (Some f) (Some g) = Inr (diff_specs f g)"
    by (simp add: record_change_specs_def diff_specs_def)
  from record_changes_total(1) [OF this] show ?thesis
    by (simp add: changes_between_def diff_specs_Nil)
qed

lemma distinct_count_list: "distinct xs \<longleftrightarrow> (\<forall>x \<in> set xs. count_list xs x \<le> 1)"
proof (induction xs)
  case (Cons a xs)
  have "count_list xs a = 0 \<longleftrightarrow> a \<notin> set xs" by (simp add: count_list_0_iff)
  with Cons show ?case by (auto simp: le_Suc_eq)
qed simp

lemma project_doc_names: "project_favorites_storage_snapshot s = Inr w \<Longrightarrow> doc_names w = snapshot_names s"
  using project_names by (simp add: snapshot_names_def)

lemma project_nonempty:
  assumes "snapshot_ok s" and "project_favorites_storage_snapshot s = Inr w"
  shows "nonempty_names w"
proof -
  have "n \<noteq> []" if "n \<in> set (doc_names w)" for n
    using that assms(1) unfolding project_doc_names [OF assms(2)]
    by (auto simp: snapshot_names_def snapshot_ok_def unsafe_filename_def)
  then show ?thesis by (auto simp: nonempty_names_def list_all_iff)
qed

lemma project_document_reparses:
  "project_document d = Inr h \<Longrightarrow> reparses (fh_source (hd_hierarchy h))"
proof -
  assume "project_document d = Inr h"
  then obtain f where "parse_favorites_file (sd_content d) = Inr f"
    "project_favorites_hierarchy f = Inr (hd_hierarchy h)"
    by (auto simp: project_document_def res_simps)
  then show ?thesis by (metis parsed_reparses project_hierarchy_source)
qed

lemma project_catalog_parsed:
  assumes "project_favorites_storage_snapshot s = Inr w"
  shows "parse_favorites_file (sn_catalog_bytes s) = Inr (fc_source (fw_catalog w))"
proof -
  from assms obtain src c ds where "parse_favorites_file (sn_catalog_bytes s) = Inr src"
    "project_favorites_catalog src = Inr c" "bind_favorites_workspace c ds = Inr w"
    by (auto simp: project_favorites_storage_snapshot_def res_simps)
  then show ?thesis by (metis bind_keeps project_catalog_source)
qed

lemma contents_refs:
  assumes "list_all2 (\<lambda>d h. project_document d = Inr h) ds hs"
  shows "map_of (map (\<lambda>d. (sd_filename d, sd_content d)) ds) n =
      map_option (to_bytes \<circ> dr_source) (head_option (refs_from k hs n))"
    and "r \<in> set (refs_from k hs n) \<Longrightarrow> reparses (dr_source r)"
proof -
  have "map_of (map (\<lambda>d. (sd_filename d, sd_content d)) ds) n =
      map_option (to_bytes \<circ> dr_source) (head_option (refs_from k hs n)) \<and>
      (\<forall>r \<in> set (refs_from k hs n). reparses (dr_source r))"
    using assms
    by (induction ds hs arbitrary: k rule: list_all2_induct)
      (auto simp: refs_from_Cons head_option_def dr_source_def project_document_Inr
        dest: project_document_reparses)
  then show "map_of (map (\<lambda>d. (sd_filename d, sd_content d)) ds) n =
      map_option (to_bytes \<circ> dr_source) (head_option (refs_from k hs n))"
    "r \<in> set (refs_from k hs n) \<Longrightarrow> reparses (dr_source r)" by auto
qed

lemma item_unchanged:
  assumes "filename \<in> set (all_names b c)"
    and "length (refs_for b filename) \<le> 1" and "length (refs_for c filename) \<le> 1"
    and "\<forall>r \<in> set (refs_for b filename) \<union> set (refs_for c filename). reparses (dr_source r)"
  shows "(case item_for b c filename of AmbiguityItem _ \<Rightarrow> False | SourceItem s \<Rightarrow> cs_changed s) \<longleftrightarrow>
    map_option (to_bytes \<circ> dr_source) (head_option (refs_for b filename)) \<noteq>
    map_option (to_bytes \<circ> dr_source) (head_option (refs_for c filename))"
proof -
  have "refs_for b filename \<noteq> [] \<or> refs_for c filename \<noteq> []"
    using assms(1) by (auto simp: all_names_def refs_from_empty)
  with assms(2-4) show ?thesis
    by (cases "refs_for b filename"; cases "refs_for c filename")
      (auto simp: item_for_def hpd_source_def cs_changed_def expected_state_def head_option_def
        changes_between_Nil raw_bytes_iff)
qed

lemma ambiguity_iff:
  "has_ambiguity (comparison_of b c) \<longleftrightarrow> \<not> distinct (doc_names b) \<or> \<not> distinct (doc_names c)"
proof -
  have count: "length (refs_for w n) = count_list (doc_names w) n" for w n
    by (rule refs_from_length)
  have "has_ambiguity (comparison_of b c) \<longleftrightarrow>
      (\<exists>n \<in> set (all_names b c). length (refs_for b n) > 1 \<or> length (refs_for c n) > 1)"
  proof -
    have "(case item_for b c n of AmbiguityItem _ \<Rightarrow> True | SourceItem _ \<Rightarrow> False) \<longleftrightarrow>
        length (refs_for b n) > 1 \<or> length (refs_for c n) > 1" for n
      by (simp add: item_for_def)
    then show ?thesis by (simp add: has_ambiguity_def comparison_of_def list_ex_iff)
  qed
  also have "\<dots> \<longleftrightarrow> (\<exists>n \<in> set (doc_names b). count_list (doc_names b) n > 1) \<or>
      (\<exists>n \<in> set (doc_names c). count_list (doc_names c) n > 1)"
  proof -
    have "n \<in> set xs" if "Suc 0 < count_list xs n" for xs :: "string list" and n
      using that count_notin by fastforce
    then show ?thesis unfolding count all_names_def set_first_occurrences set_append by fastforce
  qed
  finally show ?thesis by (auto simp: distinct_count_list not_le)
qed

lemma comparison_equal_iff:
  assumes s: "snapshot_ok s" "project_favorites_storage_snapshot s = Inr b"
    and t: "snapshot_ok t" "project_favorites_storage_snapshot t = Inr c"
  shows "is_equal (comparison_of b c) \<longleftrightarrow>
    distinct (snapshot_names s) \<and> distinct (snapshot_names t) \<and>
    sn_catalog_bytes s = sn_catalog_bytes t \<and> snapshot_contents s = snapshot_contents t"
proof (cases "distinct (snapshot_names s) \<and> distinct (snapshot_names t)")
  case False
  then show ?thesis
    using project_doc_names [OF s(2)] project_doc_names [OF t(2)]
    by (auto simp: is_equal_def is_comparable_def ambiguity_iff)
next
  case True
  note names = project_doc_names [OF s(2)] project_doc_names [OF t(2)]
  note docs = project_snapshot_Inr(2) [OF s(2)] project_snapshot_Inr(2) [OF t(2)]
  have contents: "snapshot_contents s n = map_option (to_bytes \<circ> dr_source) (head_option (refs_for b n))"
    "snapshot_contents t n = map_option (to_bytes \<circ> dr_source) (head_option (refs_for c n))" for n
    unfolding snapshot_contents_def by (rule contents_refs(1) [OF docs(1)], rule contents_refs(1) [OF docs(2)])
  have item: "(case item_for b c n of AmbiguityItem _ \<Rightarrow> False | SourceItem x \<Rightarrow> cs_changed x) \<longleftrightarrow>
      snapshot_contents s n \<noteq> snapshot_contents t n" if "n \<in> set (all_names b c)" for n
    unfolding contents
  proof (rule item_unchanged [OF that])
    have "length (refs_for w n) \<le> 1" if "distinct (doc_names w)" for w
      using that by (cases "n \<in> set (doc_names w)") (auto simp: refs_from_length distinct_count_list count_notin)
    with True names show "length (refs_for b n) \<le> 1" "length (refs_for c n) \<le> 1" by simp_all
    show "\<forall>r \<in> set (refs_for b n) \<union> set (refs_for c n). reparses (dr_source r)"
      using contents_refs(2) [OF docs(1)] contents_refs(2) [OF docs(2)] by blast
  qed
  have outside: "snapshot_contents s n = snapshot_contents t n" if "n \<notin> set (all_names b c)" for n
  proof -
    have "refs_for b n = []" "refs_for c n = []"
      using that by (simp_all add: all_names_def refs_from_empty)
    then show ?thesis by (simp add: contents)
  qed
  have catalog: "cs_changed (catalog_source b c) \<longleftrightarrow> sn_catalog_bytes s \<noteq> sn_catalog_bytes t"
    using parsed_reparses [OF project_catalog_parsed [OF s(2)]]
      parsed_reparses [OF project_catalog_parsed [OF t(2)]]
      parse_to_bytes_id [OF project_catalog_parsed [OF s(2)]]
      parse_to_bytes_id [OF project_catalog_parsed [OF t(2)]]
    by (simp add: cs_changed_def catalog_source_def changes_between_Nil raw_bytes_iff)
  have "has_changes (comparison_of b c) \<longleftrightarrow>
      cs_changed (catalog_source b c) \<or>
      (\<exists>n \<in> set (all_names b c). snapshot_contents s n \<noteq> snapshot_contents t n)"
    using item by (auto simp: has_changes_def comparison_of_def list_ex_iff)
  then show ?thesis
    using True names catalog outside
    by (auto simp: is_equal_def is_comparable_def ambiguity_iff fun_eq_iff)
qed


section \<open>Properties\<close>

text \<open>
  C20: The comparison of two workspaces fails only for a document without a name, which the
  workspace accepts: then, and only then, the item of the empty name is refused, as an ambiguity if
  a side repeats it and as a source otherwise. All other checks of presence, provenance, order and
  completeness in the constructors pass. The items of a comparison are the catalog and then
  every file name of either side exactly once, baseline names first, each side in the order of first
  occurrence; a name with duplicates is an ambiguity with all its documents, any other is matched,
  removed or added by the sides that have it, with the exact record changes.
\<close>

theorem comparison_total:
  "case compare_favorites_workspaces b c of
     Inr w \<Rightarrow> nonempty_names b \<and> nonempty_names c \<and> wc_baseline w = b \<and> wc_candidate w = c \<and>
       wc_items w = SourceItem (catalog_source b c) #
         map (item_for b c) (first_occurrences (doc_names b @ doc_names c))
   | Inl e \<Rightarrow> [] \<in> set (doc_names b @ doc_names c) \<and> e = empty_name_error b c"
proof (cases "nonempty_names b \<and> nonempty_names c")
  case True
  then show ?thesis using compare_Inr [of b c] by (simp add: comparison_of_def all_names_def)
next
  case False
  then have "[] \<in> set (doc_names b @ doc_names c)" unfolding nonempty_names_iff set_append by blast
  with compare_Inl [OF False] show ?thesis by simp
qed

lemma sample_snapshot_ok: "snapshot_ok sample_snapshot"
  by (simp add: snapshot_ok_def sample_snapshot_def unsafe_filename_def windows_drive_def)

text \<open>
  C19: Two snapshots compare as equal exactly when neither repeats a document name, their catalogs are
  the same bytes, and they map the same names to the same bytes; the order of documents does not
  matter.
\<close>

theorem comparison_equal_exact:
  assumes "snapshot_ok s" and "project_favorites_storage_snapshot s = Inr b"
    and "snapshot_ok t" and "project_favorites_storage_snapshot t = Inr c"
    and "compare_favorites_workspaces b c = Inr w"
  shows "is_equal w \<longleftrightarrow>
    distinct (snapshot_names s) \<and> distinct (snapshot_names t) \<and>
    sn_catalog_bytes s = sn_catalog_bytes t \<and> snapshot_contents s = snapshot_contents t"
  using comparison_equal_iff [OF assms(1-4)] assms(5)
    compare_Inr [OF project_nonempty [OF assms(1,2)] project_nonempty [OF assms(3,4)]] by simp

theorem comparison_equal_exact_witness:
  "\<exists>b w. project_favorites_storage_snapshot sample_snapshot = Inr b \<and>
     compare_favorites_workspaces b b = Inr w \<and> is_equal w"
proof -
  obtain b where b: "project_favorites_storage_snapshot sample_snapshot = Inr b"
    using sample_snapshot_projects by blast
  note ok = project_nonempty [OF sample_snapshot_ok b]
  have "is_equal (comparison_of b b)"
    using comparison_equal_exact [OF sample_snapshot_ok b sample_snapshot_ok b compare_Inr [OF ok ok]]
    by (simp add: snapshot_names_def sample_snapshot_def)
  with b compare_Inr [OF ok ok] show ?thesis by blast
qed

end
