(* ===== verification/Favorites_Write_Plan.thy ===== *)
theory Favorites_Write_Plan
  imports Favorites_Comparison Favorites_Schema
begin

text \<open>
  \<^verbatim>\<open>src/sds200/favorites_write_plan.py\<close>: the immutable preview of a write. It projects both
  snapshots, compares and validates the workspaces, and names the blockers that prevent the write; its
  constructor repeats every derivation and refuses a plan whose parts do not fit together.
\<close>

section \<open>Plans\<close>

datatype write_blocker =
    ComparisonAmbiguity
  | IntendedMissingEntry
  | IntendedAmbiguousEntry
  | IntendedDuplicateCatalogFilename
  | IntendedDuplicateDocumentFilename
  | IntendedSchemaError

definition when_blocked :: "bool \<Rightarrow> write_blocker \<Rightarrow> write_blocker list" where
  "when_blocked condition blocker = (if condition then [blocker] else [])"

definition write_blockers ::
  "fav_workspace \<Rightarrow> workspace_comparison \<Rightarrow> schema_validation \<Rightarrow> write_blocker list" where
  "write_blockers intended_workspace comparison intended_validation =
     when_blocked (has_ambiguity comparison) ComparisonAmbiguity @
     when_blocked (fw_missing intended_workspace \<noteq> []) IntendedMissingEntry @
     when_blocked (fw_ambiguous intended_workspace \<noteq> []) IntendedAmbiguousEntry @
     when_blocked (fw_duplicate_catalog intended_workspace \<noteq> []) IntendedDuplicateCatalogFilename @
     when_blocked (fw_duplicate_documents intended_workspace \<noteq> []) IntendedDuplicateDocumentFilename @
     when_blocked (\<not> sv_is_valid intended_validation) IntendedSchemaError"

datatype plan_error =
    PlanStorage storage_error
  | PlanComparison comparison_error
  | PlanSchema schema_error
  | BaselineNotPreserved
  | IntendedNotPreserved
  | ComparisonBaselineForeign
  | ComparisonCandidateForeign
  | BaselineValidationForeign
  | IntendedValidationForeign
  | BaselineValidationStale
  | IntendedValidationStale
  | BlockersStale

record write_plan =
  wp_baseline_snapshot :: storage_snapshot
  wp_intended_snapshot :: storage_snapshot
  wp_baseline_workspace :: fav_workspace
  wp_intended_workspace :: fav_workspace
  wp_comparison :: workspace_comparison
  wp_baseline_validation :: schema_validation
  wp_intended_validation :: schema_validation
  wp_blockers :: "write_blocker list"

definition write_plan :: "write_plan \<Rightarrow> plan_error + write_plan" where
  "write_plan p =
     bind_res (map_error PlanStorage (export_favorites_workspace_snapshot (wp_baseline_workspace p)))
       (\<lambda>baseline.
     raise_if (baseline \<noteq> wp_baseline_snapshot p) BaselineNotPreserved
    (bind_res (map_error PlanStorage (export_favorites_workspace_snapshot (wp_intended_workspace p)))
       (\<lambda>intended.
     raise_if (intended \<noteq> wp_intended_snapshot p) IntendedNotPreserved
    (raise_if (wc_baseline (wp_comparison p) \<noteq> wp_baseline_workspace p) ComparisonBaselineForeign
    (raise_if (wc_candidate (wp_comparison p) \<noteq> wp_intended_workspace p) ComparisonCandidateForeign
    (raise_if (sv_workspace (wp_baseline_validation p) \<noteq> wp_baseline_workspace p)
       BaselineValidationForeign
    (raise_if (sv_workspace (wp_intended_validation p) \<noteq> wp_intended_workspace p)
       IntendedValidationForeign
    (bind_res (map_error PlanSchema (validate_favorites_workspace (wp_baseline_workspace p)))
       (\<lambda>baseline_validation.
     raise_if (wp_baseline_validation p \<noteq> baseline_validation) BaselineValidationStale
    (bind_res (map_error PlanSchema (validate_favorites_workspace (wp_intended_workspace p)))
       (\<lambda>intended_validation.
     raise_if (wp_intended_validation p \<noteq> intended_validation) IntendedValidationStale
    (raise_if (wp_blockers p \<noteq> write_blockers (wp_intended_workspace p) (wp_comparison p)
         (wp_intended_validation p)) BlockersStale
       (Inr p)))))))))))))"

definition plan_has_changes :: "write_plan \<Rightarrow> bool" where
  "plan_has_changes p \<longleftrightarrow> wp_baseline_snapshot p \<noteq> wp_intended_snapshot p"

definition plan_is_noop :: "write_plan \<Rightarrow> bool" where
  "plan_is_noop p \<longleftrightarrow> \<not> plan_has_changes p"

definition plan_is_blocked :: "write_plan \<Rightarrow> bool" where
  "plan_is_blocked p \<longleftrightarrow> wp_blockers p \<noteq> []"

definition matches_baseline_snapshot :: "write_plan \<Rightarrow> storage_snapshot \<Rightarrow> bool" where
  "matches_baseline_snapshot p snapshot \<longleftrightarrow> snapshot = wp_baseline_snapshot p"

definition plan_favorites_write :: "storage_snapshot \<Rightarrow> storage_snapshot \<Rightarrow> plan_error + write_plan" where
  "plan_favorites_write baseline_snapshot intended_snapshot =
     bind_res (map_error PlanStorage (project_favorites_storage_snapshot baseline_snapshot))
       (\<lambda>baseline_workspace.
     bind_res (map_error PlanStorage (project_favorites_storage_snapshot intended_snapshot))
       (\<lambda>intended_workspace.
     bind_res (map_error PlanComparison
         (compare_favorites_workspaces baseline_workspace intended_workspace)) (\<lambda>comparison.
     bind_res (map_error PlanSchema (validate_favorites_workspace baseline_workspace))
       (\<lambda>baseline_validation.
     bind_res (map_error PlanSchema (validate_favorites_workspace intended_workspace))
       (\<lambda>intended_validation.
     write_plan
       \<lparr>wp_baseline_snapshot = baseline_snapshot, wp_intended_snapshot = intended_snapshot,
        wp_baseline_workspace = baseline_workspace, wp_intended_workspace = intended_workspace,
        wp_comparison = comparison, wp_baseline_validation = baseline_validation,
        wp_intended_validation = intended_validation,
        wp_blockers = write_blockers intended_workspace comparison intended_validation\<rparr>)))))"

section \<open>Planning never refuses its own plan\<close>

definition validation_of :: "fav_workspace \<Rightarrow> schema_validation" where
  "validation_of w = \<lparr>sv_workspace = w, sv_diagnostics = workspace_diagnostics w\<rparr>"

lemma validate_Inr_of: "validate_favorites_workspace w = Inr (validation_of w)"
  by (simp add: validate_workspace_eq validation_of_def)

definition plan_of ::
  "storage_snapshot \<Rightarrow> storage_snapshot \<Rightarrow> fav_workspace \<Rightarrow> fav_workspace \<Rightarrow> write_plan" where
  "plan_of s t b c =
     \<lparr>wp_baseline_snapshot = s, wp_intended_snapshot = t, wp_baseline_workspace = b,
      wp_intended_workspace = c, wp_comparison = comparison_of b c,
      wp_baseline_validation = validation_of b, wp_intended_validation = validation_of c,
      wp_blockers = write_blockers c (comparison_of b c) (validation_of c)\<rparr>"

lemma plan_Inr_of:
  assumes "snapshot_ok s" and "project_favorites_storage_snapshot s = Inr b"
    and "snapshot_ok t" and "project_favorites_storage_snapshot t = Inr c"
  shows "plan_favorites_write s t = Inr (plan_of s t b c)"
proof -
  have accepted: "write_plan (plan_of s t b c) = Inr (plan_of s t b c)"
    unfolding write_plan_def
    by (simp add: plan_of_def export_project [OF assms(1,2)] export_project [OF assms(3,4)]
        comparison_of_def validation_of_def validate_workspace_eq)
  show ?thesis
    using accepted
    by (simp add: plan_favorites_write_def assms(2,4) validate_Inr_of plan_of_def
        compare_Inr [OF project_nonempty [OF assms(1,2)] project_nonempty [OF assms(3,4)]])
qed

section \<open>Blockers\<close>

lemma project_binds:
  assumes "project_favorites_storage_snapshot s = Inr w"
  shows "bind_favorites_workspace (fw_catalog w) (fw_documents w) = Inr w"
proof -
  from assms obtain c ds where "bind_favorites_workspace c ds = Inr w"
    by (auto simp: project_favorites_storage_snapshot_def res_simps)
  then show ?thesis using bind_keeps by metis
qed

abbreviation entry_filenames :: "fav_workspace \<Rightarrow> string list" where
  "entry_filenames w \<equiv> map ce_filename (fc_entries (fw_catalog w))"

lemma duplicates_Nil: "duplicates_in_order xs = [] \<longleftrightarrow> distinct xs"
proof -
  have "duplicates_in_order xs = [] \<longleftrightarrow> (\<forall>x \<in> set xs. count_list xs x \<le> 1)"
    by (auto simp: duplicates_in_order_eq filter_empty_conv not_less)
  then show ?thesis by (simp add: distinct_count_list)
qed

lemma matching_length: "length (matching ds e) = count_list (map hd_filename ds) (ce_filename e)"
  by (induction ds) (auto simp: matching_def)

lemma matching_Nil: "matching ds e = [] \<longleftrightarrow> ce_filename e \<notin> hd_filename ` set ds"
  by (induction ds) (auto simp: matching_def)

lemma bind_fields:
  assumes "bind_favorites_workspace c ds = Inr w"
  shows "fw_missing w = filter (\<lambda>e. matching ds e = []) (fc_entries c)"
    and "fw_ambiguous w = filter (\<lambda>e. 1 < length (matching ds e)) (fc_entries c)"
    and "fw_duplicate_catalog w = duplicates_in_order (map ce_filename (fc_entries c))"
    and "fw_duplicate_documents w = duplicates_in_order (map hd_filename ds)"
  using assms by (auto simp: bind_favorites_workspace_def bind_fold Let_def)

lemma binding_blockers:
  assumes "project_favorites_storage_snapshot s = Inr w"
  shows "fw_missing w = [] \<longleftrightarrow> set (entry_filenames w) \<subseteq> set (doc_names w)"
    and "distinct (doc_names w) \<Longrightarrow> fw_ambiguous w = []"
    and "fw_duplicate_catalog w = [] \<longleftrightarrow> distinct (entry_filenames w)"
    and "fw_duplicate_documents w = [] \<longleftrightarrow> distinct (doc_names w)"
proof -
  let ?es = "fc_entries (fw_catalog w)" and ?ds = "fw_documents w"
  note w = bind_fields [OF project_binds [OF assms]]
  show "fw_missing w = [] \<longleftrightarrow> set (entry_filenames w) \<subseteq> set (doc_names w)"
    by (auto simp: w(1) filter_empty_conv matching_Nil)
  show "fw_duplicate_catalog w = [] \<longleftrightarrow> distinct (entry_filenames w)"
    "fw_duplicate_documents w = [] \<longleftrightarrow> distinct (doc_names w)"
    by (simp_all add: w(3,4) duplicates_Nil)
  assume "distinct (doc_names w)"
  then have "count_list (doc_names w) n \<le> 1" for n
    by (cases "n \<in> set (doc_names w)") (auto simp: distinct_count_list count_notin)
  then show "fw_ambiguous w = []"
    by (simp add: w(2) filter_empty_conv matching_length not_less)
qed

text \<open>
  C17: A write can be planned for any two snapshots that project: no check of the plan's constructor,
  of the comparison or of the validations fails. The plan is blocked exactly unless the documents of
  both snapshots have distinct names, the intended catalog names distinct files that all exist, and the
  intended workspace conforms to the schema; and it is a no-op exactly for equal snapshots.
\<close>

theorem write_plan_exact:
  assumes "snapshot_ok s" and "project_favorites_storage_snapshot s = Inr b"
    and "snapshot_ok t" and "project_favorites_storage_snapshot t = Inr c"
  shows "\<exists>p. plan_favorites_write s t = Inr p \<and>
    (plan_is_blocked p \<longleftrightarrow>
       \<not> (distinct (snapshot_names s) \<and> distinct (snapshot_names t) \<and>
          distinct (entry_filenames c) \<and> set (entry_filenames c) \<subseteq> set (snapshot_names t) \<and>
          workspace_conforms c)) \<and>
    (plan_is_noop p \<longleftrightarrow> s = t) \<and>
    (matches_baseline_snapshot p s)"
proof -
  have valid: "sv_is_valid (validation_of c) \<longleftrightarrow> workspace_conforms c"
    using workspace_diagnostics_conform [of c] by (simp add: validation_of_def sv_is_valid_def)
  note names = project_doc_names [OF assms(2)] project_doc_names [OF assms(4)]
  have "plan_is_blocked (plan_of s t b c) \<longleftrightarrow>
      \<not> (distinct (snapshot_names s) \<and> distinct (snapshot_names t) \<and>
         distinct (entry_filenames c) \<and> set (entry_filenames c) \<subseteq> set (snapshot_names t) \<and>
         workspace_conforms c)"
    using binding_blockers [OF assms(4)]
    by (auto simp: plan_is_blocked_def plan_of_def write_blockers_def when_blocked_def
        ambiguity_iff names valid simp del: set_map)
  then show ?thesis
    using plan_Inr_of [OF assms]
    by (intro exI [of _ "plan_of s t b c"])
      (simp add: plan_is_noop_def plan_has_changes_def matches_baseline_snapshot_def plan_of_def)
qed

theorem write_plan_exact_witness:
  "\<exists>p. plan_favorites_write sample_snapshot sample_snapshot = Inr p \<and> plan_is_noop p"
proof -
  obtain b where b: "project_favorites_storage_snapshot sample_snapshot = Inr b"
    using sample_snapshot_projects by blast
  from write_plan_exact [OF sample_snapshot_ok b sample_snapshot_ok b] show ?thesis by blast
qed

end
