(* ===== verification/Recording_Retention.thy ===== *)
theory Recording_Retention
  imports Complex_Main Pcmu "HOL-Library.Product_Lexorder" "HOL-Library.List_Lexorder"
    "HOL-Library.Multiset"
begin

text \<open>
  \<^verbatim>\<open>src/sds200/recording_retention.py\<close>: the non-destructive plan of which recordings a retention
  policy would remove, with the inventory entries and their checks from
  \<^verbatim>\<open>recording_inventory.py\<close>. A path is the list of its components; a time is microseconds since
  the epoch, as in \<open>Pcmu\<close>; a duration in seconds is a rational, so the NaN and the infinity that
  the code's constructor accepts are left out (the plan never reads a duration); roots are not
  empty, for which \<open>relative_to\<close> agrees with pathlib. \<open>str.casefold\<close> is a parameter. Dictionaries
  keyed by entries are maps.
\<close>

section \<open>Inventory entries\<close>

datatype audio_status = AudioCompatible | AudioIncompatible | AudioUnreadable | AudioMissing

datatype metadata_status =
    MetadataMissing | MetadataValid | MetadataUnreadable | MetadataInvalid | MetadataMismatched
  | MetadataOrphaned

type_synonym py_path = "pystr list"

record inventory_entry =
  ie_root :: py_path
  ie_audio_path :: py_path
  ie_metadata_path :: py_path
  ie_audio_status :: audio_status
  ie_metadata_status :: metadata_status
  ie_recorded_at :: "py_datetime option"
  ie_duration_seconds :: "rat option"
  ie_frames :: "int option"
  ie_audio_size_bytes :: int
  ie_metadata_size_bytes :: int
  ie_audio_modified_ns :: int
  ie_metadata_modified_ns :: int
  ie_modified_ns :: int
  ie_issue :: "pystr option"

datatype inventory_error =
    NegativeSize
  | ModifiedMismatch
  | NegativeDuration
  | NegativeFrames
  | NaiveTimestamp

definition inventory_entry :: "inventory_entry \<Rightarrow> inventory_error + inventory_entry" where
  "inventory_entry e =
     raise_if (\<exists>v \<in> {ie_audio_size_bytes e, ie_metadata_size_bytes e, ie_audio_modified_ns e,
         ie_metadata_modified_ns e, ie_modified_ns e}. v < 0) NegativeSize
    (raise_if (ie_modified_ns e \<noteq> max (ie_audio_modified_ns e) (ie_metadata_modified_ns e))
       ModifiedMismatch
    (raise_if (case ie_duration_seconds e of None \<Rightarrow> False | Some d \<Rightarrow> d < 0) NegativeDuration
    (raise_if (case ie_frames e of None \<Rightarrow> False | Some n \<Rightarrow> n < 0) NegativeFrames
    (raise_if (case ie_recorded_at e of Some (Naive _) \<Rightarrow> True | _ \<Rightarrow> False) NaiveTimestamp
       (Inr e)))))"

definition total_size_bytes :: "inventory_entry \<Rightarrow> int" where
  "total_size_bytes e = ie_audio_size_bytes e + ie_metadata_size_bytes e"

section \<open>Policies and decisions\<close>

datatype disposition = Retain | Select | Protect

datatype retention_reason =
    WithinPolicy | AgeLimit | UnitLimit | ByteLimit
  | UnreadableAudio | MissingAudio | UnsafeMetadata | UnknownTimestamp

datatype retention_error =
    PolicyWithoutLimit
  | MaximumAgeNotPositive
  | MaximumUnitsNegative
  | MaximumBytesNegative
  | NoReasons
  | ReasonsNotUnique
  | ReasonsMismatch
  | NaivePlanningTime
  | PlanningTimeRequired
  | DateOverflow
  | PathNotRelative
  | RetentionAssertion

record retention_policy =
  rp_maximum_age :: "int option"
  rp_maximum_units :: "int option"
  rp_maximum_total_bytes :: "int option"

definition retention_policy ::
  "int option \<Rightarrow> int option \<Rightarrow> int option \<Rightarrow> retention_error + retention_policy" where
  "retention_policy age units bytes =
     raise_if (age = None \<and> units = None \<and> bytes = None) PolicyWithoutLimit
    (raise_if (case age of None \<Rightarrow> False | Some a \<Rightarrow> a \<le> 0) MaximumAgeNotPositive
    (raise_if (case units of None \<Rightarrow> False | Some n \<Rightarrow> n < 0) MaximumUnitsNegative
    (raise_if (case bytes of None \<Rightarrow> False | Some n \<Rightarrow> n < 0) MaximumBytesNegative
       (Inr \<lparr>rp_maximum_age = age, rp_maximum_units = units, rp_maximum_total_bytes = bytes\<rparr>))))"

record retention_decision =
  rd_entry :: inventory_entry
  rd_disposition :: disposition
  rd_reasons :: "retention_reason list"

definition retention_decision ::
  "inventory_entry \<Rightarrow> disposition \<Rightarrow> retention_reason list \<Rightarrow> retention_error + retention_decision" where
  "retention_decision entry disposition reasons =
     raise_if (reasons = []) NoReasons
    (raise_if (card (set reasons) \<noteq> length reasons) ReasonsNotUnique
    (let limit_reasons = {AgeLimit, UnitLimit, ByteLimit};
         protection_reasons = {UnreadableAudio, MissingAudio, UnsafeMetadata, UnknownTimestamp};
         reason_set = set reasons;
         valid = (case disposition of
             Retain \<Rightarrow> reason_set = {WithinPolicy}
           | Select \<Rightarrow> reason_set \<noteq> {} \<and> reason_set \<subseteq> limit_reasons
           | Protect \<Rightarrow> reason_set \<noteq> {} \<and> reason_set \<subseteq> protection_reasons)
     in raise_if (\<not> valid) ReasonsMismatch
          (Inr \<lparr>rd_entry = entry, rd_disposition = disposition, rd_reasons = reasons\<rparr>)))"

record retention_summary =
  rs_managed_units :: int
  rs_managed_bytes :: int
  rs_selected_units :: int
  rs_selected_bytes :: int
  rs_retained_units :: int
  rs_retained_bytes :: int
  rs_protected_units :: int
  rs_protected_bytes :: int
  rs_projected_units :: int
  rs_projected_bytes :: int
  rs_age_violations_remaining :: int
  rs_age_unknown_units :: int
  rs_age_limit_satisfied :: bool
  rs_unit_limit_satisfied :: bool
  rs_byte_limit_satisfied :: bool
  rs_all_limits_satisfied :: bool

record retention_plan =
  pl_entries :: "inventory_entry list"
  pl_policy :: retention_policy
  pl_now :: "int option"
  pl_decisions :: "retention_decision list"
  pl_summary :: retention_summary

definition decisions_with :: "disposition \<Rightarrow> retention_decision list \<Rightarrow> retention_decision list" where
  "decisions_with d ds = filter (\<lambda>x. rd_disposition x = d) ds"

section \<open>Planning\<close>

definition protection_metadata_statuses :: "metadata_status set" where
  "protection_metadata_statuses =
     {MetadataUnreadable, MetadataInvalid, MetadataMismatched, MetadataOrphaned}"

definition limit_reason_order :: "retention_reason list" where
  "limit_reason_order = [AgeLimit, UnitLimit, ByteLimit]"

definition protection_reason_order :: "retention_reason list" where
  "protection_reason_order = [UnreadableAudio, MissingAudio, UnsafeMetadata, UnknownTimestamp]"

definition require_aware :: "py_datetime \<Rightarrow> retention_error + int" where
  "require_aware value = (case value of Naive _ \<Rightarrow> Inl NaivePlanningTime | Aware us \<Rightarrow> Inr us)"

fun relative_to :: "py_path \<Rightarrow> py_path \<Rightarrow> py_path option" where
  "relative_to path [] = Some path"
| "relative_to [] (r # rs) = None"
| "relative_to (p # ps) (r # rs) = (if p = r then relative_to ps rs else None)"

fun as_posix :: "py_path \<Rightarrow> pystr" where
  "as_posix [] = [46]"
| "as_posix [p] = p"
| "as_posix (p # ps) = p @ [47] @ as_posix ps"

definition utc_us :: "py_datetime \<Rightarrow> int" where
  "utc_us t = (case t of Naive us \<Rightarrow> us | Aware us \<Rightarrow> us)"

type_synonym selection_key = "int \<times> pystr \<times> pystr"

definition selection_key ::
  "(pystr \<Rightarrow> pystr) \<Rightarrow> inventory_entry \<Rightarrow> retention_error + selection_key" where
  "selection_key casefold entry =
     (case ie_recorded_at entry of
        None \<Rightarrow> Inl RetentionAssertion
      | Some recorded_at \<Rightarrow>
          (case relative_to (ie_audio_path entry) (ie_root entry) of
             None \<Rightarrow> Inl PathNotRelative
           | Some path \<Rightarrow>
               let relative = as_posix path in
               raise_if (\<not> datetime_ok recorded_at) DateOverflow
                 (Inr (utc_us recorded_at, casefold relative, relative))))"

definition protection_reasons :: "inventory_entry \<Rightarrow> retention_reason list" where
  "protection_reasons entry =
     (let reasons =
        (if ie_audio_status entry = AudioUnreadable then {UnreadableAudio}
         else if ie_audio_status entry = AudioMissing then {MissingAudio} else {}) \<union>
        (if ie_metadata_status entry \<in> protection_metadata_statuses then {UnsafeMetadata} else {}) \<union>
        (if ie_recorded_at entry = None then {UnknownTimestamp} else {})
      in filter (\<lambda>r. r \<in> reasons) protection_reason_order)"

fun bytes_prefix :: "inventory_entry list \<Rightarrow> int \<Rightarrow> int \<Rightarrow> inventory_entry list" where
  "bytes_prefix [] required_bytes removed = []"
| "bytes_prefix (e # es) required_bytes removed =
     (let removed' = removed + total_size_bytes e in
      if removed' \<ge> required_bytes then [e] else e # bytes_prefix es required_bytes removed')"

definition prefix_for_bytes :: "inventory_entry list \<Rightarrow> int \<Rightarrow> inventory_entry list" where
  "prefix_for_bytes entries required_bytes =
     (if required_bytes \<le> 0 then [] else bytes_prefix entries required_bytes 0)"

text \<open>\<open>selected_reasons.setdefault(entry, set()).add(reason)\<close> for each entry of a list.\<close>

definition add_reason ::
  "retention_reason \<Rightarrow> inventory_entry list \<Rightarrow> (inventory_entry \<rightharpoonup> retention_reason set) \<Rightarrow>
   (inventory_entry \<rightharpoonup> retention_reason set)" where
  "add_reason reason entries m =
     fold (\<lambda>e m. m(e \<mapsto> insert reason (case m e of None \<Rightarrow> {} | Some s \<Rightarrow> s))) entries m"

definition planned_times ::
  "retention_policy \<Rightarrow> py_datetime option \<Rightarrow> retention_error + int option \<times> int option" where
  "planned_times policy now =
     bind_res (case now of None \<Rightarrow> Inr None | Some t \<Rightarrow> bind_res (require_aware t) (\<lambda>us.
         raise_if (\<not> datetime_ok (Aware us)) DateOverflow (Inr (Some us))))
       (\<lambda>planned_at.
         case rp_maximum_age policy of
           None \<Rightarrow> Inr (planned_at, None)
         | Some age \<Rightarrow>
             (case planned_at of
                None \<Rightarrow> Inl PlanningTimeRequired
              | Some us \<Rightarrow>
                  raise_if (\<not> datetime_ok (Aware (us - age))) DateOverflow
                    (Inr (Some us, Some (us - age)))))"

text \<open>The sorted selectable entries. Python computes all keys before it sorts.\<close>

definition selectable_entries ::
  "(pystr \<Rightarrow> pystr) \<Rightarrow> inventory_entry list \<Rightarrow> retention_error + inventory_entry list" where
  "selectable_entries casefold entries =
     (let candidates = filter (\<lambda>e. protection_reasons e = []) entries in
      bind_res (map_res (selection_key casefold) candidates) (\<lambda>keys.
        Inr (map snd (sort_key fst (zip keys candidates)))))"

definition selected_reasons ::
  "retention_policy \<Rightarrow> int option \<Rightarrow> inventory_entry list \<Rightarrow> inventory_entry list \<Rightarrow>
   (inventory_entry \<rightharpoonup> retention_reason set)" where
  "selected_reasons policy cutoff entries selectable =
     (let managed_units = int (length entries);
          managed_bytes = (\<Sum>e \<leftarrow> entries. total_size_bytes e);
          by_age = (case cutoff of
              None \<Rightarrow> Map.empty
            | Some c \<Rightarrow> add_reason AgeLimit
                (filter (\<lambda>e. utc_us (the (ie_recorded_at e)) < c) selectable) Map.empty);
          by_units = (case rp_maximum_units policy of
              None \<Rightarrow> by_age
            | Some n \<Rightarrow> add_reason UnitLimit (take (nat (max 0 (managed_units - n))) selectable) by_age)
      in case rp_maximum_total_bytes policy of
           None \<Rightarrow> by_units
         | Some n \<Rightarrow> add_reason ByteLimit
             (prefix_for_bytes selectable (max 0 (managed_bytes - n))) by_units)"

definition decide ::
  "(inventory_entry \<rightharpoonup> retention_reason set) \<Rightarrow> inventory_entry \<Rightarrow> retention_error + retention_decision" where
  "decide selected entry =
     (if protection_reasons entry \<noteq> [] then
        retention_decision entry Protect (protection_reasons entry)
      else case selected entry of
        None \<Rightarrow> retention_decision entry Retain [WithinPolicy]
      | Some reasons \<Rightarrow>
          if reasons \<noteq> {} then
            retention_decision entry Select (filter (\<lambda>r. r \<in> reasons) limit_reason_order)
          else retention_decision entry Retain [WithinPolicy])"

text \<open>
  \<open>astimezone(UTC)\<close> of the entries not selected, which the summary compares with the cutoff, fails on
  an instant outside the range of a datetime.
\<close>

definition remaining_overflow :: "int option \<Rightarrow> retention_decision list \<Rightarrow> bool" where
  "remaining_overflow cutoff decisions \<longleftrightarrow> cutoff \<noteq> None \<and>
     list_ex (\<lambda>d. rd_disposition d \<noteq> Select \<and>
       (case ie_recorded_at (rd_entry d) of None \<Rightarrow> False | Some t \<Rightarrow> \<not> datetime_ok t)) decisions"

definition plan_summary ::
  "inventory_entry list \<Rightarrow> retention_policy \<Rightarrow> int option \<Rightarrow> retention_decision list \<Rightarrow>
   retention_summary" where
  "plan_summary entries policy cutoff decisions =
     (let managed_units = int (length entries);
          managed_bytes = (\<Sum>e \<leftarrow> entries. total_size_bytes e);
          selected = decisions_with Select decisions;
          retained = decisions_with Retain decisions;
          protected = decisions_with Protect decisions;
          size = (\<lambda>ds. \<Sum>d \<leftarrow> ds. total_size_bytes (rd_entry d));
          projected_units = managed_units - int (length selected);
          projected_bytes = managed_bytes - size selected;
          remaining = retained @ protected;
          age_violations_remaining = (case cutoff of None \<Rightarrow> 0 | Some c \<Rightarrow>
            int (length (filter (\<lambda>d. case ie_recorded_at (rd_entry d) of
              None \<Rightarrow> False | Some t \<Rightarrow> utc_us t < c) remaining)));
          age_unknown_units = (case cutoff of None \<Rightarrow> 0 | Some c \<Rightarrow>
            int (length (filter (\<lambda>d. ie_recorded_at (rd_entry d) = None) remaining)));
          age_limit_satisfied =
            (cutoff = None \<or> age_violations_remaining = 0 \<and> age_unknown_units = 0);
          unit_limit_satisfied = (case rp_maximum_units policy of
            None \<Rightarrow> True | Some n \<Rightarrow> projected_units \<le> n);
          byte_limit_satisfied = (case rp_maximum_total_bytes policy of
            None \<Rightarrow> True | Some n \<Rightarrow> projected_bytes \<le> n)
      in \<lparr>rs_managed_units = managed_units, rs_managed_bytes = managed_bytes,
          rs_selected_units = int (length selected), rs_selected_bytes = size selected,
          rs_retained_units = int (length retained), rs_retained_bytes = size retained,
          rs_protected_units = int (length protected), rs_protected_bytes = size protected,
          rs_projected_units = projected_units, rs_projected_bytes = projected_bytes,
          rs_age_violations_remaining = age_violations_remaining,
          rs_age_unknown_units = age_unknown_units,
          rs_age_limit_satisfied = age_limit_satisfied,
          rs_unit_limit_satisfied = unit_limit_satisfied,
          rs_byte_limit_satisfied = byte_limit_satisfied,
          rs_all_limits_satisfied =
            (age_limit_satisfied \<and> unit_limit_satisfied \<and> byte_limit_satisfied)\<rparr>)"

definition plan_recording_retention ::
  "(pystr \<Rightarrow> pystr) \<Rightarrow> inventory_entry list \<Rightarrow> retention_policy \<Rightarrow> py_datetime option \<Rightarrow>
   retention_error + retention_plan" where
  "plan_recording_retention casefold entries policy now =
     bind_res (planned_times policy now) (\<lambda>(planned_at, cutoff).
     bind_res (selectable_entries casefold entries) (\<lambda>selectable.
     bind_res (map_res (decide (selected_reasons policy cutoff entries selectable)) entries)
       (\<lambda>decisions.
     raise_if (remaining_overflow cutoff decisions) DateOverflow
     (Inr \<lparr>pl_entries = entries, pl_policy = policy, pl_now = planned_at, pl_decisions = decisions,
          pl_summary = plan_summary entries policy cutoff decisions\<rparr>))))"

section \<open>The sorted selectable entries\<close>

definition entry_key :: "(pystr \<Rightarrow> pystr) \<Rightarrow> inventory_entry \<Rightarrow> selection_key" where
  "entry_key casefold e = projr (selection_key casefold e)"

definition keyed :: "(pystr \<Rightarrow> pystr) \<Rightarrow> inventory_entry \<Rightarrow> bool" where
  "keyed casefold e \<longleftrightarrow> (\<exists>k. selection_key casefold e = Inr k)"

abbreviation recorded_us :: "inventory_entry \<Rightarrow> int" where
  "recorded_us e \<equiv> utc_us (the (ie_recorded_at e))"

abbreviation selectable :: "inventory_entry \<Rightarrow> bool" where
  "selectable e \<equiv> protection_reasons e = []"

lemma insort_key_map: "insort_key f (g x) (map g xs) = map g (insort_key (f \<circ> g) x xs)"
  by (induction xs) auto

lemma sort_key_map: "sort_key f (map g xs) = map g (sort_key (f \<circ> g) xs)"
  by (induction xs) (simp_all add: insort_key_map comp_def)

lemma selectable_entries_Inr:
  "selectable_entries casefold entries = Inr sel \<longleftrightarrow>
     (\<forall>e \<in> set entries. selectable e \<longrightarrow> keyed casefold e) \<and>
     sel = sort_key (entry_key casefold) (filter selectable entries)"
proof (cases "\<forall>e \<in> set (filter selectable entries). keyed casefold e")
  case True
  let ?cs = "filter selectable entries"
  have "map_res (selection_key casefold) ?cs = Inr (map (entry_key casefold) ?cs)"
    using True by (intro map_res_Inr_map) (auto simp: keyed_def entry_key_def)
  moreover have "zip (map (entry_key casefold) ?cs) ?cs = map (\<lambda>e. (entry_key casefold e, e)) ?cs"
    by (simp add: zip_map1 zip_same_conv_map)
  ultimately show ?thesis
    using True by (auto simp: selectable_entries_def Let_def sort_key_map comp_def)
next
  case False
  then obtain e where e: "e \<in> set (filter selectable entries)" "\<not> keyed casefold e" by blast
  have "map_res (selection_key casefold) (filter selectable entries) \<noteq> Inr ys" for ys
  proof
    assume "map_res (selection_key casefold) (filter selectable entries) = Inr ys"
    then have "list_all2 (\<lambda>x y. selection_key casefold x = Inr y) (filter selectable entries) ys"
      by (simp add: map_res_eq_Inr)
    with e show False by (auto simp: keyed_def dest: list_all2_set1)
  qed
  with False e show ?thesis
    by (auto simp: selectable_entries_def Let_def res_simps)
qed

lemma key_time:
  "keyed casefold e \<Longrightarrow> fst (entry_key casefold e) = recorded_us e"
  by (auto simp: keyed_def entry_key_def selection_key_def Let_def res_simps split: option.splits)

lemma fst_mono: "a \<le> b \<Longrightarrow> fst a \<le> fst b" for a b :: selection_key
  by (auto simp: less_eq_prod_def less_le)

lemma sorted_times:
  assumes "sorted (map (entry_key casefold) es)" and "\<forall>e \<in> set es. keyed casefold e"
  shows "sorted (map recorded_us es)"
proof -
  have "sorted (map (fst \<circ> entry_key casefold) es)"
    using assms(1) unfolding sorted_map
    by (rule sorted_wrt_mono_rel [rotated]) (simp add: fst_mono)
  moreover have "map (fst \<circ> entry_key casefold) es = map recorded_us es"
    using assms(2) by (simp add: key_time)
  ultimately show ?thesis by simp
qed

section \<open>Prefixes\<close>

lemma filter_sorted_prefix:
  assumes "sorted (map (t :: 'a \<Rightarrow> int) es)"
  obtains a where "a \<le> length es" and "filter (\<lambda>e. t e < c) es = take a es"
    and "\<forall>e \<in> set (drop a es). c \<le> t e" and "\<forall>j < a. t (es ! j) < c"
proof -
  define a where "a = length (takeWhile (\<lambda>e. t e < c) es)"
  have split: "take a es = takeWhile (\<lambda>e. t e < c) es" "drop a es = dropWhile (\<lambda>e. t e < c) es"
    by (simp_all add: a_def takeWhile_eq_take [symmetric] dropWhile_eq_drop [symmetric])
  have late: "\<forall>e \<in> set (dropWhile (\<lambda>e. t e < c) es). c \<le> t e"
    using assms by (induction es) auto
  have "filter (\<lambda>e. t e < c) es =
      filter (\<lambda>e. t e < c) (takeWhile (\<lambda>e. t e < c) es) @ filter (\<lambda>e. t e < c) (dropWhile (\<lambda>e. t e < c) es)"
    by (simp flip: filter_append)
  also have "filter (\<lambda>e. t e < c) (dropWhile (\<lambda>e. t e < c) es) = []"
    using late by (auto simp: filter_empty_conv)
  also have "filter (\<lambda>e. t e < c) (takeWhile (\<lambda>e. t e < c) es) = takeWhile (\<lambda>e. t e < c) es"
    by (simp add: filter_id_conv) (auto dest: set_takeWhileD)
  finally have "filter (\<lambda>e. t e < c) es = take a es" by (simp add: split(1))
  moreover have "\<forall>j < a. t (es ! j) < c"
    unfolding a_def using set_takeWhileD [of _ "\<lambda>e. t e < c" es] nth_mem takeWhile_nth by metis
  moreover have "a \<le> length es" by (simp add: a_def length_takeWhile_le)
  ultimately show thesis using late split(2) that by metis
qed

abbreviation sizes :: "inventory_entry list \<Rightarrow> int" where
  "sizes es \<equiv> (\<Sum>e \<leftarrow> es. total_size_bytes e)"

lemma bytes_prefix_take:
  assumes "removed < b"
  obtains n where "n \<le> length es" and "bytes_prefix es b removed = take n es"
    and "\<forall>j < n. removed + sizes (take j es) < b"
    and "n < length es \<or> es \<noteq> [] \<and> b \<le> removed + sizes es \<longrightarrow> b \<le> removed + sizes (take n es)"
  using assms
proof (induction es arbitrary: removed thesis)
  case Nil
  then show ?case by (intro Nil(1) [of 0]) auto
next
  case (Cons e es)
  let ?r = "removed + total_size_bytes e"
  show ?case
  proof (cases "b \<le> ?r")
    case True
    then show ?thesis using Cons.prems(2) by (intro Cons.prems(1) [of 1]) (auto simp: Let_def)
  next
    case False
    then obtain n where n: "n \<le> length es" "bytes_prefix es b ?r = take n es"
      "\<forall>j < n. ?r + sizes (take j es) < b"
      "n < length es \<or> es \<noteq> [] \<and> b \<le> ?r + sizes es \<longrightarrow> b \<le> ?r + sizes (take n es)"
      using Cons.IH [of ?r] by auto
    have "removed + sizes (take j (e # es)) < b" if "j < Suc n" for j
      using that n(3) Cons.prems(2) by (cases j) auto
    with n False show ?thesis
      by (intro Cons.prems(1) [of "Suc n"]) (auto simp: Let_def algebra_simps)
  qed
qed


section \<open>Decisions\<close>

lemma add_reason_apply:
  "add_reason r es m e =
     (if e \<in> set es then Some (insert r (case m e of None \<Rightarrow> {} | Some s \<Rightarrow> s)) else m e)"
  unfolding add_reason_def by (induction es arbitrary: m) (auto split: option.splits)

definition disposition_of :: "(inventory_entry \<rightharpoonup> retention_reason set) \<Rightarrow> inventory_entry \<Rightarrow> disposition" where
  "disposition_of m e =
     (if \<not> selectable e then Protect else if m e \<in> {None, Some {}} then Retain else Select)"

definition reasons_of ::
  "(inventory_entry \<rightharpoonup> retention_reason set) \<Rightarrow> inventory_entry \<Rightarrow> retention_reason list" where
  "reasons_of m e =
     (case disposition_of m e of
        Protect \<Rightarrow> protection_reasons e
      | Retain \<Rightarrow> [WithinPolicy]
      | Select \<Rightarrow> filter (\<lambda>r. r \<in> the (m e)) limit_reason_order)"

abbreviation decision_of ::
  "(inventory_entry \<rightharpoonup> retention_reason set) \<Rightarrow> inventory_entry \<Rightarrow> retention_decision" where
  "decision_of m e \<equiv> \<lparr>rd_entry = e, rd_disposition = disposition_of m e, rd_reasons = reasons_of m e\<rparr>"

definition limit_map :: "(inventory_entry \<rightharpoonup> retention_reason set) \<Rightarrow> bool" where
  "limit_map m \<longleftrightarrow> (\<forall>e s. m e = Some s \<longrightarrow> s \<subseteq> set limit_reason_order)"

lemma distinct_filter_card: "distinct xs \<Longrightarrow> card (set (filter P xs)) = length (filter P xs)"
  by (simp only: distinct_card distinct_filter)

lemma protection_decision:
  assumes "protection_reasons e \<noteq> []"
  shows "retention_decision e Protect (protection_reasons e) =
    Inr \<lparr>rd_entry = e, rd_disposition = Protect, rd_reasons = protection_reasons e\<rparr>"
proof -
  obtain P where P: "protection_reasons e = filter P protection_reason_order"
    by (simp add: protection_reasons_def Let_def)
  have "card (set (protection_reasons e)) = length (protection_reasons e)"
    unfolding P by (rule distinct_filter_card) (simp add: protection_reason_order_def)
  moreover have "set (protection_reasons e) \<subseteq> {UnreadableAudio, MissingAudio, UnsafeMetadata, UnknownTimestamp}"
    unfolding P by (auto simp: protection_reason_order_def)
  ultimately show ?thesis using assms by (simp add: retention_decision_def)
qed

lemma limit_decision:
  assumes "s \<subseteq> set limit_reason_order" and "s \<noteq> {}"
  shows "retention_decision e Select (filter (\<lambda>r. r \<in> s) limit_reason_order) =
    Inr \<lparr>rd_entry = e, rd_disposition = Select, rd_reasons = filter (\<lambda>r. r \<in> s) limit_reason_order\<rparr>"
proof -
  let ?rs = "filter (\<lambda>r. r \<in> s) limit_reason_order"
  have "card (set ?rs) = length ?rs"
    by (rule distinct_filter_card) (simp add: limit_reason_order_def)
  moreover have "set ?rs = s" using assms(1) by auto
  moreover have "s \<subseteq> {AgeLimit, UnitLimit, ByteLimit}"
    using assms(1) by (auto simp: limit_reason_order_def)
  moreover from assms \<open>set ?rs = s\<close> have "?rs \<noteq> []" by (metis set_empty2 list.set(1))
  ultimately show ?thesis using assms(2) unfolding retention_decision_def by simp
qed

lemma retain_decision:
  "retention_decision e Retain [WithinPolicy] =
    Inr \<lparr>rd_entry = e, rd_disposition = Retain, rd_reasons = [WithinPolicy]\<rparr>"
  by (simp add: retention_decision_def)

lemma decide_eq: "limit_map m \<Longrightarrow> decide m e = Inr (decision_of m e)"
  by (auto simp: decide_def disposition_of_def reasons_of_def protection_decision limit_decision
      retain_decision limit_map_def split: option.split)

lemma decide_all: "limit_map m \<Longrightarrow> map_res (decide m) es = Inr (map (decision_of m) es)"
  by (intro map_res_Inr_map decide_eq)

lemma decisions_with_map:
  "decisions_with d (map (decision_of m) es) = map (decision_of m) (filter (\<lambda>e. disposition_of m e = d) es)"
  by (simp add: decisions_with_def filter_map comp_def)


section \<open>The selected prefix\<close>

text \<open>
  The specification: removing the \<open>j\<close> oldest selectable entries leaves no selectable entry older than
  the cutoff and no more units and bytes than allowed. Protected entries count for units and bytes;
  their age does not count here, although the plan's own \<open>age_limit_satisfied\<close> does count it: no
  removal could change it.
\<close>

definition within_limits ::
  "retention_policy \<Rightarrow> int option \<Rightarrow> inventory_entry list \<Rightarrow> inventory_entry list \<Rightarrow> nat \<Rightarrow> bool" where
  "within_limits policy cutoff entries es j \<longleftrightarrow>
     (case cutoff of None \<Rightarrow> True | Some c \<Rightarrow> list_all (\<lambda>e. c \<le> recorded_us e) (drop j es)) \<and>
     (case rp_maximum_units policy of None \<Rightarrow> True | Some n \<Rightarrow> int (length entries) - int j \<le> n) \<and>
     (case rp_maximum_total_bytes policy of
        None \<Rightarrow> True | Some n \<Rightarrow> sizes entries - sizes (take j es) \<le> n)"

definition age_selected :: "int option \<Rightarrow> inventory_entry list \<Rightarrow> inventory_entry list" where
  "age_selected cutoff es =
     (case cutoff of None \<Rightarrow> [] | Some c \<Rightarrow> filter (\<lambda>e. recorded_us e < c) es)"

definition unit_selected :: "retention_policy \<Rightarrow> inventory_entry list \<Rightarrow> inventory_entry list \<Rightarrow> inventory_entry list" where
  "unit_selected policy entries es =
     (case rp_maximum_units policy of
        None \<Rightarrow> [] | Some n \<Rightarrow> take (nat (max 0 (int (length entries) - n))) es)"

definition byte_selected :: "retention_policy \<Rightarrow> inventory_entry list \<Rightarrow> inventory_entry list \<Rightarrow> inventory_entry list" where
  "byte_selected policy entries es =
     (case rp_maximum_total_bytes policy of
        None \<Rightarrow> [] | Some n \<Rightarrow> prefix_for_bytes es (max 0 (sizes entries - n)))"

lemma add_reason_Nil: "add_reason r [] m = m"
  by (simp add: add_reason_def)

lemma selected_reasons_eq:
  "selected_reasons policy cutoff entries es =
     add_reason ByteLimit (byte_selected policy entries es)
       (add_reason UnitLimit (unit_selected policy entries es)
         (add_reason AgeLimit (age_selected cutoff es) Map.empty))"
  by (simp add: selected_reasons_def Let_def byte_selected_def unit_selected_def age_selected_def
      add_reason_Nil split: option.split)

lemma selected_iff:
  "selected_reasons policy cutoff entries es e \<notin> {None, Some {}} \<longleftrightarrow>
     e \<in> set (age_selected cutoff es) \<union> set (unit_selected policy entries es) \<union>
         set (byte_selected policy entries es)"
  by (auto simp: selected_reasons_eq add_reason_apply)

lemma selected_limit_map: "limit_map (selected_reasons policy cutoff entries es)"
  by (auto simp: limit_map_def selected_reasons_eq add_reason_apply limit_reason_order_def
      split: if_splits)

lemma age_prefix:
  assumes "sorted (map recorded_us es)"
  obtains a where "a \<le> length es" and "age_selected cutoff es = take a es"
    and "\<And>c e. cutoff = Some c \<Longrightarrow> e \<in> set (drop a es) \<Longrightarrow> c \<le> recorded_us e"
    and "\<And>j. j < a \<Longrightarrow> \<exists>c. cutoff = Some c \<and> recorded_us (es ! j) < c"
proof (cases cutoff)
  case None
  then show thesis by (intro that [of 0]) (auto simp: age_selected_def)
next
  case (Some c)
  from assms obtain a where "a \<le> length es" "filter (\<lambda>e. recorded_us e < c) es = take a es"
    "\<forall>e \<in> set (drop a es). c \<le> recorded_us e" "\<forall>j < a. recorded_us (es ! j) < c"
    by (rule filter_sorted_prefix)
  with Some show thesis by (intro that [of a]) (auto simp: age_selected_def)
qed

lemma unit_prefix:
  obtains u where "u \<le> length es" and "unit_selected policy entries es = take u es"
    and "\<And>n. u < length es \<Longrightarrow> rp_maximum_units policy = Some n \<Longrightarrow> int (length entries) - int u \<le> n"
    and "\<And>j. j < u \<Longrightarrow> \<exists>n. rp_maximum_units policy = Some n \<and> n < int (length entries) - int j"
proof (cases "rp_maximum_units policy")
  case None
  then show thesis by (intro that [of 0]) (auto simp: unit_selected_def)
next
  case (Some n)
  then show thesis
    by (intro that [of "min (length es) (nat (max 0 (int (length entries) - n)))"])
      (auto simp: unit_selected_def min_def max_def split: if_splits)
qed

lemma byte_prefix:
  obtains b where "b \<le> length es" and "byte_selected policy entries es = take b es"
    and "\<And>n. b < length es \<Longrightarrow> rp_maximum_total_bytes policy = Some n \<Longrightarrow>
      sizes entries - sizes (take b es) \<le> n"
    and "\<And>j. j < b \<Longrightarrow> \<exists>n. rp_maximum_total_bytes policy = Some n \<and> n < sizes entries - sizes (take j es)"
proof (cases "\<exists>n. rp_maximum_total_bytes policy = Some n \<and> n < sizes entries")
  case False
  then show thesis
    by (intro that [of 0]) (auto simp: byte_selected_def prefix_for_bytes_def split: option.splits)
next
  case True
  then obtain n where n: "rp_maximum_total_bytes policy = Some n" "n < sizes entries" by blast
  then have "0 < sizes entries - n" by simp
  then obtain b where "b \<le> length es" "bytes_prefix es (sizes entries - n) 0 = take b es"
    "\<forall>j < b. 0 + sizes (take j es) < sizes entries - n"
    "b < length es \<or> es \<noteq> [] \<and> sizes entries - n \<le> 0 + sizes es \<longrightarrow>
       sizes entries - n \<le> 0 + sizes (take b es)"
    by (rule bytes_prefix_take)
  with n show thesis
    by (intro that [of b]) (auto simp: byte_selected_def prefix_for_bytes_def)
qed


lemma set_take_Un: "set (take i xs) \<union> set (take j xs) = set (take (max i j) xs)"
proof (cases "i \<le> j")
  case True
  then show ?thesis using set_take_subset_set_take [OF True, of xs] by (auto simp: max_def)
next
  case False
  then show ?thesis using set_take_subset_set_take [of j i xs] by (auto simp: max_def)
qed

lemma sizes_take_mono:
  assumes "\<forall>e \<in> set es. 0 \<le> total_size_bytes e" and "i \<le> j"
  shows "sizes (take i es) \<le> sizes (take j es)"
proof -
  have "take j es = take i es @ take (j - i) (drop i es)"
    using assms(2) by (metis le_add_diff_inverse take_add)
  moreover have "0 \<le> sizes (take (j - i) (drop i es))"
    using assms(1) by (intro sum_list_nonneg) (auto dest!: in_set_takeD in_set_dropD)
  ultimately show ?thesis by simp
qed

lemma selected_prefix:
  assumes "sorted (map recorded_us es)" and nonneg: "\<forall>e \<in> set es. 0 \<le> total_size_bytes e"
  obtains k where "k \<le> length es"
    and "\<And>e. selected_reasons policy cutoff entries es e \<notin> {None, Some {}} \<longleftrightarrow> e \<in> set (take k es)"
    and "k < length es \<Longrightarrow> within_limits policy cutoff entries es k"
    and "\<And>j. j < k \<Longrightarrow> \<not> within_limits policy cutoff entries es j"
proof -
  obtain a where a: "a \<le> length es" "age_selected cutoff es = take a es"
    "\<And>c e. cutoff = Some c \<Longrightarrow> e \<in> set (drop a es) \<Longrightarrow> c \<le> recorded_us e"
    "\<And>j. j < a \<Longrightarrow> \<exists>c. cutoff = Some c \<and> recorded_us (es ! j) < c"
    using age_prefix [OF assms(1), of cutoff thesis] by simp
  obtain u where u: "u \<le> length es" "unit_selected policy entries es = take u es"
    "\<And>n. u < length es \<Longrightarrow> rp_maximum_units policy = Some n \<Longrightarrow> int (length entries) - int u \<le> n"
    "\<And>j. j < u \<Longrightarrow> \<exists>n. rp_maximum_units policy = Some n \<and> n < int (length entries) - int j"
    using unit_prefix [of es policy entries thesis] by simp
  obtain b where b: "b \<le> length es" "byte_selected policy entries es = take b es"
    "\<And>n. b < length es \<Longrightarrow> rp_maximum_total_bytes policy = Some n \<Longrightarrow> sizes entries - sizes (take b es) \<le> n"
    "\<And>j. j < b \<Longrightarrow> \<exists>n. rp_maximum_total_bytes policy = Some n \<and> n < sizes entries - sizes (take j es)"
    using byte_prefix [of es policy entries thesis] by simp
  define k where "k = max (max a u) b"
  have le: "k \<le> length es" using a(1) u(1) b(1) by (simp add: k_def)
  have sel: "selected_reasons policy cutoff entries es e \<notin> {None, Some {}} \<longleftrightarrow> e \<in> set (take k es)" for e
    unfolding selected_iff a(2) u(2) b(2) set_take_Un k_def ..
  have "within_limits policy cutoff entries es k" if "k < length es"
  proof -
    have "c \<le> recorded_us e" if "cutoff = Some c" "e \<in> set (drop k es)" for c e
    proof -
      have "a \<le> k" by (simp add: k_def)
      from set_drop_subset_set_drop [OF this, of es] that show ?thesis using a(3) by blast
    qed
    moreover have "int (length entries) - int k \<le> n" if "rp_maximum_units policy = Some n" for n
      using u(3) [OF _ that] \<open>k < length es\<close> by (auto simp: k_def)
    moreover have "sizes entries - sizes (take k es) \<le> n" if "rp_maximum_total_bytes policy = Some n" for n
      using b(3) [OF _ that] \<open>k < length es\<close> sizes_take_mono [OF nonneg, of b k] by (auto simp: k_def)
    ultimately show ?thesis
      unfolding within_limits_def by (auto simp: list_all_iff split: option.split)
  qed
  moreover have "\<not> within_limits policy cutoff entries es j" if "j < k" for j
  proof -
    from that consider "j < a" | "j < u" | "j < b" by (auto simp: k_def less_max_iff_disj)
    then show ?thesis
    proof cases
      case 1
      then obtain c where "cutoff = Some c" "recorded_us (es ! j) < c" using a(4) by blast
      moreover have "es ! j \<in> set (drop j es)"
        using 1 a(1) Cons_nth_drop_Suc [of j es] by (metis list.set_intros(1) less_le_trans)
      ultimately have "\<not> list_all (\<lambda>e. c \<le> recorded_us e) (drop j es)"
        unfolding list_all_iff by (meson linorder_not_le)
      with \<open>cutoff = Some c\<close> show ?thesis by (simp add: within_limits_def)
    next
      case 2
      then obtain n where "rp_maximum_units policy = Some n" "n < int (length entries) - int j"
        using u(4) by blast
      then show ?thesis by (auto simp: within_limits_def)
    next
      case 3
      then obtain n where "rp_maximum_total_bytes policy = Some n" "n < sizes entries - sizes (take j es)"
        using b(4) by blast
      then show ?thesis by (auto simp: within_limits_def)
    qed
  qed
  ultimately show thesis using that [OF le sel] by blast
qed


section \<open>Properties\<close>

definition valid_entry :: "inventory_entry \<Rightarrow> bool" where
  "valid_entry e \<longleftrightarrow> inventory_entry e = Inr e"

definition age_cutoff :: "retention_plan \<Rightarrow> int option" where
  "age_cutoff p = map_option (\<lambda>age. the (pl_now p) - age) (rp_maximum_age (pl_policy p))"

definition plan_order :: "(pystr \<Rightarrow> pystr) \<Rightarrow> inventory_entry list \<Rightarrow> inventory_entry list" where
  "plan_order casefold entries = sort_key (entry_key casefold) (filter selectable entries)"

definition entries_with :: "disposition \<Rightarrow> retention_plan \<Rightarrow> inventory_entry list" where
  "entries_with d p = map rd_entry (decisions_with d (pl_decisions p))"

lemma valid_entry_size: "valid_entry e \<Longrightarrow> 0 \<le> total_size_bytes e"
  by (auto simp: valid_entry_def inventory_entry_def total_size_bytes_def res_simps)

lemma planned_times_cutoff:
  "planned_times policy now = Inr (planned_at, cutoff) \<Longrightarrow>
     cutoff = map_option (\<lambda>age. the planned_at - age) (rp_maximum_age policy)"
  by (cases "rp_maximum_age policy"; cases now)
    (auto simp: planned_times_def res_simps split: option.splits)

lemma plan_order_set: "set (plan_order casefold entries) = {e \<in> set entries. selectable e}"
  by (auto simp: plan_order_def)

lemma plan_Inr:
  "plan_recording_retention casefold entries policy now = Inr p \<longleftrightarrow>
     (\<exists>planned_at cutoff. planned_times policy now = Inr (planned_at, cutoff) \<and>
       (\<forall>e \<in> set entries. selectable e \<longrightarrow> keyed casefold e) \<and>
       (let m = selected_reasons policy cutoff entries (plan_order casefold entries);
            decisions = map (decision_of m) entries
        in \<not> remaining_overflow cutoff decisions \<and>
           p = \<lparr>pl_entries = entries, pl_policy = policy, pl_now = planned_at, pl_decisions = decisions,
                pl_summary = plan_summary entries policy cutoff decisions\<rparr>))"
  by (auto simp: plan_recording_retention_def res_simps selectable_entries_Inr plan_order_def Let_def
      decide_all [OF selected_limit_map])

lemma plan_E:
  assumes "plan_recording_retention casefold entries policy now = Inr p"
    and "list_all valid_entry entries"
  obtains m k where "k \<le> length (plan_order casefold entries)"
    and "pl_decisions p = map (decision_of m) entries"
    and "pl_summary p = plan_summary entries policy (age_cutoff p) (pl_decisions p)"
    and "pl_entries p = entries" and "pl_policy p = policy"
    and "\<forall>e. m e \<notin> {None, Some {}} \<longleftrightarrow> e \<in> set (take k (plan_order casefold entries))"
    and "k < length (plan_order casefold entries) \<longrightarrow>
      within_limits policy (age_cutoff p) entries (plan_order casefold entries) k"
    and "\<forall>j < k. \<not> within_limits policy (age_cutoff p) entries (plan_order casefold entries) j"
    and "\<forall>e \<in> set entries. selectable e \<longrightarrow> keyed casefold e"
proof -
  let ?es = "plan_order casefold entries"
  from assms(1) obtain planned_at cutoff where t: "planned_times policy now = Inr (planned_at, cutoff)"
    and keyed: "\<forall>e \<in> set entries. selectable e \<longrightarrow> keyed casefold e"
    and p: "pl_decisions p = map (decision_of (selected_reasons policy cutoff entries ?es)) entries"
      "pl_summary p = plan_summary entries policy cutoff (pl_decisions p)"
      "pl_entries p = entries" "pl_policy p = policy" "pl_now p = planned_at"
    by (auto simp: plan_Inr Let_def)
  have cutoff: "cutoff = age_cutoff p"
    using planned_times_cutoff [OF t] p by (simp add: age_cutoff_def)
  have "sorted (map recorded_us ?es)"
    using keyed by (intro sorted_times) (auto simp: plan_order_def)
  moreover have "\<forall>e \<in> set ?es. 0 \<le> total_size_bytes e"
    using assms(2) by (auto simp: plan_order_set list_all_iff valid_entry_size)
  ultimately obtain k where "k \<le> length ?es"
    "\<And>e. selected_reasons policy cutoff entries ?es e \<notin> {None, Some {}} \<longleftrightarrow> e \<in> set (take k ?es)"
    "k < length ?es \<Longrightarrow> within_limits policy cutoff entries ?es k"
    "\<And>j. j < k \<Longrightarrow> \<not> within_limits policy cutoff entries ?es j"
    using selected_prefix [of ?es policy cutoff entries thesis] by simp
  with p keyed show thesis unfolding cutoff by (intro that) auto
qed


definition age_ok :: "int option \<Rightarrow> inventory_entry \<Rightarrow> bool" where
  "age_ok cutoff e =
     (case cutoff of None \<Rightarrow> True | Some c \<Rightarrow>
        (case ie_recorded_at e of None \<Rightarrow> False | Some t \<Rightarrow> c \<le> utc_us t))"

lemma disposition_cases:
  "disposition_of m e = Protect \<longleftrightarrow> \<not> selectable e"
  "disposition_of m e = Select \<longleftrightarrow> selectable e \<and> m e \<notin> {None, Some {}}"
  "disposition_of m e = Retain \<longleftrightarrow> selectable e \<and> m e \<in> {None, Some {}}"
  by (auto simp: disposition_of_def)

lemma entries_with_map:
  "pl_decisions p = map (decision_of m) entries \<Longrightarrow>
     entries_with d p = filter (\<lambda>e. disposition_of m e = d) entries"
  by (simp add: entries_with_def decisions_with_map comp_def)

lemma summary_age:
  "rs_age_limit_satisfied (plan_summary entries policy cutoff ds) \<longleftrightarrow>
     (\<forall>d \<in> set ds. rd_disposition d \<noteq> Select \<longrightarrow> age_ok cutoff (rd_entry d))"
proof -
  have other: "d \<noteq> Select \<longleftrightarrow> d = Retain \<or> d = Protect" for d by (cases d) auto
  show ?thesis unfolding other
    by (cases cutoff)
      (auto simp: plan_summary_def Let_def decisions_with_def filter_empty_conv age_ok_def not_less
        ball_Un split: option.splits)
qed

lemma summary_limits:
  "rs_unit_limit_satisfied (plan_summary entries policy cutoff (map (decision_of m) entries)) \<longleftrightarrow>
     (case rp_maximum_units policy of None \<Rightarrow> True | Some n \<Rightarrow>
        int (length entries) - int (length (filter (\<lambda>e. disposition_of m e = Select) entries)) \<le> n)"
  "rs_byte_limit_satisfied (plan_summary entries policy cutoff (map (decision_of m) entries)) \<longleftrightarrow>
     (case rp_maximum_total_bytes policy of None \<Rightarrow> True | Some n \<Rightarrow>
        sizes entries - sizes (filter (\<lambda>e. disposition_of m e = Select) entries) \<le> n)"
  "rs_all_limits_satisfied (plan_summary entries policy cutoff ds) \<longleftrightarrow>
     rs_age_limit_satisfied (plan_summary entries policy cutoff ds) \<and>
     rs_unit_limit_satisfied (plan_summary entries policy cutoff ds) \<and>
     rs_byte_limit_satisfied (plan_summary entries policy cutoff ds)"
  by (simp_all add: plan_summary_def Let_def decisions_with_map comp_def split: option.split)

lemma sizes_mset: "mset xs = mset ys \<Longrightarrow> sizes xs = sizes ys"
  by (metis mset_map sum_mset_sum_list)

lemma chosen_mset:
  assumes "distinct entries"
    and "\<forall>e. m e \<notin> {None, Some {}} \<longleftrightarrow> e \<in> set (take k (plan_order casefold entries))"
  shows "mset (filter (\<lambda>e. disposition_of m e = Select) entries) =
    mset (take k (plan_order casefold entries))"
proof -
  have "set (take k (plan_order casefold entries)) \<subseteq> {e \<in> set entries. selectable e}"
    using set_take_subset by (metis plan_order_set)
  then have "set (filter (\<lambda>e. disposition_of m e = Select) entries) =
      set (take k (plan_order casefold entries))"
    using assms(2) by (auto simp: disposition_cases)
  moreover have "distinct (take k (plan_order casefold entries))"
    using assms(1) by (simp add: plan_order_def)
  moreover have "distinct (filter (\<lambda>e. disposition_of m e = Select) entries)"
    using assms(1) by simp
  ultimately show ?thesis using set_eq_iff_mset_eq_distinct by blast
qed

text \<open>The least \<open>k\<close> up to \<open>n\<close> that satisfies \<open>P\<close>, or \<open>n\<close>.\<close>

definition least_upto :: "(nat \<Rightarrow> bool) \<Rightarrow> nat \<Rightarrow> nat \<Rightarrow> bool" where
  "least_upto P n k \<longleftrightarrow> k \<le> n \<and> (k < n \<longrightarrow> P k) \<and> (\<forall>j < k. \<not> P j)"

text \<open>The entries that no policy removes satisfy the policy by themselves.\<close>

definition protected_within :: "retention_policy \<Rightarrow> int option \<Rightarrow> inventory_entry list \<Rightarrow> bool" where
  "protected_within policy cutoff es \<longleftrightarrow> list_all (age_ok cutoff) es \<and>
     (case rp_maximum_units policy of None \<Rightarrow> True | Some n \<Rightarrow> int (length es) \<le> n) \<and>
     (case rp_maximum_total_bytes policy of None \<Rightarrow> True | Some n \<Rightarrow> sizes es \<le> n)"

lemma plan_order_partition:
  "length entries = length (plan_order casefold entries) + length (filter (\<lambda>e. \<not> selectable e) entries)"
  "sizes entries = sizes (plan_order casefold entries) + sizes (filter (\<lambda>e. \<not> selectable e) entries)"
proof -
  have part: "mset entries = mset (plan_order casefold entries @ filter (\<lambda>e. \<not> selectable e) entries)"
    by (simp add: plan_order_def)
  from mset_eq_length [OF part] show "length entries = length (plan_order casefold entries) +
    length (filter (\<lambda>e. \<not> selectable e) entries)" by simp
  from sizes_mset [OF part] show "sizes entries = sizes (plan_order casefold entries) +
    sizes (filter (\<lambda>e. \<not> selectable e) entries)" by simp
qed

lemma age_ok_keyed:
  "keyed casefold e \<Longrightarrow> age_ok cutoff e \<longleftrightarrow> (case cutoff of None \<Rightarrow> True | Some c \<Rightarrow> c \<le> recorded_us e)"
  by (auto simp: keyed_def selection_key_def age_ok_def split: option.splits)

lemma set_take_drop:
  "distinct es \<Longrightarrow> e \<in> set es \<Longrightarrow> e \<notin> set (take k es) \<longleftrightarrow> e \<in> set (drop k es)"
  by (metis append_take_drop_id distinct_append Un_iff set_append disjoint_iff)

text \<open>
  C22: For an inventory of distinct entries that pass their constructor's checks, the selected entries
  are exactly the \<open>k\<close> oldest selectable ones. Here \<open>k\<close> is the least number whose removal leaves no
  selectable entry older than the age limit and no more units and bytes than allowed, or all of
  them when no number does. Entries that are protected are never removed for their age, so a
  protected entry older than the limit does not increase \<open>k\<close>, though the plan reports it.
\<close>
theorem retention_oldest_first_minimal:
  assumes "plan_recording_retention casefold entries policy now = Inr p"
    and "distinct entries" and "list_all valid_entry entries"
  shows "\<exists>k. least_upto (within_limits policy (age_cutoff p) entries (plan_order casefold entries))
      (length (plan_order casefold entries)) k \<and>
    mset (entries_with Select p) = mset (take k (plan_order casefold entries))"
proof -
  from assms(1,3) obtain m k where "k \<le> length (plan_order casefold entries)"
    and p: "pl_decisions p = map (decision_of m) entries"
    and k: "\<forall>e. m e \<notin> {None, Some {}} \<longleftrightarrow> e \<in> set (take k (plan_order casefold entries))"
    and "k < length (plan_order casefold entries) \<longrightarrow>
      within_limits policy (age_cutoff p) entries (plan_order casefold entries) k"
    and "\<forall>j < k. \<not> within_limits policy (age_cutoff p) entries (plan_order casefold entries) j"
    by (rule plan_E)
  moreover from chosen_mset [OF assms(2) k]
  have "mset (entries_with Select p) = mset (take k (plan_order casefold entries))"
    by (simp add: entries_with_map [OF p])
  ultimately show ?thesis unfolding least_upto_def by blast
qed

definition sample_entry :: "int \<Rightarrow> int \<Rightarrow> inventory_entry" where
  "sample_entry t n = \<lparr>ie_root = [[114]], ie_audio_path = [[114], [nat t]], ie_metadata_path = [[114], [0]],
     ie_audio_status = AudioCompatible, ie_metadata_status = MetadataValid,
     ie_recorded_at = Some (Aware t), ie_duration_seconds = None, ie_frames = None,
     ie_audio_size_bytes = n, ie_metadata_size_bytes = 0, ie_audio_modified_ns = 0,
     ie_metadata_modified_ns = 0, ie_modified_ns = 0, ie_issue = None\<rparr>"

abbreviation sample_policy :: retention_policy where
  "sample_policy \<equiv> \<lparr>rp_maximum_age = None, rp_maximum_units = Some 1, rp_maximum_total_bytes = Some 10\<rparr>"

lemma sample_plan_ok:
  "\<not> isl (plan_recording_retention (\<lambda>s. s) [sample_entry 5 7, sample_entry 3 8] sample_policy None)"
  by code_simp

lemma sample_plan:
  "\<exists>p. plan_recording_retention (\<lambda>s. s) [sample_entry 5 7, sample_entry 3 8] sample_policy None = Inr p"
  using sample_plan_ok by (metis isl_def sum.exhaust)

lemma sample_entries:
  "distinct [sample_entry 5 7, sample_entry 3 8]"
  "list_all valid_entry [sample_entry 5 7, sample_entry 3 8]"
  by code_simp+

theorem retention_oldest_first_minimal_witness:
  "\<exists>p. plan_recording_retention (\<lambda>s. s) [sample_entry 5 7, sample_entry 3 8] sample_policy None = Inr p \<and>
    (\<exists>k. least_upto (within_limits sample_policy (age_cutoff p) [sample_entry 5 7, sample_entry 3 8]
        (plan_order (\<lambda>s. s) [sample_entry 5 7, sample_entry 3 8]))
      (length (plan_order (\<lambda>s. s) [sample_entry 5 7, sample_entry 3 8])) k \<and>
    mset (entries_with Select p) = mset (take k (plan_order (\<lambda>s. s) [sample_entry 5 7, sample_entry 3 8])))"
  using sample_plan retention_oldest_first_minimal [OF _ sample_entries] by blast

text \<open>
  C28: The plan reports that all limits are satisfied exactly when the protected entries alone satisfy
  the policy: it never leaves a limit exceeded that removing selectable entries could meet.
\<close>
theorem retention_limits_met_iff:
  assumes "plan_recording_retention casefold entries policy now = Inr p"
    and "distinct entries" and "list_all valid_entry entries"
  shows "rs_all_limits_satisfied (pl_summary p) \<longleftrightarrow>
    protected_within policy (age_cutoff p) (filter (\<lambda>e. \<not> selectable e) entries)"
proof -
  let ?es = "plan_order casefold entries" and ?prot = "filter (\<lambda>e. \<not> selectable e) entries"
  from assms(1,3) obtain m k where k: "k \<le> length ?es"
    and p: "pl_decisions p = map (decision_of m) entries"
      "pl_summary p = plan_summary entries policy (age_cutoff p) (pl_decisions p)"
    and chosen: "\<forall>e. m e \<notin> {None, Some {}} \<longleftrightarrow> e \<in> set (take k ?es)"
    and within: "k < length ?es \<longrightarrow> within_limits policy (age_cutoff p) entries ?es k"
    and keyed: "\<forall>e \<in> set entries. selectable e \<longrightarrow> keyed casefold e"
    by (rule plan_E)
  have sel: "length (filter (\<lambda>e. disposition_of m e = Select) entries) = k"
    "sizes (filter (\<lambda>e. disposition_of m e = Select) entries) = sizes (take k ?es)"
    using mset_eq_length [OF chosen_mset [OF assms(2) chosen]] k
      sizes_mset [OF chosen_mset [OF assms(2) chosen]] by simp_all
  have nonneg: "\<forall>e \<in> set ?es. 0 \<le> total_size_bytes e"
    using assms(3) by (auto simp: plan_order_set list_all_iff valid_entry_size)
  have "distinct ?es" using assms(2) by (simp add: plan_order_def)
  then have retained: "e \<in> set entries \<and> selectable e \<and> disposition_of m e \<noteq> Select \<longleftrightarrow> e \<in> set (drop k ?es)" for e
    using chosen set_take_drop [of ?es e k] set_drop_subset [of k ?es]
    by (auto simp: disposition_cases plan_order_set)
  have age: "rs_age_limit_satisfied (pl_summary p) \<longleftrightarrow> list_all (age_ok (age_cutoff p)) ?prot"
  proof -
    have "age_ok (age_cutoff p) e" if "e \<in> set (drop k ?es)" for e
    proof -
      from that have "drop k ?es \<noteq> []" by auto
      then have "k < length ?es" by simp
      moreover from that have "keyed casefold e"
        using keyed set_drop_subset [of k ?es] by (auto simp: plan_order_set)
      ultimately have "keyed casefold e" "k < length ?es" by blast+
      with within that show ?thesis
        by (auto simp: age_ok_keyed within_limits_def list_all_iff split: option.splits)
    qed
    then show ?thesis
      using retained unfolding p summary_age by (auto simp: list_all_iff disposition_cases)
  qed
  have "sizes (take k ?es) \<le> sizes ?es"
    using sizes_take_mono [OF nonneg k] by simp
  with age within k show ?thesis
    unfolding p summary_limits sel protected_within_def
    using plan_order_partition [of entries casefold]
    by (cases "k < length ?es") (auto simp: within_limits_def split: option.splits)
qed

theorem retention_limits_met_iff_witness:
  "\<exists>p. plan_recording_retention (\<lambda>s. s) [sample_entry 5 7, sample_entry 3 8] sample_policy None = Inr p \<and>
    (rs_all_limits_satisfied (pl_summary p) \<longleftrightarrow> protected_within sample_policy (age_cutoff p)
      (filter (\<lambda>e. \<not> selectable e) [sample_entry 5 7, sample_entry 3 8]))"
  using sample_plan retention_limits_met_iff [OF _ sample_entries] by blast

lemma selectable_recorded: "selectable e \<Longrightarrow> ie_recorded_at e \<noteq> None"
  by (auto simp: protection_reasons_def protection_reason_order_def Let_def split: if_splits)

lemma selectable_entries_Inl:
  assumes "selectable_entries casefold entries = Inl err"
  shows "err \<in> {DateOverflow, PathNotRelative}"
proof -
  from assms obtain us e vs where "filter selectable entries = us @ e # vs"
    and "selection_key casefold e = Inl err"
    by (auto simp: selectable_entries_def Let_def res_simps map_res_eq_Inl)
  moreover from this(1) have "e \<in> set (filter selectable entries)" by (metis in_set_conv_decomp)
  then have "selectable e" by simp
  ultimately show ?thesis
    using selectable_recorded [of e] by (auto simp: selection_key_def Let_def res_simps split: option.splits if_splits)
qed

lemma decision_of_conforms:
  "limit_map m \<Longrightarrow> retention_decision e (disposition_of m e) (reasons_of m e) = Inr (decision_of m e)"
  by (auto simp: disposition_of_def reasons_of_def protection_decision limit_decision
      retain_decision limit_map_def)

lemma age_limit_reason:
  assumes "e \<in> set entries" and "selectable e \<Longrightarrow> keyed casefold e"
    and m_def: "m = selected_reasons policy cutoff entries (plan_order casefold entries)"
  shows "AgeLimit \<in> set (reasons_of m e) \<longleftrightarrow> selectable e \<and> \<not> age_ok cutoff e"
proof (cases "selectable e")
  case True
  have "AgeLimit \<in> set (reasons_of m e) \<longleftrightarrow> m e \<noteq> None \<and> AgeLimit \<in> the (m e)"
    using True by (auto simp: reasons_of_def disposition_of_def limit_reason_order_def)
  also have "\<dots> \<longleftrightarrow> e \<in> set (age_selected cutoff (plan_order casefold entries))"
    by (auto simp: m_def selected_reasons_eq add_reason_apply)
  also have "\<dots> \<longleftrightarrow> \<not> age_ok cutoff e"
    using True assms(1,2) by (auto simp: age_selected_def plan_order_set age_ok_keyed split: option.splits)
  finally show ?thesis using True by simp
next
  case False
  then have "reasons_of m e = protection_reasons e"
    by (simp add: reasons_of_def disposition_of_def)
  with False show ?thesis
    by (auto simp: protection_reasons_def protection_reason_order_def Let_def)
qed

lemma reasons_protect:
  "disposition_of m e = Protect \<longleftrightarrow> reasons_of m e = protection_reasons e" if "limit_map m"
  using decision_of_conforms [OF that, of e]
  by (cases "disposition_of m e")
    (auto simp: disposition_of_def reasons_of_def retention_decision_def res_simps split: if_splits)

text \<open>
  What makes a recording unsafe to remove: audio that cannot be read or is missing, a sidecar that is
  unreadable, invalid, belongs to another recording or has no recording, or an unknown time.
\<close>

definition unsafe_to_remove :: "inventory_entry \<Rightarrow> bool" where
  "unsafe_to_remove e \<longleftrightarrow> ie_audio_status e \<notin> {AudioCompatible, AudioIncompatible} \<or>
     ie_metadata_status e \<notin> {MetadataMissing, MetadataValid} \<or> ie_recorded_at e = None"

lemma unsafe_iff: "unsafe_to_remove e \<longleftrightarrow> \<not> selectable e"
  by (cases "ie_audio_status e"; cases "ie_metadata_status e")
    (simp_all add: unsafe_to_remove_def protection_reasons_def protection_reason_order_def
      protection_metadata_statuses_def)

text \<open>
  C29: Planning raises only what the planning time raises, an instant outside the range of a datetime,
  or a path outside the inventory root: the checks of the decisions never fail. A plan has one decision
  per entry, in order; exactly the entries unsafe to remove are protected, for exactly their
  protection reasons; and an entry names the age limit exactly when it may be removed and is older than
  the cutoff.
\<close>
theorem retention_plan_total:
  assumes "list_all valid_entry entries"
  shows "case plan_recording_retention casefold entries policy now of
      Inl err \<Rightarrow> planned_times policy now = Inl err \<or> err \<in> {DateOverflow, PathNotRelative}
    | Inr p \<Rightarrow> map rd_entry (pl_decisions p) = entries \<and>
        list_all (\<lambda>d. retention_decision (rd_entry d) (rd_disposition d) (rd_reasons d) = Inr d \<and>
          (rd_disposition d = Protect \<longleftrightarrow> unsafe_to_remove (rd_entry d)) \<and>
          (rd_disposition d = Protect \<longleftrightarrow> rd_reasons d = protection_reasons (rd_entry d)) \<and>
          (AgeLimit \<in> set (rd_reasons d) \<longleftrightarrow>
             \<not> unsafe_to_remove (rd_entry d) \<and> \<not> age_ok (age_cutoff p) (rd_entry d)))
        (pl_decisions p)"
proof (cases "plan_recording_retention casefold entries policy now")
  case (Inl err)
  then have "planned_times policy now = Inl err \<or> err \<in> {DateOverflow, PathNotRelative}"
    by (auto simp: plan_recording_retention_def res_simps decide_all [OF selected_limit_map]
        split: if_splits dest: selectable_entries_Inl)
  with Inl show ?thesis by simp
next
  case (Inr p)
  then obtain planned_at cutoff where t: "planned_times policy now = Inr (planned_at, cutoff)"
    and keyed: "\<forall>e \<in> set entries. selectable e \<longrightarrow> keyed casefold e"
    and p: "pl_decisions p = map (decision_of (selected_reasons policy cutoff entries
        (plan_order casefold entries))) entries"
      "pl_policy p = policy" "pl_now p = planned_at"
    by (auto simp: plan_Inr Let_def)
  have cutoff: "age_cutoff p = cutoff"
    using planned_times_cutoff [OF t] p by (simp add: age_cutoff_def)
  show ?thesis
    using keyed decision_of_conforms [OF selected_limit_map] reasons_protect [OF selected_limit_map]
    by (simp add: Inr p(1) cutoff comp_def list_all_iff disposition_cases(1)
        age_limit_reason [OF _ _ refl] unsafe_iff)
qed


theorem retention_plan_total_witness:
  "case plan_recording_retention (\<lambda>s. s) [sample_entry 5 7, sample_entry 3 8] sample_policy None of
      Inl err \<Rightarrow> planned_times sample_policy None = Inl err \<or> err \<in> {DateOverflow, PathNotRelative}
    | Inr p \<Rightarrow> map rd_entry (pl_decisions p) = [sample_entry 5 7, sample_entry 3 8] \<and>
        list_all (\<lambda>d. retention_decision (rd_entry d) (rd_disposition d) (rd_reasons d) = Inr d \<and>
          (rd_disposition d = Protect \<longleftrightarrow> unsafe_to_remove (rd_entry d)) \<and>
          (rd_disposition d = Protect \<longleftrightarrow> rd_reasons d = protection_reasons (rd_entry d)) \<and>
          (AgeLimit \<in> set (rd_reasons d) \<longleftrightarrow>
             \<not> unsafe_to_remove (rd_entry d) \<and> \<not> age_ok (age_cutoff p) (rd_entry d)))
        (pl_decisions p)"
  by (rule retention_plan_total [OF sample_entries(2)])

end
