(* ===== verification/Scanner_Text.thy ===== *)
theory Scanner_Text
  imports Py_Text
begin

text \<open>
  The string operations with which the scanner control code takes lines apart: \<open>upper\<close>, \<open>strip\<close>
  with a set of characters, \<open>partition\<close>, \<open>startswith\<close>, \<open>find\<close> and \<open>in\<close>, \<open>replace\<close>, \<open>isalnum\<close>,
  \<open>isdigit\<close>, \<open>int\<close> and \<open>str\<close>. \<open>lit\<close> turns an ASCII literal of the source into code points.
  Letters and digits are those of ASCII, which is what the scanner's protocol consists of: code
  points beyond it are neither letters nor digits here and have no other case.
\<close>

definition lit :: "string \<Rightarrow> pystr" where
  "lit s = map of_char s"

lemma lit_simps [simp]:
  "lit [] = []" "lit s = lit t \<longleftrightarrow> s = t" "length (lit s) = length s" "lit s = [] \<longleftrightarrow> s = []"
  "[] = lit s \<longleftrightarrow> s = []"
  by (auto simp: lit_def inj_map_eq_map inj_on_def)

lemma lit_append: "lit (s @ t) = lit s @ lit t"
  by (simp add: lit_def)

abbreviation comma :: nat where "comma \<equiv> 44"
abbreviation cr_code :: nat where "cr_code \<equiv> 13"
abbreviation lf_code :: nat where "lf_code \<equiv> 10"

section \<open>Case, classes and stripping\<close>

definition upper_code :: "nat \<Rightarrow> nat" where
  "upper_code c = (if 97 \<le> c \<and> c \<le> 122 then c - 32 else c)"

definition py_upper :: "pystr \<Rightarrow> pystr" where
  "py_upper s = map upper_code s"

definition lower_code :: "nat \<Rightarrow> nat" where
  "lower_code c = (if 65 \<le> c \<and> c \<le> 90 then c + 32 else c)"

definition py_lower :: "pystr \<Rightarrow> pystr" where
  "py_lower s = map lower_code s"

definition digit_code :: "nat \<Rightarrow> bool" where
  "digit_code c \<longleftrightarrow> 48 \<le> c \<and> c \<le> 57"

definition alnum_code :: "nat \<Rightarrow> bool" where
  "alnum_code c \<longleftrightarrow> digit_code c \<or> 65 \<le> c \<and> c \<le> 90 \<or> 97 \<le> c \<and> c \<le> 122"

definition strip_codes :: "nat set \<Rightarrow> pystr \<Rightarrow> pystr" where
  "strip_codes cs s = rev (dropWhile (\<lambda>c. c \<in> cs) (rev (dropWhile (\<lambda>c. c \<in> cs) s)))"

definition lstrip_codes :: "nat set \<Rightarrow> pystr \<Rightarrow> pystr" where
  "lstrip_codes cs s = dropWhile (\<lambda>c. c \<in> cs) s"

definition rstrip_codes :: "nat set \<Rightarrow> pystr \<Rightarrow> pystr" where
  "rstrip_codes cs s = rev (dropWhile (\<lambda>c. c \<in> cs) (rev s))"

definition py_rstrip :: "pystr \<Rightarrow> pystr" where
  "py_rstrip s = rev (dropWhile py_isspace (rev s))"

definition py_replace :: "nat \<Rightarrow> nat \<Rightarrow> pystr \<Rightarrow> pystr" where
  "py_replace old new s = map (\<lambda>c. if c = old then new else c) s"

section \<open>Searching\<close>

text \<open>\<open>s.startswith(p)\<close>, \<open>s.find(p)\<close> (None for -1), \<open>p in s\<close> and \<open>s.partition(sep)\<close>.\<close>

fun starts_with :: "'a list \<Rightarrow> 'a list \<Rightarrow> bool" where
  "starts_with [] s = True"
| "starts_with (p # ps) [] = False"
| "starts_with (p # ps) (c # cs) \<longleftrightarrow> p = c \<and> starts_with ps cs"

fun find_sub :: "'a list \<Rightarrow> 'a list \<Rightarrow> nat option" where
  "find_sub p [] = (if p = [] then Some 0 else None)"
| "find_sub p (c # cs) =
     (if starts_with p (c # cs) then Some 0 else map_option Suc (find_sub p cs))"

definition contains :: "'a list \<Rightarrow> 'a list \<Rightarrow> bool" where
  "contains p s \<longleftrightarrow> find_sub p s \<noteq> None"

fun partition_at :: "'a \<Rightarrow> 'a list \<Rightarrow> 'a list \<times> bool \<times> 'a list" where
  "partition_at sep [] = ([], False, [])"
| "partition_at sep (c # cs) =
     (if c = sep then ([], True, cs)
      else case partition_at sep cs of (before, found, after) \<Rightarrow> (c # before, found, after))"

lemma starts_with_iff: "starts_with p s \<longleftrightarrow> (\<exists>r. s = p @ r)"
  by (induction p s rule: starts_with.induct) auto

lemma starts_with_append [simp]: "starts_with p (p @ s)"
  by (auto simp: starts_with_iff)

lemma find_sub_Some:
  "find_sub p s = Some i \<Longrightarrow> \<exists>r. s = take i s @ p @ r"
proof (induction s arbitrary: i)
  case (Cons c s)
  show ?case
  proof (cases "starts_with p (c # s)")
    case True
    with Cons.prems show ?thesis by (auto simp: starts_with_iff)
  next
    case False
    with Cons.prems obtain j where j: "find_sub p s = Some j" "i = Suc j" by auto
    with Cons.IH [OF j(1)] show ?thesis by auto
  qed
qed (auto split: if_splits)

lemma contains_iff: "contains p s \<longleftrightarrow> (\<exists>u v. s = u @ p @ v)"
proof
  assume "contains p s"
  then obtain i where "find_sub p s = Some i" by (auto simp: contains_def)
  then show "\<exists>u v. s = u @ p @ v" by (blast dest: find_sub_Some)
next
  have "find_sub p (u @ p @ v) \<noteq> None" for u v
  proof (induction u)
    case Nil
    have "starts_with p (p @ v)" by simp
    then show ?case by (cases "p @ v") (auto simp del: starts_with_append)
  qed auto
  moreover assume "\<exists>u v. s = u @ p @ v"
  ultimately show "contains p s" by (auto simp: contains_def)
qed

lemma partition_at_present:
  "sep \<notin> set s \<Longrightarrow> partition_at sep (s @ sep # t) = (s, True, t)"
  by (induction s) auto

lemma partition_at_absent: "sep \<notin> set s \<Longrightarrow> partition_at sep s = (s, False, [])"
  by (induction s) auto

section \<open>Integers\<close>

definition digits_value :: "pystr \<Rightarrow> nat" where
  "digits_value ds = foldl (\<lambda>acc c. acc * 10 + (c - 48)) 0 ds"

text \<open>
  \<open>int(s)\<close>: white space around an optional sign and groups of digits with single underscores
  between them; None is \<open>ValueError\<close>.
\<close>

definition parse_digits :: "pystr \<Rightarrow> nat option" where
  "parse_digits s =
     (if \<forall>g \<in> set (split_on 95 s). g \<noteq> [] \<and> list_all digit_code g
      then Some (digits_value (filter digit_code s)) else None)"

definition py_int :: "pystr \<Rightarrow> int option" where
  "py_int s =
     (case py_strip s of
        [] \<Rightarrow> None
      | c # cs \<Rightarrow>
          (if c = 43 then map_option int (parse_digits cs)
           else if c = 45 then map_option (\<lambda>n. - int n) (parse_digits cs)
           else map_option int (parse_digits (c # cs))))"

definition py_str_int :: "int \<Rightarrow> pystr" where
  "py_str_int i = (if i < 0 then 45 # py_decimal (nat (- i)) else py_decimal (nat i))"

lemma digits_value_snoc: "digits_value (ds @ [c]) = digits_value ds * 10 + (c - 48)"
  by (simp add: digits_value_def)

lemma py_decimal_digits: "c \<in> set (py_decimal n) \<Longrightarrow> digit_code c"
proof (induction n rule: py_decimal.induct)
  case (1 n)
  then show ?case
    by (subst (asm) (2) py_decimal.simps) (auto simp: digit_code_def split: if_splits)
qed

lemma py_decimal_not_Nil [simp]: "py_decimal n \<noteq> []"
  by (subst py_decimal.simps) simp

lemma digits_value_decimal [simp]: "digits_value (py_decimal n) = n"
proof (induction n rule: py_decimal.induct)
  case (1 n)
  then show ?case
    by (subst py_decimal.simps) (auto simp: digits_value_snoc, simp add: digits_value_def)
qed

lemma strip_decimal:
  assumes "\<forall>c \<in> set s. \<not> py_isspace c"
  shows "py_strip s = s"
proof -
  have keep: "dropWhile py_isspace u = u" if "set u \<subseteq> set s" for u
    using that assms by (cases u) auto
  show ?thesis by (simp add: py_strip_def keep)
qed

lemma py_int_str_int [simp]: "py_int (py_str_int i) = Some i"
proof -
  have decimal: "parse_digits (py_decimal n) = Some n" for n
  proof -
    have all: "\<forall>c \<in> set (py_decimal n). digit_code c" by (simp add: py_decimal_digits)
    then have "95 \<notin> set (py_decimal n)" by (auto simp: digit_code_def)
    with all show ?thesis
      by (simp add: parse_digits_def split_on_single list_all_iff filter_True)
  qed
  have plain: "\<forall>c \<in> set (py_decimal n). \<not> py_isspace c" for n
    by (auto dest!: py_decimal_digits simp: digit_code_def py_isspace_def)
  obtain d ds where d: "py_decimal (nat i) = d # ds" by (cases "py_decimal (nat i)") auto
  then have "digit_code d" using py_decimal_digits [of d "nat i"] by simp
  then have "d \<noteq> 43" "d \<noteq> 45" by (auto simp: digit_code_def)
  moreover have "py_strip (py_str_int i) = py_str_int i"
    using plain by (intro strip_decimal) (auto simp: py_str_int_def py_isspace_def)
  ultimately show ?thesis
    using d decimal [of "nat i"] decimal [of "nat (- i)"] by (auto simp: py_int_def py_str_int_def)
qed

lemma py_str_int_codes: "c \<in> set (py_str_int i) \<Longrightarrow> digit_code c \<or> c = 45"
  by (auto simp: py_str_int_def dest: py_decimal_digits split: if_splits)

section \<open>Decoding with replacement\<close>

text \<open>
  \<open>bytes.decode("utf-8", errors="replace")\<close>: where no character can be read, the longest prefix of
  a possible character, or else one byte, becomes U+FFFD.
\<close>

definition second_byte_ok :: "nat \<Rightarrow> nat \<Rightarrow> bool" where
  "second_byte_ok a b \<longleftrightarrow>
     utf8_cont b \<and> (a = 0xE0 \<longrightarrow> 0xA0 \<le> b) \<and> (a = 0xED \<longrightarrow> b < 0xA0) \<and>
     (a = 0xF0 \<longrightarrow> 0x90 \<le> b) \<and> (a = 0xF4 \<longrightarrow> b < 0x90)"

definition malformed_length :: "nat list \<Rightarrow> nat" where
  "malformed_length bs =
     (case bs of
        a # b # more \<Rightarrow>
          (if 0xE0 \<le> a \<and> a < 0xF5 \<and> second_byte_ok a b then
             (case more of
                c # _ \<Rightarrow> if 0xF0 \<le> a \<and> utf8_cont c then 3 else 2
              | [] \<Rightarrow> 2)
           else 1)
      | _ \<Rightarrow> 1)"

function decode_replace :: "nat list \<Rightarrow> pystr" where
  "decode_replace bs =
     (if bs = [] then []
      else case utf8_next bs of
        Some (c, rest) \<Rightarrow> c # decode_replace rest
      | None \<Rightarrow> 0xFFFD # decode_replace (drop (malformed_length bs) bs))"
  by pat_completeness auto
termination
proof (relation "measure length")
  fix bs :: "nat list"
  assume "bs \<noteq> []"
  moreover have "0 < malformed_length bs" by (simp add: malformed_length_def split: list.splits)
  ultimately show "(drop (malformed_length bs) bs, bs) \<in> measure length" by (cases bs) auto
qed (auto dest: utf8_next_length)

declare decode_replace.simps [simp del]

definition utf8_decode_replace :: "byte list \<Rightarrow> pystr" where
  "utf8_decode_replace bs = decode_replace (map unat bs)"

lemma decode_replace_units:
  "\<forall>c \<in> set s. utf8_valid c \<Longrightarrow> decode_replace (concat (map utf8_units s)) = s"
proof (induction s)
  case Nil
  show ?case by (simp add: decode_replace.simps)
next
  case (Cons c s)
  then have "utf8_next (utf8_units c @ concat (map utf8_units s)) = Some (c, concat (map utf8_units s))"
    by (intro utf8_next_units) simp
  with Cons show ?case by (subst decode_replace.simps) simp
qed

text \<open>What encodes without error is decoded back.\<close>

lemma decode_replace_encode: "utf8_encode s = Some bs \<Longrightarrow> utf8_decode_replace bs = s"
  using unat_of_units [of s]
  by (auto simp: utf8_encode_def utf8_decode_replace_def list_all_iff decode_replace_units split: if_splits)

end
