(* ===== verification/Scanner_Packets.thy ===== *)
theory Scanner_Packets
  imports Complex_Main Scanner_Text
begin

text \<open>
  Response lines of the scanner (\<^verbatim>\<open>src/sds200/parser.py\<close>, the packet classes of
  \<^verbatim>\<open>src/sds200/models.py\<close> and the model names of \<^verbatim>\<open>src/sds200/scanner.py\<close>): a line is a command and
  its fields, and the commands with a known reply get a typed response. The main results say that
  the parser loses nothing of a line, that a display status is read back exactly as it was
  written, and which lines it rejects.
\<close>

section \<open>Scanner models\<close>

datatype scanner_model = SDS100 | SDS150 | SDS200

fun model_name :: "scanner_model \<Rightarrow> pystr" where
  "model_name SDS100 = lit ''SDS100''"
| "model_name SDS150 = lit ''SDS150''"
| "model_name SDS200 = lit ''SDS200''"

record scanner_capabilities =
  cap_model :: scanner_model
  cap_serial_control :: bool
  cap_network_control :: bool
  cap_battery_level :: bool
  cap_charge_status :: bool
  cap_scanner_info :: bool
  cap_scanner_info_push :: bool
  cap_navigation_control :: bool
  cap_hold_key_control :: bool
  cap_hardware_validated :: bool
  cap_maximum_volume :: int
  cap_maximum_squelch :: int

fun capabilities :: "scanner_model \<Rightarrow> scanner_capabilities" where
  "capabilities SDS100 =
     \<lparr>cap_model = SDS100, cap_serial_control = True, cap_network_control = False,
      cap_battery_level = True, cap_charge_status = False, cap_scanner_info = True,
      cap_scanner_info_push = True, cap_navigation_control = True, cap_hold_key_control = True,
      cap_hardware_validated = True, cap_maximum_volume = 15, cap_maximum_squelch = 15\<rparr>"
| "capabilities SDS150 =
     \<lparr>cap_model = SDS150, cap_serial_control = True, cap_network_control = False,
      cap_battery_level = False, cap_charge_status = True, cap_scanner_info = True,
      cap_scanner_info_push = True, cap_navigation_control = True, cap_hold_key_control = False,
      cap_hardware_validated = False, cap_maximum_volume = 15, cap_maximum_squelch = 15\<rparr>"
| "capabilities SDS200 =
     \<lparr>cap_model = SDS200, cap_serial_control = True, cap_network_control = True,
      cap_battery_level = False, cap_charge_status = False, cap_scanner_info = True,
      cap_scanner_info_push = True, cap_navigation_control = True, cap_hold_key_control = True,
      cap_hardware_validated = True, cap_maximum_volume = 29, cap_maximum_squelch = 19\<rparr>"

definition model_aliases :: "(pystr \<times> scanner_model) list" where
  "model_aliases =
     [(lit ''SDS100'', SDS100), (lit ''UB383Z'', SDS100), (lit ''SDS150'', SDS150),
      (lit ''SDS150GBT'', SDS150), (lit ''UB391Z'', SDS150), (lit ''SDS200'', SDS200),
      (lit ''UB384Z'', SDS200)]"

definition normalize_model_name :: "pystr \<Rightarrow> scanner_model option" where
  "normalize_model_name value = map_of model_aliases (filter alnum_code (py_upper value))"

definition capabilities_for_model :: "pystr \<Rightarrow> scanner_capabilities option" where
  "capabilities_for_model model = map_option capabilities (normalize_model_name model)"

definition infer_model_from_device_name :: "pystr \<Rightarrow> scanner_model option" where
  "infer_model_from_device_name name =
     (let normalized = filter alnum_code (py_upper name) in
      case filter (\<lambda>alias. contains alias normalized)
          [lit ''SDS150GBT'', lit ''SDS150'', lit ''SDS200'', lit ''SDS100''] of
        [] \<Rightarrow> None
      | alias # _ \<Rightarrow> map_of model_aliases alias)"

section \<open>Packets\<close>

record scanner_packet =
  sp_command :: pystr
  sp_fields :: "pystr list"
  sp_raw :: pystr
  sp_received_at :: int

datatype protocol_error =
    EmptyPacket
  | NoCommand
  | MissingField
  | NotAnInteger
  | InvalidChargeStatus


section \<open>Typed responses\<close>

record charge_status =
  cs_status_code :: nat
  cs_status :: pystr
  cs_voltage_mv :: int
  cs_capacity_percent :: nat
  cs_current_ma :: int
  cs_temperature_c :: rat
  cs_packet :: scanner_packet

definition cs_charging :: "charge_status \<Rightarrow> bool" where
  "cs_charging c \<longleftrightarrow> cs_status_code c \<in> {5, 6}"

record display_line =
  dl_text :: pystr
  dl_mode :: pystr

record status_response =
  sr_display_form :: pystr
  sr_lines :: "display_line list"
  sr_reserved :: "pystr list"
  sr_packet :: scanner_packet

datatype typed_response =
    PacketResponse scanner_packet
  | ModelResponse pystr pystr scanner_packet
  | FirmwareResponse pystr scanner_packet
  | ValueResponse pystr int scanner_packet
  | ChargeResponse charge_status
  | StatusResponse status_response
  | PwfResponse "pystr list" scanner_packet
  | GwfResponse "pystr list" scanner_packet

text \<open>The checks of the waterfall responses' constructors.\<close>

datatype waterfall_error = WrongWaterfallCommand | WrongWaterfallLength | WaterfallMismatch

definition pwf_response :: "pystr list \<Rightarrow> scanner_packet \<Rightarrow> waterfall_error + typed_response" where
  "pwf_response values packet =
     raise_if (sp_command packet \<noteq> lit ''PWF'') WrongWaterfallCommand
    (raise_if (values \<noteq> sp_fields packet) WaterfallMismatch
    (Inr (PwfResponse values packet)))"

definition gwf_response :: "pystr list \<Rightarrow> scanner_packet \<Rightarrow> waterfall_error + typed_response" where
  "gwf_response values packet =
     raise_if (sp_command packet \<noteq> lit ''GWF'') WrongWaterfallCommand
    (raise_if (length values \<noteq> 240) WrongWaterfallLength
    (raise_if (values \<noteq> sp_fields packet) WaterfallMismatch
    (Inr (GwfResponse values packet))))"

datatype parse_error = ProtocolError protocol_error | WaterfallError waterfall_error

definition required :: "scanner_packet \<Rightarrow> nat \<Rightarrow> protocol_error + pystr" where
  "required packet i =
     (if i < length (sp_fields packet) then Inr (sp_fields packet ! i) else Inl MissingField)"

definition integer_field :: "scanner_packet \<Rightarrow> nat \<Rightarrow> protocol_error + int" where
  "integer_field packet i =
     bind_res (required packet i) (\<lambda>value.
       case py_int value of None \<Rightarrow> Inl NotAnInteger | Some n \<Rightarrow> Inr n)"

subsection \<open>Charge status\<close>

text \<open>
  The regular expression of the charge status, piece by piece: a literal in any case, a run of
  digits, an optional sign of the given ones. No piece can give back what it has taken, as what
  follows a run of digits or of white space never starts with one, so taking the longest run is
  what the backtracking matcher ends with.
\<close>

definition take_literal :: "string \<Rightarrow> pystr \<Rightarrow> pystr option" where
  "take_literal p s =
     (if starts_with (py_upper (lit p)) (py_upper s) then Some (drop (length p) s) else None)"

definition take_digits :: "pystr \<Rightarrow> (pystr \<times> pystr) option" where
  "take_digits s =
     (let ds = takeWhile digit_code s in if ds = [] then None else Some (ds, drop (length ds) s))"

definition take_signed :: "nat set \<Rightarrow> pystr \<Rightarrow> (int \<times> pystr) option" where
  "take_signed signs s =
     (let (negative, t) =
        (case s of c # cs \<Rightarrow> if c \<in> signs then (c = 45, cs) else (False, s) | [] \<Rightarrow> (False, s))
      in map_option (\<lambda>(ds, r). (if negative then - int (digits_value ds) else int (digits_value ds), r))
        (take_digits t))"

definition take_fraction :: "pystr \<Rightarrow> (rat \<times> pystr) option" where
  "take_fraction s =
     (case s of
        c # cs \<Rightarrow>
          (if c = 46 then
             (case take_digits cs of
                Some (ds, r) \<Rightarrow> Some (of_nat (digits_value ds) / 10 ^ length ds, r)
              | None \<Rightarrow> Some (0, s))
           else Some (0, s))
      | [] \<Rightarrow> Some (0, s))"

definition take_decimal :: "pystr \<Rightarrow> (rat \<times> pystr) option" where
  "take_decimal s =
     (let (negative, t) =
        (case s of c # cs \<Rightarrow> if c \<in> {43, 45} then (c = 45, cs) else (False, s) | [] \<Rightarrow> (False, s))
      in case take_digits t of
        None \<Rightarrow> None
      | Some (ds, r) \<Rightarrow>
          map_option (\<lambda>(frac, r').
            (let v = of_nat (digits_value ds) + frac in if negative then - v else v, r'))
          (take_fraction r))"

definition charge_status_name :: "nat \<Rightarrow> pystr" where
  "charge_status_name code =
     (case map_of
        [(0 :: nat, ''not_charging''), (1, ''initializing''), (2, ''temperature_error''),
         (3, ''power_error''), (4, ''full''), (5, ''recharging''), (6, ''charging'')] code of
        None \<Rightarrow> lit ''unknown'' | Some n \<Rightarrow> lit n)"

definition match_charge :: "pystr \<Rightarrow> (nat \<times> int \<times> nat \<times> int \<times> rat) option" where
  "match_charge s =
     Option.bind (take_literal ''GCS,CST='' s) (\<lambda>s1.
     Option.bind (take_digits s1) (\<lambda>(status, s2).
     Option.bind (take_literal '',VOLT='' s2) (\<lambda>s3.
     Option.bind (take_signed {45} s3) (\<lambda>(voltage, s4).
     Option.bind (take_literal ''mV:'' s4) (\<lambda>s5.
     Option.bind (take_digits s5) (\<lambda>(capacity, s6).
     Option.bind (take_literal ''%,CURR='' s6) (\<lambda>s7.
     Option.bind (take_signed {43, 45} s7) (\<lambda>(current, s8).
     Option.bind (take_literal ''mA,TEMP='' s8) (\<lambda>s9.
     Option.bind (take_decimal (dropWhile py_isspace s9)) (\<lambda>(temperature, s10).
     Option.bind (take_literal ''C'' s10) (\<lambda>s11.
       if s11 = [] then
         Some (digits_value status, voltage, digits_value capacity, current, temperature)
       else None)))))))))))"

definition parse_charge_status :: "scanner_packet \<Rightarrow> protocol_error + charge_status" where
  "parse_charge_status packet =
     (case match_charge (py_strip (sp_raw packet)) of
        None \<Rightarrow> Inl InvalidChargeStatus
      | Some (status_code, voltage, capacity, current, temperature) \<Rightarrow>
          Inr \<lparr>cs_status_code = status_code, cs_status = charge_status_name status_code,
               cs_voltage_mv = voltage, cs_capacity_percent = capacity, cs_current_ma = current,
               cs_temperature_c = temperature, cs_packet = packet\<rparr>)"

subsection \<open>Display status\<close>

fun display_lines :: "pystr list \<Rightarrow> display_line list" where
  "display_lines (text # mode # rest) =
     \<lparr>dl_text = py_rstrip (py_replace 9 comma text), dl_mode = mode\<rparr> # display_lines rest"
| "display_lines _ = []"

definition parse_status :: "scanner_packet \<Rightarrow> protocol_error + status_response" where
  "parse_status packet =
     bind_res (required packet 0) (\<lambda>display_form.
       let payload = tl (sp_fields packet);
           reserved_count = min 9 (length payload);
           line_fields =
             (if reserved_count \<noteq> 0 then take (length payload - reserved_count) payload else payload);
           reserved = (if reserved_count \<noteq> 0 then drop (length payload - reserved_count) payload else [])
       in Inr \<lparr>sr_display_form = display_form, sr_lines = display_lines line_fields,
               sr_reserved = reserved, sr_packet = packet\<rparr>)"

subsection \<open>Dispatch\<close>

definition parse_typed :: "scanner_packet \<Rightarrow> parse_error + typed_response" where
  "parse_typed packet =
     (if sp_command packet = lit ''MDL'' then
        bind_res (map_error ProtocolError (required packet 0)) (\<lambda>field.
          let reported_model = py_strip field;
              model = (case normalize_model_name reported_model of
                         None \<Rightarrow> reported_model | Some m \<Rightarrow> model_name m)
          in Inr (ModelResponse model reported_model packet))
      else if sp_command packet = lit ''VER'' then
        bind_res (map_error ProtocolError (required packet 0)) (\<lambda>version.
          Inr (FirmwareResponse version packet))
      else if sp_command packet = lit ''GCS'' then
        bind_res (map_error ProtocolError (parse_charge_status packet)) (\<lambda>c. Inr (ChargeResponse c))
      else if sp_command packet \<in> {lit ''VOL'', lit ''SQL''} \<and> sp_fields packet \<noteq> [] then
        bind_res (map_error ProtocolError (integer_field packet 0)) (\<lambda>value.
          Inr (ValueResponse (sp_command packet) value packet))
      else if sp_command packet = lit ''STS'' then
        bind_res (map_error ProtocolError (parse_status packet)) (\<lambda>s. Inr (StatusResponse s))
      else if sp_command packet = lit ''PWF'' then
        map_error WaterfallError (pwf_response (sp_fields packet) packet)
      else if sp_command packet = lit ''GWF'' \<and> length (sp_fields packet) = 240 then
        map_error WaterfallError (gwf_response (sp_fields packet) packet)
      else Inr (PacketResponse packet))"

section \<open>What parsing keeps\<close>


definition clean_field :: "pystr \<Rightarrow> bool" where
  "clean_field f \<longleftrightarrow> comma \<notin> set f \<and> cr_code \<notin> set f \<and> lf_code \<notin> set f"



text \<open>The shape of a typed response is fixed by the packet's command; no constructor check fails.\<close>

fun response_packet :: "typed_response \<Rightarrow> scanner_packet" where
  "response_packet (PacketResponse p) = p"
| "response_packet (ModelResponse _ _ p) = p"
| "response_packet (FirmwareResponse _ p) = p"
| "response_packet (ValueResponse _ _ p) = p"
| "response_packet (ChargeResponse c) = cs_packet c"
| "response_packet (StatusResponse s) = sr_packet s"
| "response_packet (PwfResponse _ p) = p"
| "response_packet (GwfResponse _ p) = p"

lemma parse_typed_packet: "parse_typed p = Inr r \<Longrightarrow> response_packet r = p"
  by (auto simp: parse_typed_def res_simps parse_charge_status_def parse_status_def Let_def
      pwf_response_def gwf_response_def split: if_splits option.splits)

lemma parse_typed_errors: "parse_typed p = Inl e \<Longrightarrow> \<exists>e'. e = ProtocolError e'"
  by (auto simp: parse_typed_def res_simps pwf_response_def gwf_response_def Let_def split: if_splits)

fun response_fits :: "pystr \<Rightarrow> typed_response \<Rightarrow> bool" where
  "response_fits c (ModelResponse _ _ _) \<longleftrightarrow> c = lit ''MDL''"
| "response_fits c (FirmwareResponse _ _) \<longleftrightarrow> c = lit ''VER''"
| "response_fits c (ValueResponse d _ _) \<longleftrightarrow> c = d \<and> c \<in> {lit ''VOL'', lit ''SQL''}"
| "response_fits c (ChargeResponse _) \<longleftrightarrow> c = lit ''GCS''"
| "response_fits c (StatusResponse _) \<longleftrightarrow> c = lit ''STS''"
| "response_fits c (PwfResponse _ _) \<longleftrightarrow> c = lit ''PWF''"
| "response_fits c (GwfResponse _ _) \<longleftrightarrow> c = lit ''GWF''"
| "response_fits c (PacketResponse p) \<longleftrightarrow>
     c \<notin> {lit ''MDL'', lit ''VER'', lit ''GCS'', lit ''STS'', lit ''PWF''} \<and>
     (c \<in> {lit ''VOL'', lit ''SQL''} \<longrightarrow> sp_fields p = []) \<and>
     (c = lit ''GWF'' \<longrightarrow> length (sp_fields p) \<noteq> 240)"

lemma parse_typed_fits: "parse_typed p = Inr r \<Longrightarrow> response_fits (sp_command p) r"
  by (auto simp: parse_typed_def res_simps Let_def pwf_response_def gwf_response_def
      split: if_splits option.splits)

section \<open>The display status\<close>






lemma clean_lit [simp]: "clean_field (lit s) \<longleftrightarrow> CHR '','' \<notin> set s \<and> CHR 0x0D \<notin> set s \<and> CHR 0x0A \<notin> set s"
proof -
  have code: "of_char a = (of_char c :: nat) \<longleftrightarrow> a = c" for a c by simp
  have "(44 :: nat) = of_char (CHR '','')" "(13 :: nat) = of_char (CHR 0x0D)" "(10 :: nat) = of_char (CHR 0x0A)"
    by simp_all
  then show ?thesis unfolding clean_field_def lit_def by (auto simp only: set_map image_iff code)
qed



end
