(* ===== verification/Xml_Documents.thy ===== *)
theory Xml_Documents
  imports Scanner_Packets
begin

text \<open>
  The XML responses of the scanner (\<^verbatim>\<open>src/sds200/xml_protocol.py\<close> and the response classes of
  \<^verbatim>\<open>src/sds200/models.py\<close>): the assembler that collects the lines of a document, and the parsers
  that read its elements. ElementTree's parser is the argument \<open>parse_xml\<close>, None where it raises
  \<open>ParseError\<close>; what it returns is the datatype \<open>xml\<close>.
\<close>

datatype xml = Element
  (xml_tag: pystr)
  (xml_attributes: "(pystr \<times> pystr) list")
  (xml_text: "pystr option")
  (xml_children: "xml list")
  (xml_tail: "pystr option")

type_synonym xml_parser = "pystr \<Rightarrow> xml option"

text \<open>\<open>root.iter()\<close>: the element and its descendants in document order.\<close>

fun xml_iter :: "xml \<Rightarrow> xml list" where
  "xml_iter (Element t as tx cs tail) = Element t as tx cs tail # concat (map xml_iter cs)"

section \<open>Responses\<close>

text \<open>
  \<open>ScannerNode\<close>, \<open>GltRecord\<close>, \<open>MsiRecord\<close> and \<open>AnalysisRecord\<close> have the same fields, as have the
  three responses that are not a \<open>ScannerInfo\<close>; an \<open>AnalysisResponse\<close> has no moment of reception.
\<close>

record xml_record =
  rec_tag :: pystr
  rec_attributes :: "(pystr \<times> pystr) list"

definition xml_record :: "xml \<Rightarrow> xml_record" where
  "xml_record e = \<lparr>rec_tag = xml_tag e, rec_attributes = xml_attributes e\<rparr>"

record scanner_info =
  si_command :: pystr
  si_mode :: "pystr option"
  si_screen :: "pystr option"
  si_nodes :: "pystr \<rightharpoonup> xml_record"
  si_raw_xml :: pystr
  si_received_at :: int
  si_records :: "xml_record list"

record xml_response =
  xr_command :: pystr
  xr_root_attributes :: "(pystr \<times> pystr) list"
  xr_records :: "xml_record list"
  xr_raw_xml :: pystr
  xr_received_at :: "int option"

definition records_by_tag :: "xml_record list \<Rightarrow> pystr \<Rightarrow> xml_record list" where
  "records_by_tag records tag = filter (\<lambda>r. rec_tag r = tag) records"

datatype response =
    Typed typed_response
  | Info scanner_info
  | Glt xml_response
  | Msi xml_response
  | Analysis xml_response

datatype xml_error = InvalidXml | UnexpectedRoot

section \<open>Parsers\<close>

definition scanner_info_parse :: "xml_parser \<Rightarrow> int \<Rightarrow> pystr \<Rightarrow> pystr \<Rightarrow> xml_error + scanner_info" where
  "scanner_info_parse parse_xml now command xml =
     (case parse_xml xml of
        None \<Rightarrow> Inl InvalidXml
      | Some root_element \<Rightarrow>
          raise_if (xml_tag root_element \<noteq> lit ''ScannerInfo'') UnexpectedRoot
          (let records = map xml_record (tl (xml_iter root_element)) in
           Inr \<lparr>si_command = command,
                si_mode = map_of (xml_attributes root_element) (lit ''Mode''),
                si_screen = map_of (xml_attributes root_element) (lit ''V_Screen''),
                si_nodes = map_of (rev (map (\<lambda>r. (rec_tag r, r)) records)),
                si_raw_xml = xml, si_received_at = now, si_records = records\<rparr>))"

definition glt_parse :: "xml_parser \<Rightarrow> int \<Rightarrow> pystr \<Rightarrow> pystr \<Rightarrow> xml_error + xml_response" where
  "glt_parse parse_xml now command xml =
     (case parse_xml xml of
        None \<Rightarrow> Inl InvalidXml
      | Some root_element \<Rightarrow>
          raise_if (xml_tag root_element \<noteq> lit ''GLT'') UnexpectedRoot
          (Inr \<lparr>xr_command = command, xr_root_attributes = xml_attributes root_element,
                xr_records = map xml_record (xml_children root_element), xr_raw_xml = xml,
                xr_received_at = Some now\<rparr>))"

definition msi_parse :: "xml_parser \<Rightarrow> int \<Rightarrow> pystr \<Rightarrow> pystr \<Rightarrow> xml_error + xml_response" where
  "msi_parse parse_xml now command xml =
     (case parse_xml xml of
        None \<Rightarrow> Inl InvalidXml
      | Some root_element \<Rightarrow>
          raise_if (xml_tag root_element \<noteq> lit ''MSI'') UnexpectedRoot
          (Inr \<lparr>xr_command = command, xr_root_attributes = xml_attributes root_element,
                xr_records = map xml_record (tl (xml_iter root_element)), xr_raw_xml = xml,
                xr_received_at = Some now\<rparr>))"

definition analysis_parse :: "xml_parser \<Rightarrow> pystr \<Rightarrow> pystr \<Rightarrow> xml_error + xml_response" where
  "analysis_parse parse_xml command xml =
     (case parse_xml xml of
        None \<Rightarrow> Inl InvalidXml
      | Some root_element \<Rightarrow>
          raise_if (xml_tag root_element \<noteq> lit ''AST'') UnexpectedRoot
          (Inr \<lparr>xr_command = command, xr_root_attributes = xml_attributes root_element,
                xr_records = map xml_record (tl (xml_iter root_element)), xr_raw_xml = xml,
                xr_received_at = None\<rparr>))"

text \<open>The menu projection of a \<open>MsiResponse\<close>: the documented records by kind.\<close>

record menu_projection =
  mp_root_attributes :: "(pystr \<times> pystr) list"
  mp_records :: "xml_record list"
  mp_items :: "xml_record list"
  mp_inputs :: "xml_record list"
  mp_locations :: "xml_record list"
  mp_errors :: "xml_record list"

definition menu_projection :: "xml_response \<Rightarrow> menu_projection" where
  "menu_projection r =
     \<lparr>mp_root_attributes = xr_root_attributes r, mp_records = xr_records r,
      mp_items = filter (\<lambda>s. rec_tag s = lit ''MenuItem'') (xr_records r),
      mp_inputs = filter (\<lambda>s. rec_tag s = lit ''MenuInput'') (xr_records r),
      mp_locations = filter (\<lambda>s. rec_tag s = lit ''MenuLocation'') (xr_records r),
      mp_errors = filter (\<lambda>s. rec_tag s = lit ''MenuErrorMsg'') (xr_records r)\<rparr>"

section \<open>Assembling documents from lines\<close>

definition xml_command_roots :: "(pystr \<times> pystr) list" where
  "xml_command_roots =
     [(lit ''GSI'', lit ''ScannerInfo''), (lit ''PSI'', lit ''ScannerInfo''), (lit ''GLT'', lit ''GLT''),
      (lit ''AST'', lit ''AST''), (lit ''MSI'', lit ''MSI'')]"

record assembler =
  as_command_roots :: "(pystr \<times> pystr) list"
  as_command :: "pystr option"
  as_root :: "pystr option"
  as_lines :: "pystr list"

definition assembler_init :: "(pystr \<times> pystr) list \<Rightarrow> assembler" where
  "assembler_init configured =
     \<lparr>as_command_roots = map (\<lambda>(command, r). (py_upper command, r)) configured,
      as_command = None, as_root = None, as_lines = []\<rparr>"

definition header_command :: "assembler \<Rightarrow> pystr \<Rightarrow> pystr option" where
  "header_command a line =
     (case filter (\<lambda>(command, r). starts_with (command @ lit '',<XML>'') (py_upper line))
         (as_command_roots a) of
        [] \<Rightarrow> None
      | (command, r) # _ \<Rightarrow> Some command)"

definition recognizes_header :: "assembler \<Rightarrow> pystr \<Rightarrow> bool" where
  "recognizes_header a line \<longleftrightarrow> header_command a line \<noteq> None"

definition assembler_reset :: "assembler \<Rightarrow> assembler" where
  "assembler_reset a = a\<lparr>as_command := None, as_root := None, as_lines := []\<rparr>"

definition collecting :: "assembler \<Rightarrow> bool" where
  "collecting a \<longleftrightarrow> as_command a \<noteq> None"

definition closes :: "pystr \<Rightarrow> pystr \<Rightarrow> bool" where
  "closes root_tag line \<longleftrightarrow> contains (lit ''</'' @ root_tag @ lit ''>'') line"

definition assembler_feed :: "pystr \<Rightarrow> assembler \<Rightarrow> (pystr \<times> pystr) option \<times> assembler" where
  "assembler_feed line a =
     (case header_command a line of
        Some command \<Rightarrow>
          (None, a\<lparr>as_command := Some command, as_root := map_of (as_command_roots a) command,
                   as_lines := []\<rparr>)
      | None \<Rightarrow>
          (case as_command a of
             None \<Rightarrow> (None, a)
           | Some command \<Rightarrow>
               (let a' = a\<lparr>as_lines := as_lines a @ [line]\<rparr> in
                if \<not> closes (the (as_root a)) line then (None, a')
                else (Some (command, join_on lf_code (as_lines a')), assembler_reset a'))))"

fun assemble :: "pystr list \<Rightarrow> assembler \<Rightarrow> (pystr \<times> pystr) list \<times> assembler" where
  "assemble [] a = ([], a)"
| "assemble (line # ls) a =
     (let (doc, a1) = assembler_feed line a; (docs, a2) = assemble ls a1
      in ((case doc of None \<Rightarrow> docs | Some d \<Rightarrow> d # docs), a2))"

subsection \<open>The invariant of the assembler\<close>

definition assembler_ok :: "assembler \<Rightarrow> bool" where
  "assembler_ok a \<longleftrightarrow>
     (case as_command a of
        None \<Rightarrow> as_root a = None \<and> as_lines a = []
      | Some c \<Rightarrow> \<exists>r. as_root a = Some r \<and> map_of (as_command_roots a) c = Some r)"

lemma assembler_ok_init [simp]: "assembler_ok (assembler_init roots)"
  by (simp add: assembler_ok_def assembler_init_def)

lemma header_command_root:
  "header_command a line = Some c \<Longrightarrow> \<exists>r. map_of (as_command_roots a) c = Some r"
proof -
  let ?fits = "filter (\<lambda>(command, r). starts_with (command @ lit '',<XML>'') (py_upper line))
    (as_command_roots a)"
  assume h: "header_command a line = Some c"
  then obtain d r rest where fits: "?fits = (d, r) # rest"
    by (cases ?fits) (auto simp: header_command_def)
  then have "(d, r) \<in> set ?fits" by (simp only: list.set_intros)
  moreover have "d = c" using h unfolding header_command_def fits by simp
  ultimately have "(c, r) \<in> set (as_command_roots a)" by simp
  then show ?thesis by (rule weak_map_of_SomeI)
qed

lemma header_command_cong:
  "as_command_roots a = as_command_roots b \<Longrightarrow> header_command a line = header_command b line"
  by (simp add: header_command_def)

lemma assembler_feed_ok:
  assumes "assembler_ok a" and "assembler_feed line a = (doc, a')"
  shows "assembler_ok a' \<and> as_command_roots a' = as_command_roots a"
  using assms
  by (auto simp: assembler_feed_def assembler_ok_def assembler_reset_def Let_def
      dest: header_command_root split: option.splits if_splits)

lemma assemble_ok:
  "assembler_ok a \<Longrightarrow> assemble ls a = (docs, a') \<Longrightarrow>
   assembler_ok a' \<and> as_command_roots a' = as_command_roots a"
proof (induction ls arbitrary: a docs)
  case (Cons line ls)
  obtain doc a1 where 1: "assembler_feed line a = (doc, a1)" by fastforce
  obtain docs2 where 2: "assemble ls a1 = (docs2, a')"
    using Cons.prems(2) 1 by (auto split: prod.splits)
  from assembler_feed_ok [OF Cons.prems(1) 1] Cons.IH [OF _ 2] show ?case by simp
qed auto

text \<open>
  A line that is no header and closes nothing is only kept: nothing is delivered for it. Until a
  header or the closing tag of the document arrives, this is so for every line.
\<close>

lemma assembler_keeps:
  assumes "as_command a = Some c" and "\<forall>l \<in> set ls. header_command a l = None"
    and "\<forall>l \<in> set ls. \<not> closes (the (as_root a)) l"
  shows "assemble ls a = ([], a\<lparr>as_lines := as_lines a @ ls\<rparr>)"
  using assms
proof (induction ls arbitrary: a)
  case (Cons l ls)
  have "assembler_feed l a = (None, a\<lparr>as_lines := as_lines a @ [l]\<rparr>)"
    using Cons.prems by (simp add: assembler_feed_def Let_def)
  moreover have "assemble ls (a\<lparr>as_lines := as_lines a @ [l]\<rparr>) =
      ([], a\<lparr>as_lines := (as_lines a @ [l]) @ ls\<rparr>)"
    using Cons.prems Cons.IH [of "a\<lparr>as_lines := as_lines a @ [l]\<rparr>"]
    by (simp add: header_command_def)
  ultimately show ?case by simp
qed simp

lemma assemble_append:
  "assemble (xs @ ys) a =
     (let (d1, a1) = assemble xs a; (d2, a2) = assemble ys a1 in (d1 @ d2, a2))"
  by (induction xs arbitrary: a) (auto simp: Let_def split: prod.splits option.splits)

text \<open>The default configuration: commands are in upper case already, and each has one root.\<close>

definition default_assembler :: assembler where
  "default_assembler = assembler_init xml_command_roots"

text \<open>
  the assembler delivers documents exactly. Whatever it was collecting, a header line starts
  a new document of the header's command; the lines that follow are collected, without delivering
  anything, as long as none is a header or closes the document's root, and the first one that
  closes it delivers the command with all lines since the header, joined by line feeds, and leaves
  the assembler idle.
\<close>

lemma xml_document_assembled:
  assumes "assembler_ok a" and "header_command a header = Some c"
    and "map_of (as_command_roots a) c = Some r"
    and "list_all (\<lambda>l. header_command a l = None \<and> \<not> closes r l) ls"
    and "header_command a final = None" and "closes r final"
  shows "assemble (header # ls) a =
      ([], a\<lparr>as_command := Some c, as_root := Some r, as_lines := ls\<rparr>) \<and>
    assemble (header # ls @ [final]) a = ([(c, join_on lf_code (ls @ [final]))], assembler_reset a)"
proof -
  define b where "b = a\<lparr>as_command := Some c, as_root := Some r, as_lines := []\<rparr>"
  have start: "assembler_feed header a = (None, b)"
    using assms(2,3) by (simp add: assembler_feed_def b_def)
  have same: "header_command b l = header_command a l" for l
    by (rule header_command_cong) (simp add: b_def)
  have keep: "assemble ls b = ([], a\<lparr>as_command := Some c, as_root := Some r, as_lines := ls\<rparr>)"
    using assembler_keeps [of b c ls] assms(4) same by (auto simp: b_def list_all_iff)
  have "assembler_feed final (a\<lparr>as_command := Some c, as_root := Some r, as_lines := ls\<rparr>) =
      (Some (c, join_on lf_code (ls @ [final])), assembler_reset a)"
    using assms(5,6)
    by (simp add: assembler_feed_def header_command_def assembler_reset_def Let_def)
  with start keep show ?thesis by (simp add: assemble_append Let_def)
qed

text \<open>A \<open>GSI\<close> response of three lines after its header.\<close>

lemma xml_document_assembled_witness:
  "assemble [lit ''GSI,<XML>,'', lit ''<?xml version=\"1.0\"?>'', lit ''<ScannerInfo Mode=\"Scan\">'']
      default_assembler =
    ([], default_assembler\<lparr>as_command := Some (lit ''GSI''), as_root := Some (lit ''ScannerInfo''),
       as_lines := [lit ''<?xml version=\"1.0\"?>'', lit ''<ScannerInfo Mode=\"Scan\">'']\<rparr>) \<and>
   assemble (lit ''GSI,<XML>,'' #
        [lit ''<?xml version=\"1.0\"?>'', lit ''<ScannerInfo Mode=\"Scan\">''] @ [lit ''</ScannerInfo>''])
      default_assembler =
    ([(lit ''GSI'', join_on lf_code
        ([lit ''<?xml version=\"1.0\"?>'', lit ''<ScannerInfo Mode=\"Scan\">''] @ [lit ''</ScannerInfo>'']))],
     assembler_reset default_assembler)"
proof (rule xml_document_assembled)
  show "assembler_ok default_assembler" by (simp add: default_assembler_def)
  show "header_command default_assembler (lit ''GSI,<XML>,'') = Some (lit ''GSI'')" by code_simp
  show "map_of (as_command_roots default_assembler) (lit ''GSI'') = Some (lit ''ScannerInfo'')" by code_simp
  show "list_all (\<lambda>l. header_command default_assembler l = None \<and> \<not> closes (lit ''ScannerInfo'') l)
      [lit ''<?xml version=\"1.0\"?>'', lit ''<ScannerInfo Mode=\"Scan\">'']" by code_simp
  show "header_command default_assembler (lit ''</ScannerInfo>'') = None" by code_simp
  show "closes (lit ''ScannerInfo'') (lit ''</ScannerInfo>'')" by code_simp
qed

end
