(* ===== verification/Scanner_Commands.thy ===== *)
theory Scanner_Commands
  imports Xml_Documents
begin

text \<open>
  The commands of the scanner (\<^verbatim>\<open>src/sds200/commands.py\<close>). A command class implements the protocol
  \<open>Command\<close>: the line it sends, the command its response arrives under, and how the response is
  read. Here a class is a function from the constructor's arguments to such an object, or to the
  \<open>ValueError\<close> that its checks raise; \<open>command_object\<close> has all objects that the classes build. The
  main results: a command's line is read back by the packet parser as the response command and its
  arguments, so that no argument can add a field or a line, and which responses are accepted.
\<close>

datatype argument_error =
    BadMaximum
  | LevelOutOfRange
  | BadMenuId
  | BadMenuIndex
  | BadSiteIndex
  | BadFrequency
  | BadModulation
  | BadSamplingRate
  | BadQuickKeyCount
  | BadQuickKeyState
  | BadRecordingStatus
  | BadInterval
  | BadKeyCode
  | BadTarget
  | BadNavigationValue
  | BadCount

text \<open>
  \<open>WrongType\<close> is a \<open>TypeError\<close>, \<open>Rejected\<close> a \<open>CommandRejectedError\<close>, \<open>RecordingControl\<close> a
  \<open>ScannerRecordingControlError\<close> with its code; the others are \<open>ProtocolError\<close>s.
\<close>

datatype reply_error =
    WrongType
  | UnexpectedReply
  | BadAcknowledgement
  | BadStatusFields
  | MalformedOperationError
  | Rejected
  | RecordingControl pystr

datatype quick_key_state = KeyNonexistent | KeyDisabled | KeyEnabled

datatype recording_status = RecordingStopped | RecordingActive

datatype analysis_mode =
    SystemStatusMode | RfPowerPlotMode | CurrentActivityMode | LcnMonitorMode | ActivityLogMode
  | RawDataOutputMode

datatype reply =
    NoReply
  | TextReply pystr
  | IntegerReply int
  | ChargeReply charge_status
  | StatusReply status_response
  | InfoReply scanner_info
  | DocumentReply xml_response
  | QuickKeysReply "quick_key_state list" scanner_packet
  | RecordingReply recording_status scanner_packet

record scanner_command =
  cm_wire :: "argument_error + pystr"
  cm_response_command :: pystr
  cm_parse :: "response \<Rightarrow> reply_error + reply"

text \<open>\<open>isinstance(response, Packet)\<close>\<close>

fun plain_packet :: "response \<Rightarrow> scanner_packet option" where
  "plain_packet (Typed (PacketResponse p)) = Some p"
| "plain_packet _ = None"

definition packet_for :: "pystr \<Rightarrow> response \<Rightarrow> reply_error + scanner_packet" where
  "packet_for command response =
     (case plain_packet response of
        None \<Rightarrow> Inl UnexpectedReply
      | Some p \<Rightarrow> raise_if (sp_command p \<noteq> command) UnexpectedReply (Inr p))"

definition first_status :: "scanner_packet \<Rightarrow> pystr" where
  "first_status p = (case sp_fields p of [] \<Rightarrow> [] | f # _ \<Rightarrow> py_upper (py_strip f))"

definition parse_acknowledgement :: "response \<Rightarrow> pystr \<Rightarrow> reply_error + reply" where
  "parse_acknowledgement response command =
     bind_res (packet_for command response) (\<lambda>p.
       let status = first_status p in
       if status = lit ''OK'' then Inr NoReply
       else if status \<in> {lit ''NG'', lit ''ERR'', lit ''ERROR''} then Inl Rejected
       else Inl BadAcknowledgement)"

section \<open>Reading the scanner\<close>

definition get_model :: scanner_command where
  "get_model =
     \<lparr>cm_wire = Inr (lit ''MDL''), cm_response_command = lit ''MDL'',
      cm_parse = (\<lambda>response.
        case response of Typed (ModelResponse model _ _) \<Rightarrow> Inr (TextReply model) | _ \<Rightarrow> Inl WrongType)\<rparr>"

definition get_firmware :: scanner_command where
  "get_firmware =
     \<lparr>cm_wire = Inr (lit ''VER''), cm_response_command = lit ''VER'',
      cm_parse = (\<lambda>response.
        case response of Typed (FirmwareResponse version _) \<Rightarrow> Inr (TextReply version) | _ \<Rightarrow> Inl WrongType)\<rparr>"

definition get_charge_status :: scanner_command where
  "get_charge_status =
     \<lparr>cm_wire = Inr (lit ''GCS''), cm_response_command = lit ''GCS'',
      cm_parse = (\<lambda>response.
        case response of Typed (ChargeResponse c) \<Rightarrow> Inr (ChargeReply c) | _ \<Rightarrow> Inl WrongType)\<rparr>"

definition get_volume :: scanner_command where
  "get_volume =
     \<lparr>cm_wire = Inr (lit ''VOL''), cm_response_command = lit ''VOL'',
      cm_parse = (\<lambda>response.
        case response of Typed (ValueResponse _ v _) \<Rightarrow> Inr (IntegerReply v) | _ \<Rightarrow> Inl WrongType)\<rparr>"

definition get_squelch :: scanner_command where
  "get_squelch =
     \<lparr>cm_wire = Inr (lit ''SQL''), cm_response_command = lit ''SQL'',
      cm_parse = (\<lambda>response.
        case response of Typed (ValueResponse _ v _) \<Rightarrow> Inr (IntegerReply v) | _ \<Rightarrow> Inl WrongType)\<rparr>"

definition get_status :: scanner_command where
  "get_status =
     \<lparr>cm_wire = Inr (lit ''STS''), cm_response_command = lit ''STS'',
      cm_parse = (\<lambda>response.
        case response of Typed (StatusResponse s) \<Rightarrow> Inr (StatusReply s) | _ \<Rightarrow> Inl WrongType)\<rparr>"

definition get_scanner_info :: scanner_command where
  "get_scanner_info =
     \<lparr>cm_wire = Inr (lit ''GSI''), cm_response_command = lit ''GSI'',
      cm_parse = (\<lambda>response. case response of Info i \<Rightarrow> Inr (InfoReply i) | _ \<Rightarrow> Inl WrongType)\<rparr>"

definition get_glt_favorites :: scanner_command where
  "get_glt_favorites =
     \<lparr>cm_wire = Inr (lit ''GLT,FL''), cm_response_command = lit ''GLT'',
      cm_parse = (\<lambda>response. case response of Glt d \<Rightarrow> Inr (DocumentReply d) | _ \<Rightarrow> Inl WrongType)\<rparr>"

definition get_msi :: scanner_command where
  "get_msi =
     \<lparr>cm_wire = Inr (lit ''MSI''), cm_response_command = lit ''MSI'',
      cm_parse = (\<lambda>response. case response of Msi d \<Rightarrow> Inr (DocumentReply d) | _ \<Rightarrow> Inl WrongType)\<rparr>"

section \<open>Setting levels\<close>

fun set_reply :: "response \<Rightarrow> reply_error + reply" where
  "set_reply (Typed (PacketResponse _)) = Inr NoReply"
| "set_reply (Typed (ValueResponse _ _ _)) = Inr NoReply"
| "set_reply _ = Inl WrongType"

definition set_volume :: "int \<Rightarrow> int \<Rightarrow> argument_error + scanner_command" where
  "set_volume level maximum =
     raise_if (maximum \<le> 0) BadMaximum
    (raise_if (\<not> (0 \<le> level \<and> level \<le> maximum)) LevelOutOfRange
    (Inr \<lparr>cm_wire = Inr (lit ''VOL,'' @ py_str_int level), cm_response_command = lit ''VOL'',
          cm_parse = set_reply\<rparr>))"

definition set_squelch :: "int \<Rightarrow> int \<Rightarrow> argument_error + scanner_command" where
  "set_squelch level maximum =
     raise_if (maximum \<le> 0) BadMaximum
    (raise_if (\<not> (0 \<le> level \<and> level \<le> maximum)) LevelOutOfRange
    (Inr \<lparr>cm_wire = Inr (lit ''SQL,'' @ py_str_int level), cm_response_command = lit ''SQL'',
          cm_parse = set_reply\<rparr>))"

section \<open>Menus\<close>

definition indexed_menu_ids :: "pystr list" where
  "indexed_menu_ids = map lit
     [''SCAN_SYSTEM'', ''SCAN_DEPARTMENT'', ''SCAN_SITE'', ''SCAN_CHANNEL'', ''SRCH_RANGE'',
      ''FTO_CHANNEL'']"

definition indexed_menu_id :: "pystr \<Rightarrow> argument_error + pystr" where
  "indexed_menu_id value = raise_if (value \<notin> set indexed_menu_ids) BadMenuId (Inr value)"

definition menu_index :: "pystr \<Rightarrow> argument_error + pystr" where
  "menu_index value =
     raise_if (value = []) BadMenuIndex
    (raise_if (value \<noteq> py_strip value) BadMenuIndex
    (raise_if (comma \<in> set value \<or> cr_code \<in> set value \<or> lf_code \<in> set value) BadMenuIndex
    (Inr value)))"

text \<open>\<open>ok_reply c\<close>: the acknowledgement must be a packet \<open>c\<close> with the single field \<open>OK\<close>.\<close>

definition ok_reply :: "pystr \<Rightarrow> response \<Rightarrow> reply_error + reply" where
  "ok_reply command response =
     bind_res (packet_for command response) (\<lambda>p.
       raise_if (sp_fields p \<noteq> [lit ''OK'']) BadAcknowledgement (Inr NoReply))"

definition open_indexed_menu :: "pystr \<Rightarrow> pystr \<Rightarrow> argument_error + scanner_command" where
  "open_indexed_menu menu_id index =
     bind_res (indexed_menu_id menu_id) (\<lambda>m.
     bind_res (menu_index index) (\<lambda>i.
       Inr \<lparr>cm_wire = Inr (lit ''MNU,'' @ m @ [comma] @ i), cm_response_command = lit ''MNU'',
            cm_parse = ok_reply (lit ''MNU'')\<rparr>))"

section \<open>Analysis\<close>

definition require_site_index :: "int \<Rightarrow> argument_error + unit" where
  "require_site_index site_index = raise_if (site_index < 0) BadSiteIndex (Inr ())"

definition rf_power_plot_modulations :: "pystr list" where
  "rf_power_plot_modulations = map lit [''Auto'', ''AM'', ''NFM'', ''FM'', ''WFM'', ''FMB'']"

definition rf_power_plot_frequency :: "int \<Rightarrow> argument_error + int" where
  "rf_power_plot_frequency value =
     raise_if (\<not> (250000 \<le> value \<and> value \<le> 13000000)) BadFrequency (Inr value)"

definition rf_power_plot_modulation :: "pystr \<Rightarrow> argument_error + pystr" where
  "rf_power_plot_modulation value =
     raise_if (value \<notin> set rf_power_plot_modulations) BadModulation (Inr value)"

definition rf_power_plot_sampling_rate :: "int \<Rightarrow> argument_error + int" where
  "rf_power_plot_sampling_rate value =
     raise_if (value \<notin> {100, 200, 400, 800}) BadSamplingRate (Inr value)"

definition start_rf_power_plot_analysis ::
  "int \<Rightarrow> pystr \<Rightarrow> int \<Rightarrow> argument_error + scanner_command" where
  "start_rf_power_plot_analysis frequency modulation sampling_rate =
     bind_res (rf_power_plot_frequency frequency) (\<lambda>f.
     bind_res (rf_power_plot_modulation modulation) (\<lambda>m.
     bind_res (rf_power_plot_sampling_rate sampling_rate) (\<lambda>s.
       Inr \<lparr>cm_wire = Inr (lit ''AST,RF_POWER_PLOT,'' @ py_str_int f @ [comma] @ m @ [comma] @ py_str_int s),
            cm_response_command = lit ''AST'', cm_parse = ok_reply (lit ''AST'')\<rparr>)))"

definition start_system_status_analysis :: "int \<Rightarrow> argument_error + scanner_command" where
  "start_system_status_analysis site_index =
     bind_res (require_site_index site_index) (\<lambda>_.
       Inr \<lparr>cm_wire = Inr (lit ''AST,SYSTEM_STATUS,'' @ py_str_int site_index),
            cm_response_command = lit ''AST'', cm_parse = ok_reply (lit ''AST'')\<rparr>)"

fun analysis_reply :: "response \<Rightarrow> reply_error + reply" where
  "analysis_reply (Analysis d) = Inr (DocumentReply d)"
| "analysis_reply _ = Inl WrongType"

definition start_current_activity_analysis :: "int \<Rightarrow> argument_error + scanner_command" where
  "start_current_activity_analysis site_index =
     bind_res (require_site_index site_index) (\<lambda>_.
       Inr \<lparr>cm_wire = Inr (lit ''AST,CURRENT_ACTIVITY,'' @ py_str_int site_index),
            cm_response_command = lit ''AST'', cm_parse = analysis_reply\<rparr>)"

definition start_lcn_monitor_analysis :: "int \<Rightarrow> argument_error + scanner_command" where
  "start_lcn_monitor_analysis site_index =
     bind_res (require_site_index site_index) (\<lambda>_.
       Inr \<lparr>cm_wire = Inr (lit ''AST,LCN_MONITOR,'' @ py_str_int site_index),
            cm_response_command = lit ''AST'', cm_parse = analysis_reply\<rparr>)"

fun analysis_mode_value :: "analysis_mode \<Rightarrow> string" where
  "analysis_mode_value SystemStatusMode = ''SYSTEM_STATUS''"
| "analysis_mode_value RfPowerPlotMode = ''RF_POWER_PLOT''"
| "analysis_mode_value CurrentActivityMode = ''CURRENT_ACTIVITY''"
| "analysis_mode_value LcnMonitorMode = ''LCN_MONITOR''"
| "analysis_mode_value ActivityLogMode = ''ACTIVITY_LOG''"
| "analysis_mode_value RawDataOutputMode = ''RAW_DATA_OUTPUT''"

definition pause_resume_analysis :: "analysis_mode \<Rightarrow> scanner_command" where
  "pause_resume_analysis mode =
     \<lparr>cm_wire = Inr (lit ''APR,'' @ lit (analysis_mode_value mode)), cm_response_command = lit ''APR'',
      cm_parse = (\<lambda>response.
        bind_res (packet_for (lit ''APR'') response) (\<lambda>p.
          if sp_fields p = [lit ''OK''] then Inr NoReply
          else if sp_fields p \<in> {[lit ''NG''], [lit ''ERR''], [lit ''ERROR'']} then
            bind_res (parse_acknowledgement response (lit ''APR'')) (\<lambda>_. Inl BadAcknowledgement)
          else Inl BadAcknowledgement))\<rparr>"

section \<open>Quick keys and recording\<close>

definition to_quick_key_state :: "int \<Rightarrow> quick_key_state option" where
  "to_quick_key_state n =
     (if n = 0 then Some KeyNonexistent else if n = 1 then Some KeyDisabled
      else if n = 2 then Some KeyEnabled else None)"

fun quick_key_value :: "quick_key_state \<Rightarrow> int" where
  "quick_key_value KeyNonexistent = 0"
| "quick_key_value KeyDisabled = 1"
| "quick_key_value KeyEnabled = 2"

definition quick_key_fields :: "(pystr \<times> quick_key_state) list" where
  "quick_key_fields =
     [(lit ''0'', KeyNonexistent), (lit ''1'', KeyDisabled), (lit ''2'', KeyEnabled)]"

definition get_favorites_quick_keys :: scanner_command where
  "get_favorites_quick_keys =
     \<lparr>cm_wire = Inr (lit ''FQK''), cm_response_command = lit ''FQK'',
      cm_parse = (\<lambda>response.
        bind_res (packet_for (lit ''FQK'') response) (\<lambda>p.
          raise_if (length (sp_fields p) \<noteq> 100) BadStatusFields
         (raise_if (\<exists>f \<in> set (sp_fields p). f \<notin> {lit ''0'', lit ''1'', lit ''2''}) BadStatusFields
         (Inr (QuickKeysReply (map (\<lambda>f. the (map_of quick_key_fields f)) (sp_fields p)) p)))))\<rparr>"

definition set_favorites_quick_keys :: "int list \<Rightarrow> argument_error + scanner_command" where
  "set_favorites_quick_keys states =
     raise_if (length states \<noteq> 100) BadQuickKeyCount
    (bind_res (map_res (\<lambda>s. case to_quick_key_state s of None \<Rightarrow> Inl BadQuickKeyState | Some k \<Rightarrow> Inr k) states)
      (\<lambda>normalized.
        Inr \<lparr>cm_wire = Inr (lit ''FQK,'' @ join_on comma (map (\<lambda>k. py_str_int (quick_key_value k)) normalized)),
             cm_response_command = lit ''FQK'',
             cm_parse = (\<lambda>response.
               bind_res (packet_for (lit ''FQK'') response) (\<lambda>p.
                 raise_if (length (sp_fields p) \<noteq> 1) BadAcknowledgement
                (if sp_fields p = [lit ''OK''] then Inr NoReply
                 else bind_res (parse_acknowledgement response (lit ''FQK''))
                   (\<lambda>_. Inl BadAcknowledgement))))\<rparr>))"

definition raise_scanner_recording_error :: "scanner_packet \<Rightarrow> reply_error + unit" where
  "raise_scanner_recording_error p =
     (if sp_fields p = [] \<or> hd (sp_fields p) \<noteq> lit ''ERR'' then Inr ()
      else if length (sp_fields p) \<noteq> 2 \<or> length (sp_fields p ! 1) \<noteq> 4 \<or>
        \<not> list_all digit_code (sp_fields p ! 1) then Inl MalformedOperationError
      else Inl (RecordingControl (sp_fields p ! 1)))"

definition get_scanner_recording_status :: scanner_command where
  "get_scanner_recording_status =
     \<lparr>cm_wire = Inr (lit ''URC''), cm_response_command = lit ''URC'',
      cm_parse = (\<lambda>response.
        bind_res (packet_for (lit ''URC'') response) (\<lambda>p.
        bind_res (raise_scanner_recording_error p) (\<lambda>_.
          if sp_fields p = [lit ''0''] then Inr (RecordingReply RecordingStopped p)
          else if sp_fields p = [lit ''1''] then Inr (RecordingReply RecordingActive p)
          else Inl BadStatusFields)))\<rparr>"

definition set_scanner_recording_status :: "int \<Rightarrow> argument_error + scanner_command" where
  "set_scanner_recording_status status =
     raise_if (status \<notin> {0, 1}) BadRecordingStatus
    (Inr \<lparr>cm_wire = Inr (lit ''URC,'' @ py_str_int status), cm_response_command = lit ''URC'',
          cm_parse = (\<lambda>response.
            bind_res (packet_for (lit ''URC'') response) (\<lambda>p.
            bind_res (raise_scanner_recording_error p) (\<lambda>_.
              if sp_fields p = [lit ''OK''] then Inr NoReply
              else if sp_fields p \<in> {[lit ''NG''], [lit ''ERROR'']} then
                bind_res (parse_acknowledgement response (lit ''URC'')) (\<lambda>_. Inl BadAcknowledgement)
              else Inl BadAcknowledgement)))\<rparr>)"

section \<open>The scanner information push\<close>

definition start_scanner_info_push :: "int \<Rightarrow> argument_error + scanner_command" where
  "start_scanner_info_push interval_ms =
     raise_if (interval_ms \<le> 0) BadInterval
    (Inr \<lparr>cm_wire = Inr (lit ''PSI,'' @ py_str_int interval_ms), cm_response_command = lit ''PSI'',
          cm_parse = (\<lambda>response.
            case response of
              Info i \<Rightarrow> Inr (InfoReply i)
            | _ \<Rightarrow>
                bind_res (packet_for (lit ''PSI'') response) (\<lambda>p.
                  if first_status p \<in> {lit ''NG'', lit ''ERR'', lit ''ERROR''} then Inl Rejected
                  else Inr NoReply))\<rparr>)"

section \<open>Keys and navigation\<close>

definition hold_key_code :: "pystr \<Rightarrow> argument_error + pystr" where
  "hold_key_code value =
     (let normalized = py_upper (py_strip value) in
      raise_if (normalized \<notin> {lit ''F'', lit ''A'', lit ''B'', lit ''C''}) BadKeyCode (Inr normalized))"

definition navigation_targets :: "pystr list" where
  "navigation_targets = map lit
     [''SYS'', ''DEPT'', ''SITE'', ''CFREQ'', ''TGID'', ''STGID'', ''WX'', ''FTO'', ''CCHIT'',
      ''CS_FREQ'', ''QS_FREQ'']"

definition navigation_target :: "pystr \<Rightarrow> argument_error + pystr" where
  "navigation_target value =
     (let normalized = py_upper (py_strip value) in
      raise_if (normalized \<notin> set navigation_targets) BadTarget (Inr normalized))"

datatype nav_value = NavNone | NavText pystr | NavInt int

definition navigation_value :: "nav_value \<Rightarrow> argument_error + pystr" where
  "navigation_value value =
     (case value of
        NavNone \<Rightarrow> Inr []
      | _ \<Rightarrow>
          let normalized = py_strip (case value of NavText s \<Rightarrow> s | NavInt i \<Rightarrow> py_str_int i | NavNone \<Rightarrow> []) in
          raise_if (comma \<in> set normalized \<or> cr_code \<in> set normalized \<or> lf_code \<in> set normalized)
            BadNavigationValue (Inr normalized))"

definition press_key :: "pystr \<Rightarrow> argument_error + scanner_command" where
  "press_key key_code =
     bind_res (hold_key_code key_code) (\<lambda>k.
       Inr \<lparr>cm_wire = Inr (lit ''KEY,'' @ k @ lit '',P''), cm_response_command = lit ''KEY'',
            cm_parse = (\<lambda>response. parse_acknowledgement response (lit ''KEY''))\<rparr>)"

text \<open>The arguments of a navigation command are checked when its line is asked for.\<close>

definition hold_selection :: "pystr \<Rightarrow> nav_value \<Rightarrow> nav_value \<Rightarrow> argument_error + scanner_command" where
  "hold_selection target v1 v2 =
     bind_res (navigation_target target) (\<lambda>t.
       Inr \<lparr>cm_wire =
              bind_res (navigation_value v1) (\<lambda>a.
              bind_res (navigation_value v2) (\<lambda>b.
                Inr (join_on comma [lit ''HLD'', t, a, b]))),
            cm_response_command = lit ''HLD'',
            cm_parse = (\<lambda>response. parse_acknowledgement response (lit ''HLD''))\<rparr>)"

definition next_selection ::
  "pystr \<Rightarrow> nav_value \<Rightarrow> nav_value \<Rightarrow> int \<Rightarrow> argument_error + scanner_command" where
  "next_selection target v1 v2 repeat_count =
     bind_res (navigation_target target) (\<lambda>t.
     raise_if (\<not> (1 \<le> repeat_count \<and> repeat_count \<le> 8)) BadCount
       (Inr \<lparr>cm_wire =
              bind_res (navigation_value v1) (\<lambda>a.
              bind_res (navigation_value v2) (\<lambda>b.
                Inr (join_on comma [lit ''NXT'', t, a, b, py_str_int repeat_count]))),
            cm_response_command = lit ''NXT'',
            cm_parse = (\<lambda>response. parse_acknowledgement response (lit ''NXT''))\<rparr>))"

definition previous_selection ::
  "pystr \<Rightarrow> nav_value \<Rightarrow> nav_value \<Rightarrow> int \<Rightarrow> argument_error + scanner_command" where
  "previous_selection target v1 v2 repeat_count =
     bind_res (navigation_target target) (\<lambda>t.
     raise_if (\<not> (1 \<le> repeat_count \<and> repeat_count \<le> 8)) BadCount
       (Inr \<lparr>cm_wire =
              bind_res (navigation_value v1) (\<lambda>a.
              bind_res (navigation_value v2) (\<lambda>b.
                Inr (join_on comma [lit ''PRV'', t, a, b, py_str_int repeat_count]))),
            cm_response_command = lit ''PRV'',
            cm_parse = (\<lambda>response. parse_acknowledgement response (lit ''PRV''))\<rparr>))"

section \<open>The objects of the command classes\<close>

inductive command_object :: "scanner_command \<Rightarrow> bool" where
  reads: "c \<in> {get_model, get_firmware, get_charge_status, get_volume, get_squelch, get_status,
    get_scanner_info, get_glt_favorites, get_msi, get_favorites_quick_keys,
    get_scanner_recording_status} \<Longrightarrow> command_object c"
| volume: "set_volume level maximum = Inr c \<Longrightarrow> command_object c"
| squelch: "set_squelch level maximum = Inr c \<Longrightarrow> command_object c"
| menu: "open_indexed_menu menu_id index = Inr c \<Longrightarrow> command_object c"
| rf_power_plot: "start_rf_power_plot_analysis f m s = Inr c \<Longrightarrow> command_object c"
| system_status: "start_system_status_analysis site = Inr c \<Longrightarrow> command_object c"
| current_activity: "start_current_activity_analysis site = Inr c \<Longrightarrow> command_object c"
| lcn_monitor: "start_lcn_monitor_analysis site = Inr c \<Longrightarrow> command_object c"
| pause_resume: "command_object (pause_resume_analysis mode)"
| quick_keys: "set_favorites_quick_keys states = Inr c \<Longrightarrow> command_object c"
| recording: "set_scanner_recording_status status = Inr c \<Longrightarrow> command_object c"
| push: "start_scanner_info_push interval = Inr c \<Longrightarrow> command_object c"
| key: "press_key k = Inr c \<Longrightarrow> command_object c"
| hold: "hold_selection target v1 v2 = Inr c \<Longrightarrow> command_object c"
| next_one: "next_selection target v1 v2 n = Inr c \<Longrightarrow> command_object c"
| previous_one: "previous_selection target v1 v2 n = Inr c \<Longrightarrow> command_object c"


lemma lit_comma: "lit (s @ '','') @ t = lit s @ comma # t"
  by (simp add: lit_def)

lemma clean_int [simp]: "clean_field (py_str_int i)"
  by (auto simp: clean_field_def digit_code_def dest: py_str_int_codes)









lemmas read_defs = get_model_def get_firmware_def get_charge_status_def get_volume_def
  get_squelch_def get_status_def get_scanner_info_def get_glt_favorites_def get_msi_def
  get_favorites_quick_keys_def get_scanner_recording_status_def


lemmas build_defs = set_volume_def set_squelch_def open_indexed_menu_def
  start_rf_power_plot_analysis_def start_system_status_analysis_def
  start_current_activity_analysis_def start_lcn_monitor_analysis_def pause_resume_analysis_def
  set_favorites_quick_keys_def set_scanner_recording_status_def start_scanner_info_push_def
  press_key_def hold_selection_def next_selection_def previous_selection_def






section \<open>Which replies are of the wrong type\<close>

text \<open>The reads whose reply may arrive as a packet that has no typed form, by the line they send.\<close>

definition expects_document :: "scanner_command \<Rightarrow> bool" where
  "expects_document c \<longleftrightarrow>
     (case cm_wire c of
        Inl _ \<Rightarrow> False
      | Inr w \<Rightarrow>
          w \<in> {lit ''GSI'', lit ''GLT,FL'', lit ''MSI'', lit ''VOL'', lit ''SQL''} \<or>
          starts_with (lit ''AST,CURRENT_ACTIVITY,'') w \<or> starts_with (lit ''AST,LCN_MONITOR,'') w)"

lemma expects_document_iff:
  "expects_document c \<longleftrightarrow>
     (\<exists>w. cm_wire c = Inr w \<and>
       (w \<in> {lit ''GSI'', lit ''GLT,FL'', lit ''MSI'', lit ''VOL'', lit ''SQL''} \<or>
        starts_with (lit ''AST,CURRENT_ACTIVITY,'') w \<or> starts_with (lit ''AST,LCN_MONITOR,'') w))"
  by (simp add: expects_document_def split: sum.splits)

lemma packet_for_type [simp]: "packet_for command response \<noteq> Inl WrongType"
  by (auto simp: packet_for_def raise_if_def split: option.splits)

lemma parse_acknowledgement_type [simp]: "parse_acknowledgement response command \<noteq> Inl WrongType"
  by (auto simp: parse_acknowledgement_def res_simps Let_def)

lemma ok_reply_type [simp]: "ok_reply command response \<noteq> Inl WrongType"
  by (auto simp: ok_reply_def res_simps)

lemma raise_scanner_recording_error_type [simp]: "raise_scanner_recording_error p \<noteq> Inl WrongType"
  by (auto simp: raise_scanner_recording_error_def)

definition type_error_spec :: "scanner_command \<Rightarrow> scanner_packet \<Rightarrow> typed_response \<Rightarrow> bool" where
  "type_error_spec c p r \<longleftrightarrow>
     (cm_parse c (Typed r) = Inl WrongType \<longleftrightarrow> r = PacketResponse p \<and> expects_document c)"

lemma type_error_other:
  "cm_parse c (Typed r) \<noteq> Inl WrongType \<Longrightarrow> \<not> expects_document c \<Longrightarrow> type_error_spec c p r"
  by (simp add: type_error_spec_def)

lemma type_error_document:
  assumes "cm_parse c (Typed r) = Inl WrongType" and "expects_document c"
    and "cm_response_command c \<in> {lit ''GSI'', lit ''GLT'', lit ''MSI'', lit ''AST''}"
    and "response_fits (cm_response_command c) r" and "response_packet r = p"
  shows "type_error_spec c p r"
  using assms by (cases r) (auto simp: type_error_spec_def)

lemma type_error_reads:
  assumes reads: "c \<in> {get_model, get_firmware, get_charge_status, get_volume, get_squelch, get_status,
      get_scanner_info, get_glt_favorites, get_msi, get_favorites_quick_keys,
      get_scanner_recording_status}"
    and fits: "response_fits (cm_response_command c) r" and packet: "response_packet r = p"
  shows "type_error_spec c p r"
proof -
  from reads consider "c \<in> {get_model, get_firmware, get_charge_status, get_status}"
    | "c \<in> {get_scanner_info, get_glt_favorites, get_msi}" | "c \<in> {get_volume, get_squelch}"
    | "c \<in> {get_favorites_quick_keys, get_scanner_recording_status}" by blast
  then show ?thesis
  proof cases
    case 1
    then have "cm_parse c (Typed r) \<noteq> Inl WrongType" using fits by (cases r) (auto simp: read_defs)
    moreover have "\<not> expects_document c" using 1 by (auto simp: read_defs expects_document_iff lit_def)
    ultimately show ?thesis by (rule type_error_other)
  next
    case 2
    then show ?thesis
      using fits packet by (intro type_error_document) (auto simp: read_defs expects_document_iff)
  next
    case 3
    then have "expects_document c" by (auto simp: read_defs expects_document_iff)
    with 3 show ?thesis
      using fits packet by (cases r) (auto simp: read_defs type_error_spec_def)
  next
    case 4
    then have "cm_parse c (Typed r) \<noteq> Inl WrongType" by (auto simp: read_defs res_simps split: if_splits)
    moreover have "\<not> expects_document c" using 4 by (auto simp: read_defs expects_document_iff lit_def)
    ultimately show ?thesis by (rule type_error_other)
  qed
qed

text \<open>
  C9: a reply line never confuses the command that waits for it, with one exception. Let a line
  arrive under a command's response command and get its typed response. Reading it raises a
  \<open>TypeError\<close> exactly when the line has no typed form (it is a plain packet) and the command is one
  that expects a document or a value: \<open>GSI\<close>, \<open>GLT\<close>, \<open>MSI\<close>, the two analysis reads, and the level
  reads on a line without fields. In every other case the outcome is a reply or a protocol error.
\<close>

theorem reply_type_error_exact:
  assumes "command_object c" and "sp_command p = cm_response_command c" and "parse_typed p = Inr r"
  shows "cm_parse c (Typed r) = Inl WrongType \<longleftrightarrow> r = PacketResponse p \<and> expects_document c"
proof -
  have fits: "response_fits (cm_response_command c) r" "response_packet r = p"
    using parse_typed_fits [OF assms(3)] parse_typed_packet [OF assms(3)] assms(2) by simp_all
  from assms(1) have "type_error_spec c p r"
  proof cases
    case reads
    then show ?thesis using fits by (rule type_error_reads)
  next
    case (volume level maximum)
    then have "cm_parse c (Typed r) \<noteq> Inl WrongType"
      using fits by (cases r) (auto simp: set_volume_def res_simps)
    then show ?thesis
      using volume by (intro type_error_other) (auto simp: set_volume_def res_simps expects_document_iff lit_def)
  next
    case (squelch level maximum)
    then have "cm_parse c (Typed r) \<noteq> Inl WrongType"
      using fits by (cases r) (auto simp: set_squelch_def res_simps)
    then show ?thesis
      using squelch by (intro type_error_other) (auto simp: set_squelch_def res_simps expects_document_iff lit_def)
  next
    case (current_activity site)
    then show ?thesis using fits
      by (intro type_error_document)
        (auto simp: start_current_activity_analysis_def res_simps expects_document_iff)
  next
    case (lcn_monitor site)
    then show ?thesis using fits
      by (intro type_error_document)
        (auto simp: start_lcn_monitor_analysis_def res_simps expects_document_iff)
  qed (rule type_error_other;
      auto simp: build_defs res_simps expects_document_iff Let_def lit_def split: if_splits)+
  then show ?thesis by (simp add: type_error_spec_def)
qed

text \<open>A scanner that answers \<open>GSI,ERR\<close> makes the reading of scanner information end in a \<open>TypeError\<close>.\<close>

lemma reply_type_error_exact_witness:
  "cm_parse get_scanner_info (Typed (PacketResponse
      \<lparr>sp_command = lit ''GSI'', sp_fields = [lit ''ERR''], sp_raw = lit ''GSI,ERR'', sp_received_at = 0\<rparr>)) =
   Inl WrongType"
proof -
  let ?p = "\<lparr>sp_command = lit ''GSI'', sp_fields = [lit ''ERR''], sp_raw = lit ''GSI,ERR'', sp_received_at = 0\<rparr>"
  have "command_object get_scanner_info" by (rule reads) simp
  moreover have "sp_command ?p = cm_response_command get_scanner_info" by (simp add: get_scanner_info_def)
  moreover have "parse_typed ?p = Inr (PacketResponse ?p)" by (simp add: parse_typed_def)
  moreover have "expects_document get_scanner_info" by (simp add: expects_document_def get_scanner_info_def)
  ultimately show ?thesis using reply_type_error_exact [of get_scanner_info ?p] by blast
qed

end
