(* ===== verification/Radio_State.thy ===== *)
theory Radio_State
  imports Xml_Documents
begin

text \<open>
  The scanner's state as the client sees it (\<^verbatim>\<open>src/sds200/state.py\<close> and the accessors of
  \<open>ScannerInfo\<close> in \<^verbatim>\<open>src/sds200/models.py\<close>): the fields read from a scanner information document,
  the classification of the screen, and the update that reports which fields changed. Python's
  \<open>float\<close> is an argument: what it makes of a string, None where it raises \<open>ValueError\<close>. A NaN
  differs from itself, which the comparison of fields inherits.
\<close>

datatype float_value = Decimal rat | Infinity bool | NotANumber

type_synonym float_parser = "pystr \<Rightarrow> float_value option"

section \<open>Reading a document\<close>

definition info_attribute :: "scanner_info \<Rightarrow> string list \<Rightarrow> string \<Rightarrow> pystr option" where
  "info_attribute info tags name =
     (case List.map_filter (\<lambda>tag.
         Option.bind (si_nodes info (lit tag)) (\<lambda>node. map_of (rec_attributes node) (lit name))) tags of
        [] \<Rightarrow> None
      | value # _ \<Rightarrow> Some (py_strip value))"

definition info_property :: "scanner_info \<Rightarrow> string \<Rightarrow> pystr option" where
  "info_property info name = info_attribute info [''Property''] name"

definition info_integer :: "pystr option \<Rightarrow> int option" where
  "info_integer value = Option.bind value py_int"

definition info_floating :: "float_parser \<Rightarrow> pystr option \<Rightarrow> float_value option" where
  "info_floating to_float value = Option.bind value to_float"

definition channel_tags :: "string list" where
  "channel_tags =
     [''ConvFrequency'', ''TGID'', ''SrchFrequency'', ''CcHitsChannel'', ''ToneOutChannel'', ''WxChannel'']"

definition info_channel_kind :: "scanner_info \<Rightarrow> string option" where
  "info_channel_kind info =
     (case filter (\<lambda>tag. si_nodes info (lit tag) \<noteq> None) channel_tags of
        [] \<Rightarrow> None | tag # _ \<Rightarrow> Some tag)"

definition info_channel_attribute :: "scanner_info \<Rightarrow> string \<Rightarrow> pystr option" where
  "info_channel_attribute info name =
     (case info_channel_kind info of None \<Rightarrow> None | Some kind \<Rightarrow> info_attribute info [kind] name)"

definition info_frequency :: "scanner_info \<Rightarrow> pystr option" where
  "info_frequency info =
     info_attribute info
       [''ConvFrequency'', ''SiteFrequency'', ''SrchFrequency'', ''CcHitsChannel'', ''ToneOutChannel'',
        ''WxChannel''] ''Freq''"

definition info_modulation :: "scanner_info \<Rightarrow> pystr option" where
  "info_modulation info =
     (case info_attribute info
         [''ConvFrequency'', ''Site'', ''SrchFrequency'', ''CcHitsChannel'', ''ToneOutChannel'',
          ''WxChannel''] ''Mod'' of
        Some value \<Rightarrow> Some value
      | None \<Rightarrow>
          (let status = info_property info ''P25Status'' in
           if status \<notin> {None, Some (lit ''None''), Some (lit ''Data'')} then status else None))"

definition info_sub_audio_detected :: "scanner_info \<Rightarrow> pystr option" where
  "info_sub_audio_detected info =
     (case info_attribute info
         [''CcHitsChannel'', ''SrchFrequency'', ''ConvFrequency'', ''SiteFrequency'',
          ''ConventionalDiscovery'', ''TrunkingDiscovery''] ''SAD'' of
        Some value \<Rightarrow> if py_lower value \<noteq> lit ''none'' then Some value else None
      | None \<Rightarrow> None)"

definition info_weather_same :: "scanner_info \<Rightarrow> pystr option" where
  "info_weather_same info =
     (case info_attribute info [''WxMode''] ''SAME'' of
        Some value \<Rightarrow> if value \<noteq> [] \<and> py_lower value \<noteq> lit ''none'' then Some value else None
      | None \<Rightarrow> None)"

section \<open>The kind of screen\<close>

datatype screen_kind = Scanning | Search | CloseCall | Weather | ToneOut | UnknownScreen

definition screen_kind_by_node :: "(string \<times> screen_kind) list" where
  "screen_kind_by_node =
     [(''CcHitsChannel'', CloseCall), (''ToneOutChannel'', ToneOut), (''WxChannel'', Weather),
      (''SrchFrequency'', Search)]"

fun py_words :: "pystr \<Rightarrow> pystr list" where
  "py_words [] = []"
| "py_words (c # cs) =
     (if py_isspace c then py_words cs
      else (case cs of
              [] \<Rightarrow> [[c]]
            | d # _ \<Rightarrow>
                (if py_isspace d then [c] # py_words cs
                 else case py_words cs of w # ws \<Rightarrow> (c # w) # ws | [] \<Rightarrow> [[c]])))"

definition screen_text :: "scanner_info \<Rightarrow> pystr" where
  "screen_text info =
     py_lower (join_on 32
       (map (\<lambda>v. py_replace 45 32 (py_replace 95 32 (py_strip v)))
         (filter (\<lambda>v. py_strip v \<noteq> [])
           (List.map_filter id [si_mode info, si_screen info]))))"

definition classify_scanner_screen :: "scanner_info \<Rightarrow> screen_kind" where
  "classify_scanner_screen info =
     (let text = screen_text info; terms = set (py_words text) in
      if contains (lit ''close call'') text then CloseCall
      else if contains (lit ''tone out'') text then ToneOut
      else if lit ''weather'' \<in> terms \<or> lit ''wx'' \<in> terms then Weather
      else case filter (\<lambda>(tag, kind). si_nodes info (lit tag) \<noteq> None) screen_kind_by_node of
        (tag, kind) # _ \<Rightarrow> kind
      | [] \<Rightarrow>
          (if lit ''search'' \<in> terms then Search
           else if lit ''scan'' \<in> terms \<or> lit ''scanning'' \<in> terms then Scanning
           else UnknownScreen))"

section \<open>Snapshots\<close>

record radio_snapshot =
  rs_mode :: "pystr option"
  rs_screen :: "pystr option"
  rs_screen_kind :: "screen_kind option"
  rs_system :: "pystr option"
  rs_department :: "pystr option"
  rs_site :: "pystr option"
  rs_system_index :: "int option"
  rs_system_hold :: "pystr option"
  rs_department_index :: "int option"
  rs_department_hold :: "pystr option"
  rs_site_index :: "int option"
  rs_site_hold :: "pystr option"
  rs_channel :: "pystr option"
  rs_channel_index :: "int option"
  rs_channel_number :: "int option"
  rs_channel_kind :: "string option"
  rs_channel_hold :: "pystr option"
  rs_frequency :: "pystr option"
  rs_modulation :: "pystr option"
  rs_sub_audio_detected :: "pystr option"
  rs_tone_out_tone_a :: "pystr option"
  rs_tone_out_tone_b :: "pystr option"
  rs_weather_mode :: "pystr option"
  rs_weather_same :: "pystr option"
  rs_service_type :: "pystr option"
  rs_talkgroup_id :: "pystr option"
  rs_unit_id :: "pystr option"
  rs_volume :: "int option"
  rs_squelch :: "int option"
  rs_signal :: "int option"
  rs_rssi :: "float_value option"
  rs_p25_status :: "pystr option"
  rs_mute :: "pystr option"
  rs_recording :: "pystr option"

definition empty_snapshot :: radio_snapshot where
  "empty_snapshot =
     \<lparr>rs_mode = None, rs_screen = None, rs_screen_kind = None, rs_system = None,
      rs_department = None, rs_site = None, rs_system_index = None, rs_system_hold = None,
      rs_department_index = None, rs_department_hold = None, rs_site_index = None,
      rs_site_hold = None, rs_channel = None, rs_channel_index = None, rs_channel_number = None,
      rs_channel_kind = None, rs_channel_hold = None, rs_frequency = None, rs_modulation = None,
      rs_sub_audio_detected = None, rs_tone_out_tone_a = None, rs_tone_out_tone_b = None,
      rs_weather_mode = None, rs_weather_same = None, rs_service_type = None,
      rs_talkgroup_id = None, rs_unit_id = None, rs_volume = None, rs_squelch = None,
      rs_signal = None, rs_rssi = None, rs_p25_status = None, rs_mute = None, rs_recording = None\<rparr>"

definition snapshot_from_scanner_info :: "float_parser \<Rightarrow> scanner_info \<Rightarrow> radio_snapshot" where
  "snapshot_from_scanner_info to_float info =
     \<lparr>rs_mode = si_mode info,
      rs_screen = si_screen info,
      rs_screen_kind = Some (classify_scanner_screen info),
      rs_system = info_attribute info [''System''] ''Name'',
      rs_department = info_attribute info [''Department''] ''Name'',
      rs_site = info_attribute info [''Site''] ''Name'',
      rs_system_index = info_integer (info_attribute info [''System''] ''Index''),
      rs_system_hold = info_attribute info [''System''] ''Hold'',
      rs_department_index = info_integer (info_attribute info [''Department''] ''Index''),
      rs_department_hold = info_attribute info [''Department''] ''Hold'',
      rs_site_index = info_integer (info_attribute info [''Site''] ''Index''),
      rs_site_hold = info_attribute info [''Site''] ''Hold'',
      rs_channel = info_attribute info channel_tags ''Name'',
      rs_channel_index = info_integer (info_channel_attribute info ''Index''),
      rs_channel_number = info_integer (info_channel_attribute info ''CH_No''),
      rs_channel_kind = info_channel_kind info,
      rs_channel_hold = info_channel_attribute info ''Hold'',
      rs_frequency = info_frequency info,
      rs_modulation = info_modulation info,
      rs_sub_audio_detected = info_sub_audio_detected info,
      rs_tone_out_tone_a = info_attribute info [''ToneOutChannel''] ''ToneA'',
      rs_tone_out_tone_b = info_attribute info [''ToneOutChannel''] ''ToneB'',
      rs_weather_mode = info_attribute info [''WxMode''] ''Mode'',
      rs_weather_same = info_weather_same info,
      rs_service_type = info_attribute info [''ConvFrequency'', ''TGID''] ''SvcType'',
      rs_talkgroup_id = info_attribute info [''TGID'', ''ConvFrequency'', ''SrchFrequency''] ''TGID'',
      rs_unit_id = info_attribute info [''TGID'', ''ConvFrequency'', ''SrchFrequency''] ''U_Id'',
      rs_volume = info_integer (info_property info ''VOL''),
      rs_squelch = info_integer (info_property info ''SQL''),
      rs_signal = info_integer (info_property info ''Sig''),
      rs_rssi = info_floating to_float (info_property info ''Rssi''),
      rs_p25_status = info_property info ''P25Status'',
      rs_mute = info_property info ''Mute'',
      rs_recording = info_property info ''Rec''\<rparr>"

section \<open>Updates\<close>

text \<open>\<open>dataclasses.fields\<close> and \<open>getattr\<close>: the fields of a snapshot by name.\<close>

datatype field_value =
    TextField "pystr option"
  | IntegerField "int option"
  | FloatField "float_value option"
  | KindField "screen_kind option"
  | TagField "string option"

definition snapshot_fields :: "radio_snapshot \<Rightarrow> (string \<times> field_value) list" where
  "snapshot_fields s =
     [(''mode'', TextField (rs_mode s)), (''screen'', TextField (rs_screen s)),
      (''screen_kind'', KindField (rs_screen_kind s)), (''system'', TextField (rs_system s)),
      (''department'', TextField (rs_department s)), (''site'', TextField (rs_site s)),
      (''system_index'', IntegerField (rs_system_index s)),
      (''system_hold'', TextField (rs_system_hold s)),
      (''department_index'', IntegerField (rs_department_index s)),
      (''department_hold'', TextField (rs_department_hold s)),
      (''site_index'', IntegerField (rs_site_index s)), (''site_hold'', TextField (rs_site_hold s)),
      (''channel'', TextField (rs_channel s)),
      (''channel_index'', IntegerField (rs_channel_index s)),
      (''channel_number'', IntegerField (rs_channel_number s)),
      (''channel_kind'', TagField (rs_channel_kind s)),
      (''channel_hold'', TextField (rs_channel_hold s)),
      (''frequency'', TextField (rs_frequency s)), (''modulation'', TextField (rs_modulation s)),
      (''sub_audio_detected'', TextField (rs_sub_audio_detected s)),
      (''tone_out_tone_a'', TextField (rs_tone_out_tone_a s)),
      (''tone_out_tone_b'', TextField (rs_tone_out_tone_b s)),
      (''weather_mode'', TextField (rs_weather_mode s)),
      (''weather_same'', TextField (rs_weather_same s)),
      (''service_type'', TextField (rs_service_type s)),
      (''talkgroup_id'', TextField (rs_talkgroup_id s)), (''unit_id'', TextField (rs_unit_id s)),
      (''volume'', IntegerField (rs_volume s)), (''squelch'', IntegerField (rs_squelch s)),
      (''signal'', IntegerField (rs_signal s)), (''rssi'', FloatField (rs_rssi s)),
      (''p25_status'', TextField (rs_p25_status s)), (''mute'', TextField (rs_mute s)),
      (''recording'', TextField (rs_recording s))]"

text \<open>Python's \<open>!=\<close>\<close>

fun field_differs :: "field_value \<Rightarrow> field_value \<Rightarrow> bool" where
  "field_differs (FloatField (Some NotANumber)) _ = True"
| "field_differs a b \<longleftrightarrow> a \<noteq> b"

record state_change =
  sc_previous :: radio_snapshot
  sc_current :: radio_snapshot
  sc_fields :: "string set"

definition state_update ::
  "float_parser \<Rightarrow> scanner_info \<Rightarrow> radio_snapshot \<Rightarrow> state_change option \<times> radio_snapshot" where
  "state_update to_float info previous =
     (let current = snapshot_from_scanner_info to_float info;
          changed = set (map (fst \<circ> fst) (filter (\<lambda>(p, c). field_differs (snd p) (snd c))
            (zip (snapshot_fields previous) (snapshot_fields current))))
      in (if changed = {} then None
          else Some \<lparr>sc_previous = previous, sc_current = current, sc_fields = changed\<rparr>, current))"

section \<open>What an update reports\<close>

lemma zip_differences:
  "map fst xs = map fst ys \<Longrightarrow> distinct (map fst xs) \<Longrightarrow>
   name \<in> set (map (fst \<circ> fst) (filter (\<lambda>(p, c). D (snd p) (snd c)) (zip xs ys))) \<longleftrightarrow>
   (\<exists>p c. map_of xs name = Some p \<and> map_of ys name = Some c \<and> D p c)"
proof (induction xs arbitrary: ys)
  case (Cons x xs)
  then obtain y ys' where ys: "ys = y # ys'" and "fst y = fst x" by (cases ys) auto
  note IH = Cons.IH [of ys']
  have "fst x \<notin> fst ` set xs" "distinct (map fst xs)" using Cons.prems(2) by simp_all
  moreover have "map fst xs = map fst ys'" using Cons.prems(1) ys by simp
  ultimately have rest: "name \<in> set (map (fst \<circ> fst) (filter (\<lambda>(p, c). D (snd p) (snd c)) (zip xs ys'))) \<longleftrightarrow>
    (\<exists>p c. map_of xs name = Some p \<and> map_of ys' name = Some c \<and> D p c)" using IH by simp
  have fresh: "fst x \<notin> fst ` set xs" using Cons.prems(2) by simp
  show ?case
  proof (cases "name = fst x")
    case True
    have "map_of xs (fst x) = None"
      using fresh by (simp add: map_of_eq_None_iff)
    with rest True have "fst x \<notin> set (map (fst \<circ> fst) (filter (\<lambda>(p, c). D (snd p) (snd c)) (zip xs ys')))"
      by simp
    then show ?thesis using ys True \<open>fst y = fst x\<close> by (cases x; cases y) (auto split: prod.splits)
  next
    case False
    then show ?thesis using ys rest \<open>fst y = fst x\<close> by (cases x; cases y) (auto split: prod.splits)
  qed
qed simp

lemma snapshot_field_names:
  "map fst (snapshot_fields s) = map fst (snapshot_fields empty_snapshot)"
  by (simp add: snapshot_fields_def)

lemma snapshot_fields_distinct: "distinct (map fst (snapshot_fields s))"
  by (simp add: snapshot_fields_def)

lemma snapshot_fields_inj: "snapshot_fields s = snapshot_fields t \<Longrightarrow> s = t"
  by (cases s; cases t) (simp add: snapshot_fields_def)

lemma map_of_snapshot_inj:
  assumes "\<And>name p c. map_of (snapshot_fields s) name = Some p \<Longrightarrow>
    map_of (snapshot_fields t) name = Some c \<Longrightarrow> p = c"
  shows "s = t"
proof (rule snapshot_fields_inj, rule nth_equalityI)
  show len: "length (snapshot_fields s) = length (snapshot_fields t)" by (simp add: snapshot_fields_def)
  fix i
  assume i: "i < length (snapshot_fields s)"
  have names: "fst (snapshot_fields s ! i) = fst (snapshot_fields t ! i)"
    using i len snapshot_field_names [of s] snapshot_field_names [of t] by (metis nth_map)
  have "map_of (snapshot_fields s) (fst (snapshot_fields s ! i)) = Some (snd (snapshot_fields s ! i))"
    "map_of (snapshot_fields t) (fst (snapshot_fields t ! i)) = Some (snd (snapshot_fields t ! i))"
    using i len snapshot_fields_distinct by (auto intro!: map_of_is_SomeI)
  with assms names show "snapshot_fields s ! i = snapshot_fields t ! i" by (simp add: prod_eq_iff)
qed

lemma field_differs_iff: "field_differs a b \<longleftrightarrow> a \<noteq> b \<or> a = FloatField (Some NotANumber)"
  by (cases "(a, b)" rule: field_differs.cases) auto

lemma snapshot_nan:
  "map_of (snapshot_fields s) name = Some (FloatField v) \<longleftrightarrow> name = ''rssi'' \<and> v = rs_rssi s"
  by (auto simp: snapshot_fields_def split: if_splits)

definition differing :: "radio_snapshot \<Rightarrow> radio_snapshot \<Rightarrow> string set" where
  "differing s t =
     {name. \<exists>p c. map_of (snapshot_fields s) name = Some p \<and>
       map_of (snapshot_fields t) name = Some c \<and> field_differs p c}"

lemma differing_empty: "differing s t = {} \<longleftrightarrow> s = t \<and> rs_rssi s \<noteq> Some NotANumber"
proof
  assume e: "differing s t = {}"
  then have "s = t"
    by (intro map_of_snapshot_inj) (auto simp: differing_def field_differs_iff)
  moreover have "rs_rssi s \<noteq> Some NotANumber"
  proof
    assume "rs_rssi s = Some NotANumber"
    then have "map_of (snapshot_fields s) ''rssi'' = Some (FloatField (Some NotANumber))"
      by (simp add: snapshot_nan)
    with \<open>s = t\<close> have "''rssi'' \<in> differing s t" by (auto simp: differing_def)
    with e show False by simp
  qed
  ultimately show "s = t \<and> rs_rssi s \<noteq> Some NotANumber" ..
next
  assume "s = t \<and> rs_rssi s \<noteq> Some NotANumber"
  then show "differing s t = {}"
    by (auto simp: differing_def field_differs_iff snapshot_nan)
qed

text \<open>
  a state update reports exactly what changed. The new state is the snapshot of the received
  document. The reported fields are those that Python's \<open>!=\<close> tells apart in the old and the new
  snapshot, with both snapshots attached; nothing is reported precisely when the snapshots are
  equal and their signal strength is a number (a NaN is reported as changed every time).
\<close>

lemma state_update_exact:
  "\<exists>change current. state_update to_float info previous = (change, current) \<and>
    current = snapshot_from_scanner_info to_float info \<and>
    (change = None \<longleftrightarrow> current = previous \<and> rs_rssi previous \<noteq> Some NotANumber) \<and>
    (\<forall>c. change = Some c \<longrightarrow>
      sc_previous c = previous \<and> sc_current c = current \<and>
      sc_fields c = {name. \<exists>p v. map_of (snapshot_fields previous) name = Some p \<and>
        map_of (snapshot_fields current) name = Some v \<and> field_differs p v})"
proof -
  define current where "current = snapshot_from_scanner_info to_float info"
  have "map fst (snapshot_fields previous) = map fst (snapshot_fields current)"
    by (metis snapshot_field_names)
  then have changed: "set (map (fst \<circ> fst) (filter (\<lambda>(p, c). field_differs (snd p) (snd c))
      (zip (snapshot_fields previous) (snapshot_fields current)))) = differing previous current"
    unfolding differing_def by (intro set_eqI) (simp only: zip_differences snapshot_fields_distinct mem_Collect_eq)
  have "state_update to_float info previous =
    (if differing previous current = {} then None
     else Some \<lparr>sc_previous = previous, sc_current = current, sc_fields = differing previous current\<rparr>,
     current)"
    unfolding state_update_def Let_def current_def [symmetric] changed ..
  then show ?thesis
    using differing_empty [of previous current] by (auto simp: current_def differing_def)
qed

text \<open>The first document of a scanner in scan mode, without any record.\<close>

definition sample_info :: scanner_info where
  "sample_info =
     \<lparr>si_command = lit ''GSI'', si_mode = Some (lit ''Scan Mode''), si_screen = None,
      si_nodes = Map.empty, si_raw_xml = [], si_received_at = 0, si_records = []\<rparr>"

lemma state_update_exact_witness:
  "\<exists>c. fst (state_update (\<lambda>_. None) sample_info empty_snapshot) = Some c \<and>
    ''mode'' \<in> sc_fields c \<and> ''volume'' \<notin> sc_fields c \<and> rs_mode (sc_current c) = Some (lit ''Scan Mode'')"
proof -
  obtain change current where r: "state_update (\<lambda>_. None) sample_info empty_snapshot = (change, current)"
    and current: "current = snapshot_from_scanner_info (\<lambda>_. None) sample_info"
    and none: "change = None \<longleftrightarrow> current = empty_snapshot \<and> rs_rssi empty_snapshot \<noteq> Some NotANumber"
    and some: "\<forall>c. change = Some c \<longrightarrow> sc_previous c = empty_snapshot \<and> sc_current c = current \<and>
      sc_fields c = {name. \<exists>p v. map_of (snapshot_fields empty_snapshot) name = Some p \<and>
        map_of (snapshot_fields current) name = Some v \<and> field_differs p v}"
    using state_update_exact [of "\<lambda>_. None" sample_info empty_snapshot] by auto
  have mode: "rs_mode current = Some (lit ''Scan Mode'')" and volume: "rs_volume current = None"
    by (simp_all add: current snapshot_from_scanner_info_def sample_info_def info_integer_def
        info_property_def info_attribute_def List.map_filter_simps)
  then have "current \<noteq> empty_snapshot" by (auto simp: empty_snapshot_def)
  with none obtain c where c: "change = Some c" by auto
  moreover have "''mode'' \<in> sc_fields c"
    using some c mode by (simp add: snapshot_fields_def empty_snapshot_def field_differs_iff)
  moreover have "''volume'' \<notin> sc_fields c"
    using some c volume by (simp add: snapshot_fields_def empty_snapshot_def field_differs_iff)
  moreover have "sc_current c = current" using some c by simp
  ultimately show ?thesis using r mode by simp
qed

end
