(* ===== verification/Udp_Decoder.thy ===== *)
theory Udp_Decoder
  imports Xml_Documents "HOL-Library.Sublist"
begin

text \<open>
  The decoder of the scanner's UDP datagrams (\<^verbatim>\<open>src/sds200/network.py\<close>, \<open>UdpDatagramDecoder\<close>):
  it turns a datagram into the lines a serial connection would have carried. An XML response that
  the scanner splits into numbered fragments is put together again. The main result says which
  documents it delivers: for every sequence of datagrams, exactly those whose fragments arrived
  consecutively from the first to the last. ElementTree's parser and serialiser are the arguments
  \<open>parse_xml\<close> and \<open>to_string\<close>.
\<close>

definition xml_marker :: pystr where
  "xml_marker = lit '',<XML>,''"

record xml_sequence =
  xs_root_tag :: pystr
  xs_attributes :: "(pystr \<times> pystr) list"
  xs_children :: "xml list"
  xs_next_number :: int

text \<open>A diagnostic: its kind, the command, and the expected and received fragment.\<close>

datatype diagnostic_kind = MissingFirst | SequenceGap | InvalidFooter

record xml_diagnostic =
  xd_kind :: diagnostic_kind
  xd_command :: pystr
  xd_expected :: "int option"
  xd_received :: "int option"

record udp_decoder =
  ud_sequences :: "pystr \<rightharpoonup> xml_sequence"
  ud_expected :: "pystr option"
  ud_stream :: "pystr option"

definition decoder_init :: udp_decoder where
  "decoder_init = \<lparr>ud_sequences = Map.empty, ud_expected = None, ud_stream = None\<rparr>"

definition decoder_reset :: "udp_decoder \<Rightarrow> udp_decoder" where
  "decoder_reset d = d\<lparr>ud_sequences := Map.empty, ud_expected := None, ud_stream := None\<rparr>"

definition expect_command :: "pystr \<Rightarrow> udp_decoder \<Rightarrow> udp_decoder" where
  "expect_command command d =
     (let normalized = py_strip (rstrip_codes {cr_code, lf_code} command);
          (name0, separator, argument) = partition_at comma normalized;
          name = py_upper name0;
          d' = d\<lparr>ud_expected := None\<rparr>
      in if name = lit ''GSI'' then d'\<lparr>ud_expected := Some (lit ''GSI'')\<rparr>
         else if name = lit ''PSI'' then
           (if py_strip argument = lit ''0'' then d'\<lparr>ud_stream := None\<rparr>
            else d'\<lparr>ud_expected := Some (lit ''PSI''), ud_stream := Some (lit ''PSI'')\<rparr>)
         else if name = lit ''GLT'' \<and> py_upper (py_strip argument) = lit ''FL'' then
           d'\<lparr>ud_expected := Some (lit ''GLT'')\<rparr>
         else if name = lit ''MSI'' \<and> \<not> separator then d'\<lparr>ud_expected := Some (lit ''MSI'')\<rparr>
         else d')"

section \<open>Recognising XML\<close>

definition xml_roots :: "pystr list" where
  "xml_roots = remdups (map snd xml_command_roots)"

definition starts_with_root :: "pystr \<Rightarrow> pystr \<Rightarrow> bool" where
  "starts_with_root text r =
     (let prefix = 60 # r in
      starts_with prefix text \<and> length prefix < length text \<and>
      text ! length prefix \<in> {9, cr_code, lf_code, 32, 47, 62})"

definition looks_like_xml :: "pystr \<Rightarrow> bool" where
  "looks_like_xml text \<longleftrightarrow>
     starts_with (lit ''<?xml'') text \<or> (\<exists>r \<in> set xml_roots. starts_with_root text r)"

definition py_lstrip :: "pystr \<Rightarrow> pystr" where
  "py_lstrip s = dropWhile py_isspace s"

definition first_root :: "pystr \<Rightarrow> pystr option" where
  "first_root candidate =
     (case filter (starts_with_root candidate) xml_roots of [] \<Rightarrow> None | r # _ \<Rightarrow> Some r)"

definition xml_root :: "xml_parser \<Rightarrow> pystr \<Rightarrow> pystr option" where
  "xml_root parse_xml payload =
     (case parse_xml payload of
        Some e \<Rightarrow> Some (xml_tag e)
      | None \<Rightarrow>
          (let candidate = py_lstrip payload in
           if starts_with (lit ''<?xml'') candidate then
             (case find_sub (lit ''?>'') candidate of
                None \<Rightarrow> None
              | Some i \<Rightarrow> first_root (py_lstrip (drop (i + 2) candidate)))
           else first_root candidate))"

definition bare_xml_command :: "udp_decoder \<Rightarrow> pystr option \<Rightarrow> pystr option" where
  "bare_xml_command d root_tag =
     (case filter (\<lambda>c. map_of xml_command_roots c = root_tag)
         (List.map_filter id [ud_expected d, ud_stream d]) of
        [] \<Rightarrow> None | c # _ \<Rightarrow> Some c)"

section \<open>Fragments\<close>

definition local_name :: "pystr \<Rightarrow> pystr" where
  "local_name tag = last (split_on 125 tag)"

definition is_footer :: "xml \<Rightarrow> bool" where
  "is_footer e \<longleftrightarrow> local_name (xml_tag e) \<in> {lit ''Foot'', lit ''Footer''}"

text \<open>\<open>_remove_footer\<close>: the first footer among the children, and the children without it.\<close>

fun remove_footer :: "xml list \<Rightarrow> (xml \<times> xml list) option" where
  "remove_footer [] = None"
| "remove_footer (e # es) =
     (if is_footer e then Some (e, es) else map_option (\<lambda>(f, rest). (f, e # rest)) (remove_footer es))"

definition parse_sequence_number :: "xml \<Rightarrow> int option" where
  "parse_sequence_number footer = Option.bind (map_of (xml_attributes footer) (lit ''No'')) py_int"

definition split_lines :: "pystr \<Rightarrow> pystr list" where
  "split_lines text =
     filter (\<lambda>l. l \<noteq> []) (concat (map (split_on cr_code) (split_on lf_code text)))"

record decode_result =
  dr_lines :: "pystr list"
  dr_completed :: bool
  dr_diagnostics :: "xml_diagnostic list"

definition no_lines :: decode_result where
  "no_lines = \<lparr>dr_lines = [], dr_completed = False, dr_diagnostics = []\<rparr>"

definition merge_sequence :: "xml_sequence \<Rightarrow> xml" where
  "merge_sequence s = Element (xs_root_tag s) (xs_attributes s) None (xs_children s) None"

text \<open>
  \<open>_feed_xml\<close> from the footer on: the number of the fragment, whether it ends the transmission, the
  root's tag and attributes, and its children without the footer.
\<close>

definition feed_fragment ::
  "(xml \<Rightarrow> pystr) \<Rightarrow> pystr \<Rightarrow> xml \<Rightarrow> xml \<Rightarrow> xml list \<Rightarrow> udp_decoder \<Rightarrow> decode_result \<times> udp_decoder" where
  "feed_fragment to_string command e footer children d =
     (case parse_sequence_number footer of
        None \<Rightarrow> (no_lines\<lparr>dr_diagnostics := [\<lparr>xd_kind = InvalidFooter, xd_command = command,
            xd_expected = None, xd_received = None\<rparr>]\<rparr>,
          d\<lparr>ud_sequences := (ud_sequences d)(command := None)\<rparr>)
      | Some number \<Rightarrow>
          if number \<le> 0 then
            (no_lines\<lparr>dr_diagnostics := [\<lparr>xd_kind = InvalidFooter, xd_command = command,
               xd_expected = None, xd_received = Some number\<rparr>]\<rparr>,
             d\<lparr>ud_sequences := (ud_sequences d)(command := None)\<rparr>)
          else
            let end_of_transmission = (map_of (xml_attributes footer) (lit ''EOT'') = Some (lit ''1''));
                sequence =
                  (if number = 1 then
                     Some \<lparr>xs_root_tag = xml_tag e, xs_attributes = xml_attributes e,
                           xs_children = [], xs_next_number = 1\<rparr>
                   else ud_sequences d command)
            in case sequence of
                 None \<Rightarrow>
                   (no_lines\<lparr>dr_diagnostics := [\<lparr>xd_kind = MissingFirst, xd_command = command,
                      xd_expected = Some 1, xd_received = Some number\<rparr>]\<rparr>, d)
               | Some s \<Rightarrow>
                   if xs_root_tag s \<noteq> xml_tag e \<or> number \<noteq> xs_next_number s then
                     (no_lines\<lparr>dr_diagnostics := [\<lparr>xd_kind = SequenceGap, xd_command = command,
                        xd_expected = Some (xs_next_number s), xd_received = Some number\<rparr>]\<rparr>,
                      d\<lparr>ud_sequences := (ud_sequences d)(command := None)\<rparr>)
                   else
                     let s' = s\<lparr>xs_children := xs_children s @ children, xs_next_number := number + 1\<rparr> in
                     if \<not> end_of_transmission then
                       (no_lines, d\<lparr>ud_sequences := (ud_sequences d)(command := Some s')\<rparr>)
                     else
                       (no_lines\<lparr>dr_lines := [command @ xml_marker, to_string (merge_sequence s')],
                                 dr_completed := True\<rparr>,
                        d\<lparr>ud_sequences := (ud_sequences d)(command := None)\<rparr>))"

definition feed_xml ::
  "xml_parser \<Rightarrow> (xml \<Rightarrow> pystr) \<Rightarrow> pystr \<Rightarrow> pystr \<Rightarrow> udp_decoder \<Rightarrow> decode_result \<times> udp_decoder" where
  "feed_xml parse_xml to_string command payload d =
     (case map_of xml_command_roots command of
        None \<Rightarrow> (no_lines, d)
      | Some expected_root \<Rightarrow>
          (case parse_xml payload of
             None \<Rightarrow> (no_lines\<lparr>dr_lines := (command @ xml_marker) # split_lines payload\<rparr>, d)
           | Some e \<Rightarrow>
               if xml_tag e \<noteq> expected_root then (no_lines, d)
               else case remove_footer (xml_children e) of
                 None \<Rightarrow>
                   (no_lines\<lparr>dr_lines := (command @ xml_marker) # split_lines payload,
                             dr_completed := True\<rparr>, d)
               | Some (footer, children) \<Rightarrow> feed_fragment to_string command e footer children d))"

section \<open>Datagrams\<close>

text \<open>\<open>_complete_expected\<close>; the completion handler is called where the result says completed.\<close>

definition complete_expected :: "pystr \<Rightarrow> bool \<Rightarrow> udp_decoder \<Rightarrow> udp_decoder" where
  "complete_expected command completed d =
     (if completed \<and> ud_expected d = Some command then d\<lparr>ud_expected := None\<rparr> else d)"

text \<open>What a datagram is taken for.\<close>

datatype datagram_kind =
    Nothing
  | HeaderOnly pystr
  | XmlPayload pystr pystr
  | PlainText pystr

definition classify_bare :: "xml_parser \<Rightarrow> udp_decoder \<Rightarrow> pystr \<Rightarrow> datagram_kind" where
  "classify_bare parse_xml d text =
     (let stripped = lstrip_codes {0, cr_code, lf_code, 32} text in
      if looks_like_xml stripped then
        (case bare_xml_command d (xml_root parse_xml stripped) of
           Some xml_command \<Rightarrow> XmlPayload xml_command stripped
         | None \<Rightarrow> PlainText text)
      else PlainText text)"

definition classify_datagram :: "xml_parser \<Rightarrow> udp_decoder \<Rightarrow> byte list \<Rightarrow> datagram_kind" where
  "classify_datagram parse_xml d data =
     (let text = strip_codes {0} (utf8_decode_replace data) in
      if text = [] then Nothing
      else case find_sub xml_marker (py_upper text) of
        Some i \<Rightarrow>
          (let command = py_upper (py_strip (take i text));
               payload = lstrip_codes {0, cr_code, lf_code, 32} (drop (i + length xml_marker) text)
           in if i = 0 \<or> command = [] then classify_bare parse_xml d text
              else if payload \<noteq> [] then XmlPayload command payload
              else HeaderOnly command)
      | None \<Rightarrow> classify_bare parse_xml d text)"

definition decoder_feed ::
  "xml_parser \<Rightarrow> (xml \<Rightarrow> pystr) \<Rightarrow> byte list \<Rightarrow> udp_decoder \<Rightarrow> decode_result \<times> udp_decoder" where
  "decoder_feed parse_xml to_string data d =
     (case classify_datagram parse_xml d data of
        Nothing \<Rightarrow> (no_lines, d)
      | HeaderOnly command \<Rightarrow> (no_lines\<lparr>dr_lines := [command @ xml_marker]\<rparr>, d)
      | XmlPayload command payload \<Rightarrow>
          (let (result, d') = feed_xml parse_xml to_string command payload d
           in (result, complete_expected command (dr_completed result) d'))
      | PlainText text \<Rightarrow> (no_lines\<lparr>dr_lines := split_lines text\<rparr>, d))"

section \<open>Which documents are delivered\<close>

text \<open>
  A fragment as it arrives: its number (0 where the footer has no valid one), whether it ends the
  transmission, the root's attributes and the children without the footer.
\<close>

record fragment =
  fg_number :: int
  fg_last :: bool
  fg_attributes :: "(pystr \<times> pystr) list"
  fg_children :: "xml list"

definition fragment_of :: "xml_parser \<Rightarrow> pystr \<Rightarrow> pystr \<Rightarrow> fragment option" where
  "fragment_of parse_xml command payload =
     (case (map_of xml_command_roots command, parse_xml payload) of
        (Some r, Some e) \<Rightarrow>
          (if xml_tag e \<noteq> r then None
           else case remove_footer (xml_children e) of
             None \<Rightarrow> None
           | Some (footer, children) \<Rightarrow>
               Some \<lparr>fg_number = (case parse_sequence_number footer of None \<Rightarrow> 0 | Some n \<Rightarrow> max 0 n),
                     fg_last = (map_of (xml_attributes footer) (lit ''EOT'') = Some (lit ''1'')),
                     fg_attributes = xml_attributes e, fg_children = children\<rparr>)
      | _ \<Rightarrow> None)"

text \<open>
  A decoder's operations, and the fragments of one command that it has been fed since it was
  created or reset.
\<close>

datatype udp_op = Datagram "byte list" | Expect pystr | ResetDecoder

definition op_fragments :: "xml_parser \<Rightarrow> pystr \<Rightarrow> udp_op \<Rightarrow> udp_decoder \<Rightarrow> fragment list" where
  "op_fragments parse_xml c op d =
     (case op of
        Datagram data \<Rightarrow>
          (case classify_datagram parse_xml d data of
             XmlPayload command payload \<Rightarrow>
               (if command = c then
                  (case fragment_of parse_xml c payload of None \<Rightarrow> [] | Some f \<Rightarrow> [f])
                else [])
           | _ \<Rightarrow> [])
      | _ \<Rightarrow> [])"

fun udp_step ::
  "xml_parser \<Rightarrow> (xml \<Rightarrow> pystr) \<Rightarrow> pystr \<Rightarrow> udp_decoder \<times> fragment list \<Rightarrow> udp_op \<Rightarrow>
   udp_decoder \<times> fragment list" where
  "udp_step parse_xml to_string c (d, received) (Datagram data) =
     (snd (decoder_feed parse_xml to_string data d),
      received @ op_fragments parse_xml c (Datagram data) d)"
| "udp_step parse_xml to_string c (d, received) (Expect command) = (expect_command command d, received)"
| "udp_step parse_xml to_string c (d, received) ResetDecoder = (decoder_reset d, [])"

definition udp_run ::
  "xml_parser \<Rightarrow> (xml \<Rightarrow> pystr) \<Rightarrow> pystr \<Rightarrow> udp_op list \<Rightarrow> udp_decoder \<times> fragment list" where
  "udp_run parse_xml to_string c ops = foldl (udp_step parse_xml to_string c) (decoder_init, []) ops"

text \<open>
  Fragments numbered from 1 without a gap, none of them or only the last one ending the
  transmission, and the document they make.
\<close>

definition numbered :: "fragment list \<Rightarrow> bool" where
  "numbered run \<longleftrightarrow> run \<noteq> [] \<and> map fg_number run = map int [1..<length run + 1]"

definition open_run :: "fragment list \<Rightarrow> bool" where
  "open_run run \<longleftrightarrow> numbered run \<and> (\<forall>f \<in> set run. \<not> fg_last f)"

definition complete_run :: "fragment list \<Rightarrow> bool" where
  "complete_run run \<longleftrightarrow> numbered run \<and> fg_last (last run) \<and> (\<forall>f \<in> set (butlast run). \<not> fg_last f)"

definition merged_document :: "pystr \<Rightarrow> fragment list \<Rightarrow> xml" where
  "merged_document r run =
     Element r (fg_attributes (hd run)) None (concat (map fg_children run)) None"

definition run_sequence :: "pystr \<Rightarrow> fragment list \<Rightarrow> xml_sequence" where
  "run_sequence r run =
     \<lparr>xs_root_tag = r, xs_attributes = fg_attributes (hd run),
      xs_children = concat (map fg_children run), xs_next_number = int (length run) + 1\<rparr>"

lemma numbered_snoc:
  "numbered (run @ [f]) \<longleftrightarrow>
     fg_number f = int (length run) + 1 \<and> (run = [] \<or> numbered run)"
  by (auto simp: numbered_def)

lemma numbered_last: "numbered run \<Longrightarrow> fg_number (last run) = int (length run)"
  by (cases run rule: rev_cases) (auto simp: numbered_snoc, simp add: numbered_def)

text \<open>Consecutive fragments at the end of what was received are determined by their last number.\<close>

lemma numbered_suffix_unique:
  assumes "numbered xs" and "numbered ys" and "suffix xs zs" and "suffix ys zs"
  shows "xs = ys"
proof -
  have last: "last us = last zs" if "suffix us zs" "numbered us" for us
    using that unfolding suffix_def numbered_def by (metis last_appendR)
  have "last xs = last zs" "last ys = last zs" by (rule last; use assms in blast)+
  then have "int (length xs) = int (length ys)"
    using numbered_last [OF assms(1)] numbered_last [OF assms(2)] by simp
  then have "length xs = length ys" by simp
  with assms(3,4) show ?thesis by (auto simp: suffix_def)
qed

lemma suffix_snoc_cases:
  assumes "suffix run (zs @ [f])" and "run \<noteq> []"
  obtains run' where "run = run' @ [f]" and "suffix run' zs"
  using assms by (cases run rule: rev_cases) auto

section \<open>The invariant of a command's sequence\<close>

definition sequence_ok :: "pystr \<Rightarrow> pystr \<Rightarrow> udp_decoder \<Rightarrow> fragment list \<Rightarrow> bool" where
  "sequence_ok c r d received \<longleftrightarrow>
     (case ud_sequences d c of
        None \<Rightarrow> \<forall>run. suffix run received \<longrightarrow> \<not> open_run run
      | Some s \<Rightarrow> \<exists>run. suffix run received \<and> open_run run \<and> s = run_sequence r run)"

lemma feed_xml_fragment:
  assumes "map_of xml_command_roots c = Some r" and "fragment_of parse_xml c payload = Some f"
  obtains e footer children where "parse_xml payload = Some e" and "xml_tag e = r"
    and "remove_footer (xml_children e) = Some (footer, children)"
    and "feed_xml parse_xml to_string c payload d = feed_fragment to_string c e footer children d"
    and "fg_number f = (case parse_sequence_number footer of None \<Rightarrow> 0 | Some n \<Rightarrow> max 0 n)"
    and "fg_last f \<longleftrightarrow> map_of (xml_attributes footer) (lit ''EOT'') = Some (lit ''1'')"
    and "fg_attributes f = xml_attributes e" and "fg_children f = children"
  using assms by (auto simp: fragment_of_def feed_xml_def split: option.splits if_splits)

lemma feed_xml_no_fragment:
  assumes "fragment_of parse_xml c payload = None"
  shows "ud_sequences (snd (feed_xml parse_xml to_string c payload d)) = ud_sequences d"
  using assms by (auto simp: fragment_of_def feed_xml_def split: option.splits if_splits)

lemma feed_xml_other_sequences:
  "c' \<noteq> c \<Longrightarrow>
   ud_sequences (snd (feed_xml parse_xml to_string c payload d)) c' = ud_sequences d c'"
  by (auto simp: feed_xml_def feed_fragment_def Let_def split: option.splits)

lemma complete_expected_sequences [simp]:
  "ud_sequences (complete_expected c b d) = ud_sequences d"
  by (simp add: complete_expected_def)

text \<open>
  One fragment: it extends the open run, starts a new one, or breaks it; a document is delivered
  exactly when it completes a run.
\<close>

definition fragment_lines :: "(xml \<Rightarrow> pystr) \<Rightarrow> pystr \<Rightarrow> pystr \<Rightarrow> fragment list \<Rightarrow> pystr list \<Rightarrow> bool" where
  "fragment_lines to_string c r received out \<longleftrightarrow>
     (\<forall>run. suffix run received \<and> complete_run run \<longrightarrow>
       out = [c @ xml_marker, to_string (merged_document r run)]) \<and>
     ((\<nexists>run. suffix run received \<and> complete_run run) \<longrightarrow> out = [])"

lemma open_run_snoc:
  "open_run (run @ [f]) \<longleftrightarrow>
     fg_number f = int (length run) + 1 \<and> \<not> fg_last f \<and> (run = [] \<or> open_run run)"
  by (auto simp: open_run_def numbered_snoc)

lemma complete_run_snoc:
  "complete_run (run @ [f]) \<longleftrightarrow>
     fg_number f = int (length run) + 1 \<and> fg_last f \<and> (run = [] \<or> open_run run)"
  by (auto simp: complete_run_def open_run_def numbered_snoc)

lemma run_not_Nil: "open_run run \<Longrightarrow> run \<noteq> []" "complete_run run \<Longrightarrow> run \<noteq> []"
  by (auto simp: open_run_def complete_run_def numbered_def)

text \<open>The new fragment's runs: the part before it is empty or the open run.\<close>

lemma new_run:
  assumes "sequence_ok c r d received" and "suffix run (received @ [f])"
    and "open_run run \<or> complete_run run"
  obtains "run = [f]" "fg_number f = 1"
  | old s where "run = old @ [f]" "old \<noteq> []" "suffix old received" "open_run old"
      "ud_sequences d c = Some s" "s = run_sequence r old" "fg_number f = xs_next_number s"
proof -
  obtain old where old: "run = old @ [f]" "suffix old received"
    using assms(2,3) run_not_Nil by (metis suffix_snoc_cases)
  then have "open_run (old @ [f]) \<or> complete_run (old @ [f])" using assms(3) by simp
  then have f: "fg_number f = int (length old) + 1" and "old = [] \<or> open_run old"
    by (auto simp: open_run_snoc complete_run_snoc)
  show thesis
  proof (cases "old = []")
    case True
    then show thesis using that(1) old f by simp
  next
    case False
    with \<open>old = [] \<or> open_run old\<close> have "open_run old" by simp
    with assms(1) old(2) obtain s run' where s: "ud_sequences d c = Some s" "suffix run' received"
      "open_run run'" "s = run_sequence r run'"
      by (auto simp: sequence_ok_def split: option.splits)
    then have "run' = old"
      using \<open>open_run old\<close> old(2) by (auto simp: open_run_def intro: numbered_suffix_unique)
    with s f False old \<open>open_run old\<close> show thesis
      by (intro that(2) [of old s]) (auto simp: run_sequence_def)
  qed
qed

lemma run_sequence_snoc:
  assumes "old \<noteq> []"
  shows "(run_sequence r old)\<lparr>xs_children := xs_children (run_sequence r old) @ fg_children f,
      xs_next_number := xs_next_number (run_sequence r old) + 1\<rparr> = run_sequence r (old @ [f])"
  using assms by (simp add: run_sequence_def)

lemma merge_run_sequence: "merge_sequence (run_sequence r run) = merged_document r run"
  by (simp add: merge_sequence_def run_sequence_def merged_document_def)

text \<open>What becomes of the open run: nothing, or a run that the fragment ends.\<close>

lemma fragment_breaks:
  assumes "sequence_ok c r d received" and "fg_number f \<noteq> 1"
    and "\<And>s. ud_sequences d c = Some s \<Longrightarrow> fg_number f \<noteq> xs_next_number s"
    and "ud_sequences d' c = None"
  shows "sequence_ok c r d' (received @ [f]) \<and> fragment_lines to_string c r (received @ [f]) []"
proof -
  have no: False if "suffix run (received @ [f])" "open_run run \<or> complete_run run" for run
    using assms(2,3) by (cases rule: new_run [OF assms(1) that]) simp_all
  then show ?thesis unfolding sequence_ok_def fragment_lines_def assms(4) option.case by blast
qed

lemma fragment_extends:
  assumes "suffix run received'" and "open_run run" and "ud_sequences d' c = Some (run_sequence r run)"
  shows "sequence_ok c r d' received' \<and> fragment_lines to_string c r received' []"
proof -
  have "\<not> complete_run run'" if "suffix run' received'" for run'
  proof
    assume "complete_run run'"
    then have "run' = run" "fg_last (last run')"
      using assms(1,2) that by (auto simp: complete_run_def open_run_def intro: numbered_suffix_unique)
    with assms(2) show False by (auto simp: open_run_def numbered_def)
  qed
  then show ?thesis using assms by (auto simp: sequence_ok_def fragment_lines_def)
qed

lemma fragment_completes:
  assumes "suffix run received'" and "complete_run run" and "ud_sequences d' c = None"
  shows "sequence_ok c r d' received' \<and>
    fragment_lines to_string c r received' [c @ xml_marker, to_string (merged_document r run)]"
proof -
  have "\<not> open_run run'" if "suffix run' received'" for run'
  proof
    assume "open_run run'"
    then have "run' = run"
      using assms(1,2) that by (auto simp: complete_run_def open_run_def intro: numbered_suffix_unique)
    with assms(2) \<open>open_run run'\<close> show False by (auto simp: open_run_def complete_run_def numbered_def)
  qed
  then have "sequence_ok c r d' received'" by (simp add: sequence_ok_def assms(3))
  moreover have "run' = run" if "suffix run' received'" "complete_run run'" for run'
    using assms(1,2) that by (auto simp: complete_run_def intro: numbered_suffix_unique)
  then have "fragment_lines to_string c r received' [c @ xml_marker, to_string (merged_document r run)]"
    unfolding fragment_lines_def using assms(1,2) by metis
  ultimately show ?thesis by (rule conjI)
qed

lemma feed_fragment_ok:
  assumes ok: "sequence_ok c r d received" and tag: "xml_tag e = r"
    and number: "fg_number f = (case parse_sequence_number footer of None \<Rightarrow> 0 | Some n \<Rightarrow> max 0 n)"
    and eot: "fg_last f \<longleftrightarrow> map_of (xml_attributes footer) (lit ''EOT'') = Some (lit ''1'')"
    and parts: "fg_attributes f = xml_attributes e" "fg_children f = children"
    and step: "feed_fragment to_string c e footer children d = (result, d')"
  shows "sequence_ok c r d' (received @ [f]) \<and>
    fragment_lines to_string c r (received @ [f]) (dr_lines result)"
proof -
  have breaks: ?thesis if "fg_number f \<noteq> 1" "dr_lines result = []" "ud_sequences d' c = None"
    and "\<And>s. ud_sequences d c = Some s \<Longrightarrow> fg_number f \<noteq> xs_next_number s"
    using fragment_breaks [OF ok that(1,4,3)] that(2) by simp
  have extends: ?thesis
    if "fg_number f = int (length run) + 1" "run = [] \<or> open_run run" "suffix (run @ [f]) (received @ [f])"
      and "if fg_last f then dr_lines result = [c @ xml_marker, to_string (merged_document r (run @ [f]))] \<and>
          ud_sequences d' c = None
        else dr_lines result = [] \<and> ud_sequences d' c = Some (run_sequence r (run @ [f]))" for run
  proof (cases "fg_last f")
    case True
    then have "complete_run (run @ [f])" using that(1,2) by (simp add: complete_run_snoc)
    from fragment_completes [OF that(3) this, of d'] show ?thesis using True that(4) by simp
  next
    case False
    then have "open_run (run @ [f])" using that(1,2) by (simp add: open_run_snoc)
    from fragment_extends [OF that(3) this, of d'] show ?thesis using False that(4) by simp
  qed
  show ?thesis
  proof (cases "fg_number f \<le> 0")
    case True
    then have "dr_lines result = []" "ud_sequences d' c = None"
      using step number by (auto simp: feed_fragment_def no_lines_def split: option.splits if_splits)
    moreover have "fg_number f \<noteq> xs_next_number s" if "ud_sequences d c = Some s" for s
      using ok that True by (auto simp: sequence_ok_def run_sequence_def)
    ultimately show ?thesis using True by (intro breaks) simp_all
  next
    case False
    then have n: "parse_sequence_number footer = Some (fg_number f)" "0 < fg_number f"
      using number by (auto split: option.splits)
    show ?thesis
    proof (cases "fg_number f = 1")
      case True
      have "\<lparr>xs_root_tag = r, xs_attributes = fg_attributes f, xs_children = fg_children f,
          xs_next_number = 2\<rparr> = run_sequence r [f]"
        by (simp add: run_sequence_def)
      then show ?thesis
        using step n True eot parts tag
        by (intro extends [of "[]"])
          (auto simp: feed_fragment_def Let_def no_lines_def suffix_def simp flip: merge_run_sequence)
    next
      case 2: False
      show ?thesis
      proof (cases "ud_sequences d c")
        case None
        then show ?thesis using step n 2
          by (intro breaks) (auto simp: feed_fragment_def Let_def no_lines_def)
      next
        case (Some s)
        then obtain run where run: "suffix run received" "open_run run" "s = run_sequence r run"
          using ok by (auto simp: sequence_ok_def)
        then have "run \<noteq> []" by (simp add: run_not_Nil)
        show ?thesis
        proof (cases "fg_number f = xs_next_number s")
          case True
          have next_number: "xs_next_number s = fg_number f" "xs_root_tag s = xml_tag e"
            "fg_number f = int (length run) + 1"
            using True run(3) tag by (simp_all add: run_sequence_def)
          have upd: "s\<lparr>xs_children := xs_children s @ children, xs_next_number := fg_number f + 1\<rparr> =
              run_sequence r (run @ [f])"
            using run_sequence_snoc [OF \<open>run \<noteq> []\<close>, of r f] run(3) True parts(2) by simp
          have "\<not> fg_number f \<le> 0" using n(2) by simp
          then have "(result, d') =
            (if \<not> fg_last f then
               (no_lines, d\<lparr>ud_sequences := (ud_sequences d)(c \<mapsto> run_sequence r (run @ [f]))\<rparr>)
             else (no_lines\<lparr>dr_lines := [c @ xml_marker, to_string (merged_document r (run @ [f]))],
                 dr_completed := True\<rparr>, d\<lparr>ud_sequences := (ud_sequences d)(c := None)\<rparr>))"
            unfolding step [symmetric] feed_fragment_def n(1) eot
            by (simp add: Let_def 2 Some next_number(1,2) upd merge_run_sequence)
          then show ?thesis
            using next_number(3) run(1,2)
            by (intro extends [of run]) (auto simp: no_lines_def split: if_splits)
        next
          case False
          then show ?thesis using step n 2 Some
            by (intro breaks) (auto simp: feed_fragment_def Let_def no_lines_def)
        qed
      qed
    qed
  qed
qed

lemma sequence_ok_cong:
  "ud_sequences d' c = ud_sequences d c \<Longrightarrow> sequence_ok c r d received \<Longrightarrow> sequence_ok c r d' received"
  by (simp add: sequence_ok_def)

lemma expect_command_sequences [simp]: "ud_sequences (expect_command command d) = ud_sequences d"
  by (simp add: expect_command_def Let_def split: prod.split)

lemma datagram_fragment_ok:
  assumes root: "map_of xml_command_roots c = Some r" and ok: "sequence_ok c r d received"
    and kind: "classify_datagram parse_xml d data = XmlPayload c payload"
    and f: "fragment_of parse_xml c payload = Some f"
  shows "sequence_ok c r (snd (decoder_feed parse_xml to_string data d)) (received @ [f]) \<and>
    fragment_lines to_string c r (received @ [f])
      (dr_lines (fst (decoder_feed parse_xml to_string data d)))"
proof -
  obtain e footer children where e: "xml_tag e = r"
    "feed_xml parse_xml to_string c payload d = feed_fragment to_string c e footer children d"
    "fg_number f = (case parse_sequence_number footer of None \<Rightarrow> 0 | Some n \<Rightarrow> max 0 n)"
    "fg_last f \<longleftrightarrow> map_of (xml_attributes footer) (lit ''EOT'') = Some (lit ''1'')"
    "fg_attributes f = xml_attributes e" "fg_children f = children"
    by (rule feed_xml_fragment [OF root f])
  obtain result d' where fed: "feed_fragment to_string c e footer children d = (result, d')" by fastforce
  have "decoder_feed parse_xml to_string data d = (result, complete_expected c (dr_completed result) d')"
    using kind e(2) fed by (simp add: decoder_feed_def)
  with feed_fragment_ok [OF ok e(1,3,4,5,6) fed] show ?thesis
    by (auto intro: sequence_ok_cong [of _ c d'])
qed

lemma udp_step_ok:
  assumes root: "map_of xml_command_roots c = Some r" and ok: "sequence_ok c r d received"
    and step: "udp_step parse_xml to_string c (d, received) op = (d', received')"
  shows "sequence_ok c r d' received'"
proof (cases op)
  case (Datagram data)
  then have d': "d' = snd (decoder_feed parse_xml to_string data d)"
    and r': "received' = received @ op_fragments parse_xml c (Datagram data) d"
    using step by simp_all
  show ?thesis
  proof (cases "classify_datagram parse_xml d data")
    case (XmlPayload command payload)
    have seqs: "ud_sequences d' = ud_sequences (snd (feed_xml parse_xml to_string command payload d))"
      using XmlPayload d' by (simp add: decoder_feed_def split_beta)
    show ?thesis
    proof (cases "command = c \<and> fragment_of parse_xml c payload \<noteq> None")
      case True
      then obtain f where "command = c" "fragment_of parse_xml c payload = Some f" by auto
      with datagram_fragment_ok [OF root ok _ this(2), of data to_string] XmlPayload show ?thesis
        by (simp add: d' r' op_fragments_def)
    next
      case False
      then have "received' = received" using XmlPayload r' by (auto simp: op_fragments_def)
      moreover have "ud_sequences d' c = ud_sequences d c"
        using False seqs feed_xml_no_fragment feed_xml_other_sequences by (cases "command = c") auto
      ultimately show ?thesis using ok by (auto intro: sequence_ok_cong)
    qed
  qed (use ok d' r' in \<open>auto simp: op_fragments_def decoder_feed_def\<close>)
next
  case (Expect command)
  then show ?thesis using ok step by (auto intro: sequence_ok_cong [of _ c d])
next
  case ResetDecoder
  then show ?thesis using step by (auto simp: sequence_ok_def decoder_reset_def dest: run_not_Nil)
qed

lemma udp_run_ok:
  assumes root: "map_of xml_command_roots c = Some r"
    and run: "udp_run parse_xml to_string c ops = (d, received)"
  shows "sequence_ok c r d received"
proof -
  have "sequence_ok c r d0 received0 \<Longrightarrow>
      foldl (udp_step parse_xml to_string c) (d0, received0) ops = (d, received) \<Longrightarrow>
      sequence_ok c r d received" for d0 received0
  proof (induction ops arbitrary: d0 received0)
    case (Cons op ops)
    obtain d1 received1 where 1: "udp_step parse_xml to_string c (d0, received0) op = (d1, received1)"
      by fastforce
    then show ?case
      using Cons.IH [OF udp_step_ok [OF root Cons.prems(1) 1]] Cons.prems(2) by simp
  qed simp
  moreover have "sequence_ok c r decoder_init []"
    by (auto simp: sequence_ok_def decoder_init_def dest: run_not_Nil)
  ultimately show ?thesis using run by (simp add: udp_run_def)
qed

text \<open>
  C7: the decoder delivers a fragmented document if and only if its fragments arrived without loss.
  After any sequence of datagrams, commands and resets, let a datagram bring a fragment of the
  response to a command. If some last fragments received for the command (other commands' datagrams
  may lie in between) are numbered 1, 2 and so on, with the end of the transmission on the last of
  them only, then the header line and the serialised document are delivered, whose root has the
  first fragment's attributes and whose children are those of all fragments in order; otherwise
  nothing is delivered.
\<close>

theorem udp_document_exact:
  assumes "map_of xml_command_roots c = Some r"
    and "udp_run parse_xml to_string c ops = (d, received)"
    and "classify_datagram parse_xml d data = XmlPayload c payload"
    and "fragment_of parse_xml c payload = Some f"
  shows "(\<forall>run. suffix run (received @ [f]) \<and> complete_run run \<longrightarrow>
      dr_lines (fst (decoder_feed parse_xml to_string data d)) =
        [c @ xml_marker, to_string (merged_document r run)]) \<and>
    ((\<nexists>run. suffix run (received @ [f]) \<and> complete_run run) \<longrightarrow>
      dr_lines (fst (decoder_feed parse_xml to_string data d)) = [])"
  using datagram_fragment_ok [OF assms(1) udp_run_ok [OF assms(1,2)] assms(3,4), of to_string]
  unfolding fragment_lines_def by (rule conjunct2)

text \<open>A document in two fragments.\<close>

lemma decode_ascii_bytes:
  "list_all (\<lambda>ch. of_char ch < (128 :: nat)) s \<Longrightarrow> utf8_decode_replace (map of_char s) = lit s"
proof -
  assume s: "list_all (\<lambda>ch. of_char ch < (128 :: nat)) s"
  have "concat (map utf8_units (lit s)) = lit s"
    using s by (induction s) (auto simp: lit_def utf8_units_def)
  moreover have "\<forall>u \<in> set (lit s). utf8_valid u" using s by (auto simp: lit_def list_all_iff utf8_valid_def)
  ultimately have "decode_replace (lit s) = lit s" using decode_replace_units [of "lit s"] by simp
  moreover have "unat (of_char ch :: byte) = of_char ch" for ch
  proof -
    have "unat (of_nat (of_char ch :: nat) :: byte) = of_char ch"
      using of_char_mod_256 [of ch, where 'a = nat] by (simp add: unat_of_nat take_bit_eq_mod del: of_nat_of_char)
    then show ?thesis by (simp only: of_nat_of_char)
  qed
  then have "map unat (map of_char s :: byte list) = lit s" by (simp add: lit_def)
  ultimately show ?thesis by (simp add: utf8_decode_replace_def)
qed

definition sample_fragment :: "string \<Rightarrow> string \<Rightarrow> xml" where
  "sample_fragment number eot =
     Element (lit ''ScannerInfo'') [] None
       [Element (lit ''System'') [(lit ''Index'', lit number)] None [] None,
        Element (lit ''Footer'') [(lit ''No'', lit number), (lit ''EOT'', lit eot)] None [] None] None"

definition sample_parse :: xml_parser where
  "sample_parse payload =
     (if payload = lit ''<1>'' then Some (sample_fragment ''1'' ''0'')
      else if payload = lit ''<2>'' then Some (sample_fragment ''2'' ''1'') else None)"

definition sample_string :: "xml \<Rightarrow> pystr" where
  "sample_string e = lit (if length (xml_children e) = 2 then ''two'' else ''other'')"

lemma sample_classify:
  "classify_datagram sample_parse d (map of_char ''GSI,<XML>,<1>'') = XmlPayload (lit ''GSI'') (lit ''<1>'')"
  "classify_datagram sample_parse d (map of_char ''GSI,<XML>,<2>'') = XmlPayload (lit ''GSI'') (lit ''<2>'')"
proof -
  have decoded: "utf8_decode_replace (map of_char ''GSI,<XML>,<1>'') = lit ''GSI,<XML>,<1>''"
    "utf8_decode_replace (map of_char ''GSI,<XML>,<2>'') = lit ''GSI,<XML>,<2>''"
    by (rule decode_ascii_bytes; simp)+
  show "classify_datagram sample_parse d (map of_char ''GSI,<XML>,<1>'') = XmlPayload (lit ''GSI'') (lit ''<1>'')"
    "classify_datagram sample_parse d (map of_char ''GSI,<XML>,<2>'') = XmlPayload (lit ''GSI'') (lit ''<2>'')"
    unfolding classify_datagram_def decoded
    by (simp_all add: lit_def strip_codes_def lstrip_codes_def xml_marker_def py_upper_def
        upper_code_def py_strip_def py_isspace_def Let_def)
qed

lemma sample_fragment_of:
  "fragment_of sample_parse (lit ''GSI'') (lit ''<1>'') =
     Some \<lparr>fg_number = 1, fg_last = False, fg_attributes = [],
       fg_children = [Element (lit ''System'') [(lit ''Index'', lit ''1'')] None [] None]\<rparr>"
  "fragment_of sample_parse (lit ''GSI'') (lit ''<2>'') =
     Some \<lparr>fg_number = 2, fg_last = True, fg_attributes = [],
       fg_children = [Element (lit ''System'') [(lit ''Index'', lit ''2'')] None [] None]\<rparr>"
proof -
  have names: "local_name (lit ''System'') = lit ''System''" "local_name (lit ''Footer'') = lit ''Footer''"
    by (simp_all add: local_name_def lit_def)
  have ints: "py_int (lit ''1'') = Some 1" "py_int (lit ''2'') = Some 2"
    by (simp_all add: py_int_def lit_def py_strip_def py_isspace_def parse_digits_def digit_code_def
        digits_value_def)
  show "fragment_of sample_parse (lit ''GSI'') (lit ''<1>'') =
     Some \<lparr>fg_number = 1, fg_last = False, fg_attributes = [],
       fg_children = [Element (lit ''System'') [(lit ''Index'', lit ''1'')] None [] None]\<rparr>"
    "fragment_of sample_parse (lit ''GSI'') (lit ''<2>'') =
     Some \<lparr>fg_number = 2, fg_last = True, fg_attributes = [],
       fg_children = [Element (lit ''System'') [(lit ''Index'', lit ''2'')] None [] None]\<rparr>"
    by (simp_all add: fragment_of_def xml_command_roots_def sample_parse_def sample_fragment_def
        is_footer_def names parse_sequence_number_def ints)
qed

lemma udp_document_exact_witness:
  "dr_lines (fst (decoder_feed sample_parse sample_string (map of_char ''GSI,<XML>,<2>'')
      (fst (udp_run sample_parse sample_string (lit ''GSI'') [Datagram (map of_char ''GSI,<XML>,<1>'')])))) =
   [lit ''GSI'' @ xml_marker, lit ''two'']"
proof -
  let ?f1 = "\<lparr>fg_number = 1, fg_last = False, fg_attributes = [],
    fg_children = [Element (lit ''System'') [(lit ''Index'', lit ''1'')] None [] None]\<rparr>"
  let ?f2 = "\<lparr>fg_number = 2, fg_last = True, fg_attributes = [],
    fg_children = [Element (lit ''System'') [(lit ''Index'', lit ''2'')] None [] None]\<rparr>"
  have root: "map_of xml_command_roots (lit ''GSI'') = Some (lit ''ScannerInfo'')"
    by (simp add: xml_command_roots_def)
  have "snd (udp_run sample_parse sample_string (lit ''GSI'') [Datagram (map of_char ''GSI,<XML>,<1>'')]) = [?f1]"
    unfolding udp_run_def foldl.simps udp_step.simps snd_conv op_fragments_def udp_op.case
      sample_classify datagram_kind.case sample_fragment_of by simp
  then obtain d where d: "udp_run sample_parse sample_string (lit ''GSI'')
      [Datagram (map of_char ''GSI,<XML>,<1>'')] = (d, [?f1])"
    by (metis prod.collapse)
  have "complete_run [?f1, ?f2]" by (simp add: complete_run_def numbered_def)
  moreover have "sample_string (merged_document (lit ''ScannerInfo'') [?f1, ?f2]) = lit ''two''"
    by (simp add: sample_string_def merged_document_def)
  moreover have "suffix [?f1, ?f2] ([?f1] @ [?f2])" by (simp add: suffix_def)
  ultimately show ?thesis
    using conjunct1 [OF udp_document_exact [OF root d sample_classify(2) sample_fragment_of(2)]]
    unfolding d fst_conv by metis
qed

end
