(* ===== verification/Spec2Isabelle.thy ===== *)
theory Spec2Isabelle
  imports Audio_Pipeline Daemon_Events Favorites_Editing Favorites_Write_Plan
    Recording_Retention Scanner_Commands Radio_State Udp_Decoder
begin

text \<open>
  A verification library for the \<^verbatim>\<open>sds200\<close> Python package (\<^verbatim>\<open>src/src/sds200\<close>), which
  controls Uniden SDS scanners: it sends them commands and reads their responses, receives their
  audio over RTP, publishes audio packets and daemon events to bounded subscriptions, and reads,
  checks and rewrites the scanner's Favorites Lists files.

  \<^bold>\<open>The program's parts and their theories.\<close> Each theory opens with the file it models.

  \<^item> Scanner control. \<open>Scanner_Packets\<close> has the response lines (\<^verbatim>\<open>parser.py\<close>, the packet classes of
    \<^verbatim>\<open>models.py\<close>, the model names of \<^verbatim>\<open>scanner.py\<close>), \<open>Xml_Documents\<close> the assembler and parsers of
    XML responses (\<^verbatim>\<open>xml_protocol.py\<close>), \<open>Scanner_Commands\<close> the command classes as objects with
    their three methods (\<^verbatim>\<open>commands.py\<close>), \<open>Radio_State\<close> the snapshot of the scanner and its updates
    (\<^verbatim>\<open>state.py\<close>), and \<open>Udp_Decoder\<close> the reassembly of responses from datagrams (\<^verbatim>\<open>network.py\<close>).
    \<open>Scanner_Text\<close> has the string operations they use.
  \<^item> Audio reception. \<open>Rtp\<close> parses datagrams (\<^verbatim>\<open>rtp.py\<close>, \<^verbatim>\<open>RtpPacket.parse\<close>);
    \<open>Rtp_Trackers\<close> has the sequence and timestamp trackers of the same file; \<open>Pcmu\<close> the checked
    packet (\<^verbatim>\<open>pcmu.py\<close>); \<open>Network_Audio\<close> the session around them (\<^verbatim>\<open>network_audio.py\<close>):
    its statistics, the receive loop as one step per socket outcome, start, stop and keep-alive.
  \<^item> Audio distribution. \<open>Channels\<close> states what a bounded drop-oldest subscription promises (the
    locale \<open>channel\<close>) and what a publisher with many of them promises (\<open>broadcast\<close>).
    \<open>Pcmu_Subscriptions\<close> and \<open>Pcmu_Publisher\<close> model \<^verbatim>\<open>pcmu_subscriptions.py\<close> and
    \<^verbatim>\<open>pcmu_stream.py\<close>, \<open>Daemon_Events\<close> models \<^verbatim>\<open>daemon_events.py\<close>; both interpret the
    interfaces. \<open>Pcmu_Protocol\<close> is the framed wire format of \<^verbatim>\<open>pcmu_protocol.py\<close>, and
    \<open>Audio_Pipeline\<close> composes reception, publication and the wire format.
  \<^item> Favorites Lists. \<open>Favorites_File\<close> (lossless records), \<open>Favorites_Catalog\<close> and
    \<open>Favorites_Hierarchy\<close> (projections of the catalog and of a system file),
    \<open>Favorites_Workspace\<close> (binding entries to documents), \<open>Favorites_Storage\<close> (snapshots and
    export), \<open>Favorites_Schema\<close> (diagnostics), \<open>Favorites_Editing\<close> (targets and the edits of
    a snapshot) and \<open>Favorites_Write_Plan\<close> (the preview of a write) model the files of those names;
    \<open>Favorites_Changes\<close> and \<open>Favorites_Comparison\<close> model \<^verbatim>\<open>favorites_comparison.py\<close>, over
    \<open>Sequence_Matcher\<close>, the part of Python's \<open>difflib\<close> it uses (the interface \<open>differ\<close>).
  \<^item> Recordings. \<open>Recording_Retention\<close> models the plan of \<^verbatim>\<open>recording_retention.py\<close> over the
    entries of \<^verbatim>\<open>recording_inventory.py\<close>.
  \<^item> \<open>Prelude\<close> has results that may be exceptions, Python's slices and big-endian integers;
    \<open>Py_Text\<close> has Python strings as code points, \<open>str.isspace\<close>, \<open>str.strip\<close> and UTF-8. In the scanner
    control theories letters and digits are those of ASCII.

  \<^bold>\<open>How code becomes definitions.\<close> A class is a record and its constructor's checks are a function
  into \<^theory_text>\<open>error + record\<close>; an exception is \<^theory_text>\<open>Inl\<close> of a constructor that names the raise it stands
  for, without the text of its message. A stateful object is a record passed and returned. Objects
  shared by reference (subscriptions known to both a client and a publisher) live in a heap indexed
  by handles. A method that runs under a lock is one step; interleavings are sequences of steps
  (\<open>publisher_trace\<close>, \<open>ep_trace\<close>). A blocking receive with a time-out is a receive attempt that
  finds an event, finds the queue empty, or finds the subscription closed. Audio bytes are 8-bit
  words; Favorites bytes are characters of code 0 to 255; Python integers are unbounded \<^typ>\<open>int\<close>,
  with the widths of the wire written out. Checks that an argument has the declared Python type are
  discharged by HOL's types.

  \<^bold>\<open>Parameters.\<close> Sockets, the RTSP session, threads and the clock enter as arguments of the steps:
  which datagram arrived, which exception a call raised, which time was read. The JSON text of an
  event is not modelled, only its size, a parameter of the event publisher. ElementTree's parser and
  serialiser and Python's \<open>float\<close> are function arguments. Address resolution
  (\<open>inet_aton\<close>) is a parameter of \<open>normalize_bind_address\<close>.
  \<open>PureWindowsPath.drive\<close> follows Python 3.12; on 3.11 a few more file names are accepted.

  \<^bold>\<open>What the lemmas show.\<close> Parsers and codecs are characterised exactly (what they accept is the
  format, no more and no less). Trackers and publishers satisfy accounting invariants over every
  sequence of steps: nothing is lost or delivered twice without being counted. The receive loop
  never raises. Commands are read back as they were meant, and fragmented documents are delivered
  exactly when nothing of them was lost. Projections are faithful (each record exactly once, in its
  place and in file order) and refine small
  specifications (the context machine of a hierarchy file). Schema validation is total, ordered and
  equals a specification of conforming files.

  \<^bold>\<open>Termination.\<close> The index loop of \<open>split_source_lines\<close> and the two UTF-8 decoders are recursive
  functions with measures, as are the queue of regions and the extension loops of
  \<open>Sequence_Matcher\<close>; all other recursion is structural, so no fuel is used anywhere.

  \<^bold>\<open>Not modelled.\<close> Text of messages and logs; JSON and XML serialisation; socket servers, worker
  threads and process supervision of the daemon; the serial transport, the sockets and retries of
  the UDP transport, the client that waits for responses, and transport fallback; USB, FTP and
  local storage back ends and the execution of Favorites writes; the execution of retention plans;
  RadioReference access; encoders and playback; all user interfaces.
\<close>

end
